(* ===== verification/HS_Prelude.thy ===== *)
theory HS_Prelude
  imports Main "HOL-Library.Word"
begin

text \<open>
  Shared vocabulary of the development: the machine integers of the C code, its strings and
  fixed buffers, the error codes of include/heapstore.h, the allocator, linear search over the
  used prefix of a C array, and the interfaces (locales) through which the components rely on
  one another.
\<close>

section \<open>Machine integers, strings and buffers\<close>

type_synonym u32 = "32 word"
type_synonym u64 = "64 word"
type_synonym size_t = "64 word"

text \<open>Increments that cannot wrap because something bounds the word from above.\<close>

named_theorems word_counts

lemma unat_inc [word_counts]: "unat (w + 1) = Suc (unat w)" if "unat w + 1 < 2 ^ LENGTH('a)"
  for w :: "'a::len word"
  using that by (simp add: unat_word_ariths)

lemma unat_inc_below: "unat (w + 1) = Suc (unat w)" if "w < v" for w v :: "'a::len word"
proof (rule unat_inc)
  have "unat w < unat v" using that by (simp add: word_less_nat_alt)
  then show "unat w + 1 < 2 ^ LENGTH('a)" using unsigned_less [of v, where ?'a = nat] by linarith
qed

text \<open>
  A C string is the list of its bytes before the terminating NUL; a pointer that the code may
  find NULL is an \<open>option\<close>. \<open>snprintf_buf n s\<close> is what a buffer of \<open>n > 0\<close> bytes holds after
  \<open>snprintf(buf, n, ...)\<close> of the text \<open>s\<close>: at most \<open>n - 1\<close> bytes of it.
\<close>

definition snprintf_buf :: "nat \<Rightarrow> string \<Rightarrow> string" where
  "snprintf_buf n s = take (n - 1) s"

lemma snprintf_buf_fits [simp]: "length s < n \<Longrightarrow> snprintf_buf n s = s"
  by (simp add: snprintf_buf_def)

lemma length_snprintf_buf: "0 < n \<Longrightarrow> length (snprintf_buf n s) < n"
  by (simp add: snprintf_buf_def)

text \<open>The decimal digits printf writes for an unsigned integer.\<close>

fun show_nat :: "nat \<Rightarrow> string" where
  "show_nat n = (if n < 10 then [char_of (48 + n)] else show_nat (n div 10) @ [char_of (48 + n mod 10)])"

declare show_nat.simps [simp del]

lemma length_show_nat: "n < 10 ^ Suc k \<Longrightarrow> length (show_nat n) \<le> Suc k"
proof (induction k arbitrary: n)
  case 0
  then show ?case by (subst show_nat.simps) simp
next
  case (Suc k)
  then have "n div 10 < 10 ^ Suc k" by (simp add: less_mult_imp_div_less)
  with Suc.IH [of "n div 10"] show ?case by (subst show_nat.simps) simp
qed

abbreviation show_word :: "'a::len word \<Rightarrow> string" where
  "show_word w \<equiv> show_nat (unat w)"

lemma length_show_u64: "length (show_word w) \<le> 20" for w :: u64
proof -
  have "unat w < 10 ^ Suc 19" using unsigned_less [of w, where ?'a = nat] by simp
  then show ?thesis using length_show_nat by fastforce
qed

text \<open>The C library's \<open>strstr(h, n) != NULL\<close> and \<open>isalnum\<close> in the C locale.\<close>

fun strstr :: "string \<Rightarrow> string \<Rightarrow> bool" where
  "strstr [] n = (n = [])"
| "strstr (c # h) n = (take (length n) (c # h) = n \<or> strstr h n)"

definition isalnum :: "char \<Rightarrow> bool" where
  "isalnum c \<longleftrightarrow>
     (let n = (of_char c :: nat) in
        48 \<le> n \<and> n \<le> 57 \<or> 65 \<le> n \<and> n \<le> 90 \<or> 97 \<le> n \<and> n \<le> 122)"

section \<open>Error codes (heapstore_error_t)\<close>

datatype hs_error =
    SUCCESS
  | ERR_INVALID_PARAM
  | ERR_NOT_INITIALIZED
  | ERR_ALREADY_INITIALIZED
  | ERR_DIR_CREATE_FAILED
  | ERR_DIR_NOT_FOUND
  | ERR_PERMISSION_DENIED
  | ERR_OUT_OF_MEMORY
  | ERR_DB_INIT_FAILED
  | ERR_DB_QUERY_FAILED
  | ERR_FILE_OPEN_FAILED
  | ERR_CONFIG_INVALID
  | ERR_NOT_FOUND
  | ERR_FILE_OPERATION_FAILED
  | ERR_FILE_NOT_FOUND
  | ERR_CIRCUIT_OPEN
  | ERR_TIMEOUT
  | ERR_NO_SPACE
  | ERR_NOT_SUPPORTED
  | ERR_FILE_CORRUPT
  | ERR_INTERNAL

section \<open>The allocator\<close>

text \<open>
  AIRY_MALLOC and its kin belong to the commons library. The model keeps the two things the
  code relies on: a request may fail (\<open>fails\<close>, indexed by the number of the request), and a
  request that succeeds returns an address that no earlier request returned.
\<close>

record allocator =
  tick :: nat
  fails :: "nat \<Rightarrow> bool"

definition airy_alloc :: "allocator \<Rightarrow> nat option \<times> allocator" where
  "airy_alloc al = (if fails al (tick al) then None else Some (tick al), al\<lparr>tick := Suc (tick al)\<rparr>)"

lemma airy_alloc_Some:
  "airy_alloc al = (Some a, al') \<Longrightarrow> a = tick al \<and> tick al' = Suc (tick al) \<and> fails al' = fails al"
  by (auto simp: airy_alloc_def split: if_splits)

lemma airy_alloc_None: "airy_alloc al = (None, al') \<Longrightarrow> al' = al\<lparr>tick := Suc (tick al)\<rparr>"
  by (auto simp: airy_alloc_def split: if_splits)

section \<open>Search in the used prefix of an array\<close>

text \<open>
  The code keeps several tables as a static array and a count; only the first \<open>count\<close> slots are
  ever read, and they are the list of the model. \<open>find_slot\<close> is the loop
  \<open>for (i = 0; i < count; i++) if (strcmp(a[i].id, id) == 0) ...\<close>: the first matching index.
\<close>

fun find_slot :: "('r \<Rightarrow> string) \<Rightarrow> 'r list \<Rightarrow> string \<Rightarrow> nat option" where
  "find_slot key [] k = None"
| "find_slot key (r # rs) k = (if key r = k then Some 0 else map_option Suc (find_slot key rs k))"

definition table_map :: "('r \<Rightarrow> string) \<Rightarrow> 'r list \<Rightarrow> string \<Rightarrow> 'r option" where
  "table_map key rs = map_of (map (\<lambda>r. (key r, r)) rs)"

lemma table_map_Nil [simp]: "table_map key [] = Map.empty"
  by (simp add: table_map_def)

lemma table_map_Cons [simp]: "table_map key (r # rs) = (table_map key rs)(key r \<mapsto> r)"
  by (simp add: table_map_def)

lemma find_slot_None: "find_slot key rs k = None \<longleftrightarrow> k \<notin> key ` set rs"
  by (induction rs) auto

lemma find_slot_Some:
  "find_slot key rs k = Some i \<Longrightarrow> i < length rs \<and> key (rs ! i) = k \<and> table_map key rs k = Some (rs ! i)"
  by (induction rs arbitrary: i) (auto split: if_splits)

lemma table_map_None: "table_map key rs k = None \<longleftrightarrow> k \<notin> key ` set rs"
  by (induction rs) auto

lemma table_map_find_slot:
  "table_map key rs k = map_option (\<lambda>i. rs ! i) (find_slot key rs k)"
proof (cases "find_slot key rs k")
  case None
  then have "table_map key rs k = None" by (simp add: find_slot_None table_map_None)
  with None show ?thesis by simp
next
  case (Some i)
  then show ?thesis by (simp add: find_slot_Some)
qed

lemma table_map_append: "table_map key (rs @ [r]) = table_map key [r] ++ table_map key rs"
  by (simp add: table_map_def)

lemma table_map_append_new:
  assumes "key r \<notin> key ` set rs"
  shows "table_map key (rs @ [r]) = (table_map key rs)(key r \<mapsto> r)"
  using assms by (induction rs) (auto simp: fun_upd_twist)

lemma table_map_update:
  assumes "find_slot key rs (key r) = Some i" and "distinct (map key rs)"
  shows "table_map key (rs[i := r]) = (table_map key rs)(key r \<mapsto> r)"
  using assms
proof (induction rs arbitrary: i)
  case Nil
  then show ?case by simp
next
  case (Cons x rs)
  show ?case
  proof (cases "key x = key r")
    case True
    with Cons.prems show ?thesis by auto
  next
    case False
    with Cons.prems obtain j where "i = Suc j" and "find_slot key rs (key r) = Some j"
      by auto
    with False Cons show ?thesis by (auto simp: fun_upd_twist)
  qed
qed

lemma map_key_update:
  assumes "i < length rs" and "key (rs ! i) = key r"
  shows "map key (rs[i := r]) = map key rs"
  using assms by (metis list_update_id map_update nth_map)

section \<open>Interfaces between the components\<close>

text \<open>
  \<open>record_store\<close>: a store of records found by their id. \<open>insert\<close> is the storing operation of the
  API; its result is \<open>None\<close> only when the C code would have undefined behaviour. The laws say
  that a store in a good state always answers, that a successful insert is visible to
  \<open>lookup\<close> and changes no other id, and that a failing one changes nothing.
\<close>

locale record_store =
  fixes key :: "'r \<Rightarrow> string"
    and lookup :: "'s \<Rightarrow> string \<Rightarrow> 'r option"
    and insert :: "'r \<Rightarrow> 's \<Rightarrow> (hs_error \<times> 's) option"
    and inv :: "'s \<Rightarrow> bool"
  assumes insert_defined: "inv s \<Longrightarrow> \<exists>e s'. insert r s = Some (e, s')"
    and insert_inv: "inv s \<Longrightarrow> insert r s = Some (e, s') \<Longrightarrow> inv s'"
    and insert_success:
      "inv s \<Longrightarrow> insert r s = Some (SUCCESS, s') \<Longrightarrow> lookup s' = (lookup s)(key r \<mapsto> r)"
    and insert_failure:
      "inv s \<Longrightarrow> insert r s = Some (e, s') \<Longrightarrow> e \<noteq> SUCCESS \<Longrightarrow> lookup s' = lookup s"
begin

lemma lookup_after:
  assumes "inv s" and "insert r s = Some (e, s')"
  shows "lookup s' = (if e = SUCCESS then (lookup s)(key r \<mapsto> r) else lookup s)"
  using insert_success insert_failure assms by auto

lemma insert_dom:
  assumes "inv s" and "insert r s = Some (e, s')"
  shows "dom (lookup s) \<subseteq> dom (lookup s')"
  using lookup_after [OF assms] by auto

end

text \<open>A \<open>strict_store\<close> refuses an id it already holds, so a stored record is never overwritten.\<close>

locale strict_store = record_store +
  assumes insert_duplicate:
    "inv s \<Longrightarrow> lookup s (key r) \<noteq> None \<Longrightarrow> insert r s = Some (e, s') \<Longrightarrow> e \<noteq> SUCCESS"
begin

lemma insert_keeps:
  assumes "inv s" and "insert r s = Some (e, s')" and "lookup s k = Some v"
  shows "lookup s' k = Some v"
  using lookup_after [OF assms(1,2)] insert_duplicate [OF assms(1) _ assms(2)] assms(3)
  by (cases "k = key r") auto

end

text \<open>
  An \<open>open_store\<close> has states in which nothing but a duplicate or an empty id is refused (no
  shortage of memory, subsystem initialised); storing keeps them.
\<close>

locale open_store = strict_store +
  fixes accepting :: "'s \<Rightarrow> bool"
  assumes accepting_insert:
      "inv s \<Longrightarrow> accepting s \<Longrightarrow> key r \<noteq> [] \<Longrightarrow> lookup s (key r) = None \<Longrightarrow>
        insert r s = Some (e, s') \<Longrightarrow> e = SUCCESS"
    and accepting_keeps: "inv s \<Longrightarrow> accepting s \<Longrightarrow> insert r s = Some (e, s') \<Longrightarrow> accepting s'"
begin

lemma accepting_outcome:
  assumes "inv s" and "accepting s" and "key r \<noteq> []" and "insert r s = Some (e, s')"
  shows "e = SUCCESS \<longleftrightarrow> lookup s (key r) = None"
  using accepting_insert [OF assms(1-3) _ assms(4)] insert_duplicate [OF assms(1) _ assms(4)] by blast

end

text \<open>An \<open>erasable_store\<close> also deletes by id; a delete that fails changes nothing.\<close>

locale erasable_store = strict_store +
  fixes delete :: "string \<Rightarrow> 's \<Rightarrow> (hs_error \<times> 's) option"
  assumes delete_defined: "inv s \<Longrightarrow> \<exists>e s'. delete k s = Some (e, s')"
    and delete_inv: "inv s \<Longrightarrow> delete k s = Some (e, s') \<Longrightarrow> inv s'"
    and delete_success: "inv s \<Longrightarrow> delete k s = Some (SUCCESS, s') \<Longrightarrow> lookup s' = (lookup s)(k := None)"
    and delete_failure: "inv s \<Longrightarrow> delete k s = Some (e, s') \<Longrightarrow> e \<noteq> SUCCESS \<Longrightarrow> lookup s' = lookup s"
begin

lemma insert_delete:
  assumes "inv s" and "insert r s = Some (SUCCESS, s1)" and "delete (key r) s1 = Some (SUCCESS, s2)"
  shows "lookup s2 = lookup s"
proof -
  have "inv s1" by (rule insert_inv [OF assms(1,2)])
  from delete_success [OF this assms(3)] insert_success [OF assms(1,2)]
  have "lookup s2 = (lookup s)(key r := None)" by simp
  moreover have "lookup s (key r) = None" using insert_duplicate [OF assms(1) _ assms(2)] by blast
  ultimately show ?thesis by (auto simp: fun_eq_iff)
qed

end

text \<open>
  The contract of a storing operation in one formula, and the locales from it. Components prove
  the contract of their operation once and interpret with these rules.
\<close>

definition stores ::
  "('r \<Rightarrow> string) \<Rightarrow> ('s \<Rightarrow> string \<Rightarrow> 'r option) \<Rightarrow> ('s \<Rightarrow> bool) \<Rightarrow> 'r \<Rightarrow> 's \<Rightarrow> hs_error \<Rightarrow> 's \<Rightarrow> bool" where
  "stores key lookup I r s e s' \<longleftrightarrow>
     I s' \<and> lookup s' = (if e = SUCCESS then (lookup s)(key r \<mapsto> r) else lookup s)"

lemma record_storeI:
  assumes "\<And>s r. I s \<Longrightarrow> \<exists>e s'. ins r s = Some (e, s') \<and> stores key lookup I r s e s'"
  shows "record_store key lookup ins I"
proof
  fix s r assume "I s"
  from assms [OF this, of r] obtain e s' where
    *: "ins r s = Some (e, s')" "stores key lookup I r s e s'" by blast
  then show "\<exists>e s'. ins r s = Some (e, s')" by blast
  fix e' t assume run: "ins r s = Some (e', t)"
  with * show "I t" by (simp add: stores_def)
  show "lookup t = lookup s" if "e' \<noteq> SUCCESS"
    using * run that by (simp add: stores_def)
next
  fix s r t assume "I s" and run: "ins r s = Some (SUCCESS, t)"
  from assms [OF this(1), of r] run show "lookup t = (lookup s)(key r \<mapsto> r)"
    by (auto simp: stores_def)
qed

lemma record_storeI_total:
  assumes "\<And>s r. I s \<Longrightarrow> stores key lookup I r s (fst (f r s)) (snd (f r s))"
  shows "record_store key lookup (\<lambda>r s. Some (f r s)) I"
  by (rule record_storeI) (metis assms surjective_pairing)

lemma strict_storeI:
  assumes "\<And>s r. I s \<Longrightarrow> \<exists>e s'. ins r s = Some (e, s') \<and> stores key lookup I r s e s'
    \<and> (lookup s (key r) \<noteq> None \<longrightarrow> e \<noteq> SUCCESS)"
  shows "strict_store key lookup ins I"
proof (rule strict_store.intro)
  show "record_store key lookup ins I"
    using assms by (intro record_storeI) blast
  show "strict_store_axioms key lookup ins I"
    using assms by unfold_locales (metis option.inject prod.inject)
qed

text \<open>
  \<open>lifecycle\<close>: what heapstore_init, heapstore_shutdown and heapstore_health_check rely on in each
  subsystem: a subsystem whose init succeeded is healthy, one that was shut down is not.
\<close>

locale lifecycle =
  fixes init :: "'s \<Rightarrow> hs_error \<times> 's"
    and shutdown :: "'s \<Rightarrow> 's option"
    and healthy :: "'s \<Rightarrow> bool"
    and inv :: "'s \<Rightarrow> bool"
  assumes init_inv: "inv s \<Longrightarrow> inv (snd (init s))"
    and init_healthy: "inv s \<Longrightarrow> fst (init s) = SUCCESS \<Longrightarrow> healthy (snd (init s))"
    and shutdown_stops: "inv s \<Longrightarrow> \<exists>s'. shutdown s = Some s' \<and> inv s' \<and> \<not> healthy s'"
begin

lemma stop_after_init:
  "inv s \<Longrightarrow> \<exists>s'. shutdown (snd (init s)) = Some s' \<and> \<not> healthy s'"
  using shutdown_stops [OF init_inv] by blast

lemma restart_healthy:
  assumes "inv s" and "shutdown s = Some s'" and "fst (init s') = SUCCESS"
  shows "healthy (snd (init s'))"
  using shutdown_stops [OF assms(1)] assms(2,3) init_healthy by auto

end

text \<open>
  A \<open>guarded_lifecycle\<close> also promises that an init which fails leaves a stopped subsystem stopped,
  so that the one who calls it may give up without a shutdown.
\<close>

locale guarded_lifecycle = lifecycle +
  assumes init_failure: "inv s \<Longrightarrow> \<not> healthy s \<Longrightarrow> fst (init s) \<noteq> SUCCESS \<Longrightarrow> \<not> healthy (snd (init s))"
begin

lemma init_outcome:
  assumes "inv s" and "init s = (e, s')"
  shows "inv s' \<and> (e = SUCCESS \<longrightarrow> healthy s') \<and> (e \<noteq> SUCCESS \<longrightarrow> \<not> healthy s \<longrightarrow> \<not> healthy s')"
  using init_inv init_healthy init_failure assms by (metis fst_conv snd_conv)

lemma shutdown_outcome:
  assumes "inv s"
  obtains s' where "shutdown s = Some s'" and "inv s'" and "\<not> healthy s'"
  using shutdown_stops [OF assms] by blast

end

end
