(* ===== verification/HS_Error.thy ===== *)
theory HS_Error
  imports HS_Prelude
begin

text \<open>
  The numeric error codes of include/heapstore.h and heapstore_strerror
  (src/heapstore_core_error.c). The C function switches over an enum that may hold any int, so
  its argument is an int here; the default branch is the last alternative.
\<close>

fun err_code :: "hs_error \<Rightarrow> int" where
  "err_code SUCCESS = 0"
| "err_code ERR_INVALID_PARAM = -1"
| "err_code ERR_NOT_INITIALIZED = -2"
| "err_code ERR_ALREADY_INITIALIZED = -3"
| "err_code ERR_DIR_CREATE_FAILED = -4"
| "err_code ERR_DIR_NOT_FOUND = -5"
| "err_code ERR_PERMISSION_DENIED = -6"
| "err_code ERR_OUT_OF_MEMORY = -7"
| "err_code ERR_DB_INIT_FAILED = -8"
| "err_code ERR_DB_QUERY_FAILED = -9"
| "err_code ERR_FILE_OPEN_FAILED = -10"
| "err_code ERR_CONFIG_INVALID = -11"
| "err_code ERR_NOT_FOUND = -12"
| "err_code ERR_FILE_OPERATION_FAILED = -13"
| "err_code ERR_FILE_NOT_FOUND = -14"
| "err_code ERR_CIRCUIT_OPEN = -15"
| "err_code ERR_TIMEOUT = -16"
| "err_code ERR_NO_SPACE = -17"
| "err_code ERR_NOT_SUPPORTED = -18"
| "err_code ERR_FILE_CORRUPT = -19"
| "err_code ERR_INTERNAL = -99"

lemma inj_err_code: "err_code a = err_code b \<longleftrightarrow> a = b"
  by (cases a; cases b) simp_all

definition heapstore_strerror :: "int \<Rightarrow> string" where
  "heapstore_strerror err =
    (if err = 0 then
       ''[OK] heapstore_SUCCESS: Operation completed successfully''
     else if err = -1 then
       ''[ERROR] heapstore_ERR_INVALID_PARAM: Invalid parameter provided. ''
       @ ''(context: param=NULL or out_of_range). ''
       @ ''Suggestion: Check function arguments against API documentation.''
     else if err = -2 then
       ''[ERROR] heapstore_ERR_NOT_INITIALIZED: heapstore module not initialized. ''
       @ ''(context: heapstore_init() not called). ''
       @ ''Suggestion: Call heapstore_init() before using any other APIs.''
     else if err = -3 then
       ''[ERROR] heapstore_ERR_ALREADY_INITIALIZED: heapstore already initialized. ''
       @ ''(context: duplicate heapstore_init() call). ''
       @ ''Suggestion: Check initialization logic, avoid duplicate calls.''
     else if err = -4 then
       ''[ERROR] heapstore_ERR_DIR_CREATE_FAILED: Failed to create directory. ''
       @ ''(context: path=/xxx/yyy, errno=13). ''
       @ ''Suggestion: Check filesystem permissions and disk space.''
     else if err = -5 then
       ''[ERROR] heapstore_ERR_DIR_NOT_FOUND: Directory not found. ''
       @ ''(context: path does not exist). ''
       @ ''Suggestion: Verify the directory path and ensure it exists.''
     else if err = -6 then
       ''[ERROR] heapstore_ERR_PERMISSION_DENIED: Permission denied. ''
       @ ''(context: insufficient privileges for operation). ''
       @ ''Suggestion: Check file permissions or run with appropriate privileges.''
     else if err = -7 then
       ''[ERROR] heapstore_ERR_OUT_OF_MEMORY: Out of memory. ''
       @ ''(context: malloc/realloc failed). ''
       @ ''Suggestion: Check system memory availability and reduce workload.''
     else if err = -8 then
       ''[ERROR] heapstore_ERR_DB_INIT_FAILED: Database initialization failed. ''
       @ ''(context: SQLite init error). ''
       @ ''Suggestion: Check database file permissions and disk space.''
     else if err = -9 then
       ''[ERROR] heapstore_ERR_DB_QUERY_FAILED: Database query failed. ''
       @ ''(context: SQL execution error). ''
       @ ''Suggestion: Check SQL syntax and database integrity.''
     else if err = -10 then
       ''[ERROR] heapstore_ERR_FILE_OPEN_FAILED: Failed to open file. ''
       @ ''(context: fopen() failed). ''
       @ ''Suggestion: Check file path, permissions, and disk space.''
     else if err = -11 then
       ''[ERROR] heapstore_ERR_CONFIG_INVALID: Invalid configuration. ''
       @ ''(context: config parameter validation failed). ''
       @ ''Suggestion: Review configuration parameters against documentation.''
     else if err = -13 then
       ''[ERROR] heapstore_ERR_FILE_OPERATION_FAILED: File operation failed. ''
       @ ''(context: fread/fwrite/fseek error). ''
       @ ''Suggestion: Check file handle validity and disk space.''
     else if err = -14 then
       ''[ERROR] heapstore_ERR_FILE_NOT_FOUND: File not found. ''
       @ ''(context: specified file does not exist). ''
       @ ''Suggestion: Verify file path and ensure the file exists.''
     else if err = -12 then
       ''[ERROR] heapstore_ERR_NOT_FOUND: Requested resource not found. ''
       @ ''(context: record/query result not found). ''
       @ ''Suggestion: Check the resource ID or query parameters.''
     else if err = -15 then
       ''[ERROR] heapstore_ERR_CIRCUIT_OPEN: Circuit breaker is open. ''
       @ ''(context: too many consecutive failures). ''
       @ ''Suggestion: Wait for circuit breaker timeout or check subsystem health.''
     else if err = -16 then
       ''[ERROR] heapstore_ERR_TIMEOUT: Operation timeout. ''
       @ ''(context: operation exceeded timeout_ms). ''
       @ ''Suggestion: Increase timeout or check system performance.''
     else if err = -17 then
       ''[ERROR] heapstore_ERR_NO_SPACE: No space left on device. ''
       @ ''(context: write failed, disk full). ''
       @ ''Suggestion: Free disk space and retry the operation.''
     else if err = -18 then
       ''[ERROR] heapstore_ERR_NOT_SUPPORTED: Operation not supported. ''
       @ ''(context: feature unavailable in this build or platform). ''
       @ ''Suggestion: Check build flags and platform support matrix.''
     else if err = -19 then
       ''[ERROR] heapstore_ERR_FILE_CORRUPT: Stored file content is corrupt. ''
       @ ''(context: format validation failed). ''
       @ ''Suggestion: Restore the file from backup or remove it to re-initialize.''
     else if err = -99 then
       ''[ERROR] heapstore_ERR_INTERNAL: Internal error. ''
       @ ''(context: unexpected error occurred). ''
       @ ''Suggestion: Check logs for details and contact support if issue persists.''
     else 
       ''[ERROR] Unknown error code. ''
       @ ''(context: undefined error). ''
       @ ''Suggestion: This is likely a bug, please report to developers.'')"

text \<open>Twelve characters of each message are enough to tell the codes apart.\<close>

lemma strerror_head:
  "take 12 (drop 22 (heapstore_strerror c)) =
    (if c = 0 then '': Operation ''
     else if c = -1 then ''INVALID_PARA''
     else if c = -2 then ''NOT_INITIALI''
     else if c = -3 then ''ALREADY_INIT''
     else if c = -4 then ''DIR_CREATE_F''
     else if c = -5 then ''DIR_NOT_FOUN''
     else if c = -6 then ''PERMISSION_D''
     else if c = -7 then ''OUT_OF_MEMOR''
     else if c = -8 then ''DB_INIT_FAIL''
     else if c = -9 then ''DB_QUERY_FAI''
     else if c = -10 then ''FILE_OPEN_FA''
     else if c = -11 then ''CONFIG_INVAL''
     else if c = -13 then ''FILE_OPERATI''
     else if c = -14 then ''FILE_NOT_FOU''
     else if c = -12 then ''NOT_FOUND: R''
     else if c = -15 then ''CIRCUIT_OPEN''
     else if c = -16 then ''TIMEOUT: Ope''
     else if c = -17 then ''NO_SPACE: No''
     else if c = -18 then ''NOT_SUPPORTE''
     else if c = -19 then ''FILE_CORRUPT''
     else if c = -99 then ''INTERNAL: In''
     else ''code. (conte'')"
  unfolding heapstore_strerror_def by (simp only: if_distrib [of "\<lambda>s. take 12 (drop 22 s)"]) simp

text \<open>
  Every error code has a message of its own: the message of a code is the message of no other
  int, so the text identifies the code, and no code falls through to the default branch.
\<close>

theorem strerror_identifies_code:
  "heapstore_strerror c = heapstore_strerror (err_code e) \<longleftrightarrow> c = err_code e"
proof
  assume "heapstore_strerror c = heapstore_strerror (err_code e)"
  then have "take 12 (drop 22 (heapstore_strerror c)) = take 12 (drop 22 (heapstore_strerror (err_code e)))"
    by simp
  then show "c = err_code e"
    unfolding strerror_head by (cases e) (simp_all split: if_splits)
qed simp

end
