(* ===== verification/HS_Registry.thy ===== *)
theory HS_Registry
  imports HS_Prelude
begin

text \<open>
  src/heapstore_registry.c: the in-memory registry backend (builds without SQLite). Agents, skills
  and sessions are singly linked lists of heap nodes; the model keeps the heap, so that a pointer
  to a freed node is visible as such. An operation whose C code would follow a dangling pointer,
  or would not return, has the result None.
\<close>

section \<open>Records and nodes\<close>

record agent_record =
  agent_id :: string
  agent_name :: string
  agent_type :: string
  agent_version :: string
  agent_status :: string
  config_path :: string
  agent_created_at :: u64
  agent_updated_at :: u64
  priority :: "32 word"
  tags :: string

record skill_record =
  skill_id :: string
  skill_name :: string
  skill_version :: string
  library_path :: string
  manifest_path :: string
  installed_at :: u64

record session_record =
  session_id :: string
  user_id :: string
  session_created_at :: u64
  last_active_at :: u64
  ttl_seconds :: u32
  session_status :: string
  metadata :: string

text \<open>
  registry_node_t (the record behind \<open>data\<close> is kept in the node: both live and die together) and
  the view reg_domain_t of one list: head pointer, counter, and the heap its nodes live in.
\<close>

record 'r node =
  ndata :: "'r option"
  nnext :: "nat option"

type_synonym 'r heap = "nat \<Rightarrow> 'r node option"

record 'r reg_domain =
  dhead :: "nat option"
  dcount :: size_t
  dheap :: "'r heap"

record registry =
  agents :: "agent_record reg_domain"
  skills :: "skill_record reg_domain"
  sessions :: "session_record reg_domain"
  reg_initialized :: bool

section \<open>The generic domain operations\<close>

partial_function (option) find_node_by_id ::
  "'r heap \<Rightarrow> nat option \<Rightarrow> string \<Rightarrow> ('r \<Rightarrow> string) \<Rightarrow> nat option option" where
  "find_node_by_id h node rid key =
     (case node of
        None \<Rightarrow> Some None
      | Some a \<Rightarrow>
          (case h a of
             None \<Rightarrow> None
           | Some n \<Rightarrow>
               (case ndata n of
                  Some r \<Rightarrow> if key r = rid then Some (Some a) else find_node_by_id h (nnext n) rid key
                | None \<Rightarrow> find_node_by_id h (nnext n) rid key)))"

partial_function (option) free_node_list :: "'r heap \<Rightarrow> nat option \<Rightarrow> 'r heap option" where
  "free_node_list h node =
     (case node of
        None \<Rightarrow> Some h
      | Some a \<Rightarrow>
          (case h a of
             None \<Rightarrow> None
           | Some n \<Rightarrow> free_node_list (h(a := None)) (nnext n)))"

definition reg_add ::
  "('r \<Rightarrow> string) \<Rightarrow> bool \<Rightarrow> 'r option \<Rightarrow> allocator \<times> 'r reg_domain
     \<Rightarrow> (hs_error \<times> allocator \<times> 'r reg_domain) option" where
  "reg_add key initialized rec = (\<lambda>(al, d).
     case rec of
       None \<Rightarrow> Some (ERR_INVALID_PARAM, al, d)
     | Some r \<Rightarrow>
         if key r = [] then Some (ERR_INVALID_PARAM, al, d)
         else if \<not> initialized then Some (ERR_NOT_INITIALIZED, al, d)
         else case find_node_by_id (dheap d) (dhead d) (key r) key of
           None \<Rightarrow> None
         | Some (Some _) \<Rightarrow> Some (ERR_ALREADY_INITIALIZED, al, d)
         | Some None \<Rightarrow>
             (case airy_alloc al of
                (None, al1) \<Rightarrow> Some (ERR_OUT_OF_MEMORY, al1, d)
              | (Some a, al1) \<Rightarrow>
                  (case airy_alloc al1 of
                     (None, al2) \<Rightarrow> Some (ERR_OUT_OF_MEMORY, al2, d)
                   | (Some _, al2) \<Rightarrow>
                       Some (SUCCESS, al2,
                         d\<lparr>dheap := (dheap d)(a \<mapsto> \<lparr>ndata = Some r, nnext = dhead d\<rparr>),
                           dhead := Some a, dcount := dcount d + 1\<rparr>))))"

definition reg_get ::
  "('r \<Rightarrow> string) \<Rightarrow> bool \<Rightarrow> string option \<Rightarrow> bool \<Rightarrow> 'r reg_domain \<Rightarrow> (hs_error \<times> 'r option) option" where
  "reg_get key initialized rid out d =
     (case rid of
        None \<Rightarrow> Some (ERR_INVALID_PARAM, None)
      | Some k \<Rightarrow>
          if \<not> out then Some (ERR_INVALID_PARAM, None)
          else if \<not> initialized then Some (ERR_NOT_INITIALIZED, None)
          else case find_node_by_id (dheap d) (dhead d) k key of
            None \<Rightarrow> None
          | Some None \<Rightarrow> Some (ERR_NOT_FOUND, None)
          | Some (Some a) \<Rightarrow>
              (case dheap d a of
                 None \<Rightarrow> None
               | Some n \<Rightarrow> (case ndata n of None \<Rightarrow> None | Some r \<Rightarrow> Some (SUCCESS, Some r))))"

definition reg_update ::
  "('r \<Rightarrow> string) \<Rightarrow> bool \<Rightarrow> 'r option \<Rightarrow> 'r reg_domain \<Rightarrow> (hs_error \<times> 'r reg_domain) option" where
  "reg_update key initialized rec d =
     (case rec of
        None \<Rightarrow> Some (ERR_INVALID_PARAM, d)
      | Some r \<Rightarrow>
          if key r = [] then Some (ERR_INVALID_PARAM, d)
          else if \<not> initialized then Some (ERR_NOT_INITIALIZED, d)
          else case find_node_by_id (dheap d) (dhead d) (key r) key of
            None \<Rightarrow> None
          | Some None \<Rightarrow> Some (ERR_NOT_FOUND, d)
          | Some (Some a) \<Rightarrow>
              (case dheap d a of
                 None \<Rightarrow> None
               | Some n \<Rightarrow>
                   (case ndata n of
                      None \<Rightarrow> None
                    | Some _ \<Rightarrow> Some (SUCCESS, d\<lparr>dheap := (dheap d)(a \<mapsto> n\<lparr>ndata := Some r\<rparr>)\<rparr>))))"

text \<open>
  The loop of reg_delete. Its pointer-to-pointer \<open>pp\<close> is the head field (\<open>prev = None\<close>) or the
  next field of the node \<open>prev\<close>; \<open>cur\<close> is the value \<open>*pp\<close>. The result is None inside Some when no
  node has the id.
\<close>

partial_function (option) reg_delete_loop ::
  "('r \<Rightarrow> string) \<Rightarrow> string \<Rightarrow> 'r reg_domain \<Rightarrow> nat option \<Rightarrow> nat option \<Rightarrow> 'r reg_domain option option" where
  "reg_delete_loop key rid d prev cur =
     (case cur of
        None \<Rightarrow> Some None
      | Some a \<Rightarrow>
          (case dheap d a of
             None \<Rightarrow> None
           | Some n \<Rightarrow>
               (case ndata n of
                  None \<Rightarrow> None
                | Some r \<Rightarrow>
                    if key r = rid then
                      (case prev of
                         None \<Rightarrow> Some (Some (d\<lparr>dhead := nnext n, dheap := (dheap d)(a := None),
                                               dcount := dcount d - 1\<rparr>))
                       | Some p \<Rightarrow>
                           (case dheap d p of
                              None \<Rightarrow> None
                            | Some m \<Rightarrow>
                                Some (Some (d\<lparr>dheap := ((dheap d)(p \<mapsto> m\<lparr>nnext := nnext n\<rparr>))(a := None),
                                              dcount := dcount d - 1\<rparr>))))
                    else reg_delete_loop key rid d (Some a) (nnext n))))"

declare find_node_by_id.simps [code] free_node_list.simps [code] reg_delete_loop.simps [code]

definition reg_delete ::
  "('r \<Rightarrow> string) \<Rightarrow> bool \<Rightarrow> string option \<Rightarrow> 'r reg_domain \<Rightarrow> (hs_error \<times> 'r reg_domain) option" where
  "reg_delete key initialized rid d =
     (case rid of
        None \<Rightarrow> Some (ERR_INVALID_PARAM, d)
      | Some k \<Rightarrow>
          if \<not> initialized then Some (ERR_NOT_INITIALIZED, d)
          else case reg_delete_loop key k d None (dhead d) of
                 None \<Rightarrow> None
               | Some None \<Rightarrow> Some (ERR_NOT_FOUND, d)
               | Some (Some d') \<Rightarrow> Some (SUCCESS, d'))"

text \<open>
  An iterator is a raw pointer to the next node. reg_query returns it (\<open>iter\<close>: is the output
  pointer non-NULL), iter_next reads through it.
\<close>

record reg_iter =
  it_current :: "nat option"
  it_type :: nat

definition reg_query ::
  "nat \<Rightarrow> bool \<Rightarrow> bool \<Rightarrow> allocator \<times> 'r reg_domain \<Rightarrow> hs_error \<times> reg_iter option \<times> allocator" where
  "reg_query ty initialized iter = (\<lambda>(al, d).
     if \<not> iter then (ERR_INVALID_PARAM, None, al)
     else if \<not> initialized then (ERR_NOT_INITIALIZED, None, al)
     else case airy_alloc al of
            (None, al') \<Rightarrow> (ERR_OUT_OF_MEMORY, None, al')
          | (Some _, al') \<Rightarrow> (SUCCESS, Some \<lparr>it_current = dhead d, it_type = ty\<rparr>, al'))"

definition heapstore_registry_iter_next ::
  "reg_iter option \<Rightarrow> bool \<Rightarrow> 'r reg_domain \<Rightarrow> (hs_error \<times> 'r option \<times> reg_iter option) option" where
  "heapstore_registry_iter_next iter out d =
     (case iter of
        None \<Rightarrow> Some (ERR_INVALID_PARAM, None, None)
      | Some it \<Rightarrow>
          if \<not> out then Some (ERR_INVALID_PARAM, None, Some it)
          else case it_current it of
            None \<Rightarrow> Some (ERR_NOT_FOUND, None, Some it)
          | Some a \<Rightarrow>
              (case dheap d a of
                 None \<Rightarrow> None
               | Some n \<Rightarrow> (case ndata n of
                              None \<Rightarrow> None
                            | Some r \<Rightarrow> Some (SUCCESS, Some r, Some (it\<lparr>it_current := nnext n\<rparr>)))))"

fun reg_batch_loop ::
  "('r \<Rightarrow> string) \<Rightarrow> bool \<Rightarrow> 'r list \<Rightarrow> allocator \<times> 'r reg_domain
     \<Rightarrow> (hs_error \<times> allocator \<times> 'r reg_domain) option" where
  "reg_batch_loop key initialized [] s = Some (SUCCESS, s)"
| "reg_batch_loop key initialized (r # rs) s =
     (case reg_add key initialized (Some r) s of
        None \<Rightarrow> None
      | Some (e, s') \<Rightarrow> if e \<noteq> SUCCESS then Some (e, s') else reg_batch_loop key initialized rs s')"

definition reg_batch ::
  "('r \<Rightarrow> string) \<Rightarrow> bool \<Rightarrow> 'r list option \<Rightarrow> allocator \<times> 'r reg_domain
     \<Rightarrow> (hs_error \<times> allocator \<times> 'r reg_domain) option" where
  "reg_batch key initialized records s =
     (case records of
        None \<Rightarrow> Some (ERR_INVALID_PARAM, s)
      | Some rs \<Rightarrow>
          if rs = [] then Some (ERR_INVALID_PARAM, s)
          else if \<not> initialized then Some (ERR_NOT_INITIALIZED, s)
          else reg_batch_loop key initialized rs s)"

section \<open>The public operations\<close>

text \<open>
  heapstore_registry_init sets the whole structure to zero without freeing the lists it held: the
  heads and counters are reset, the nodes stay in the heap.
\<close>

definition clear_domain :: "'r reg_domain \<Rightarrow> 'r reg_domain" where
  "clear_domain d = d\<lparr>dhead := None, dcount := 0\<rparr>"

definition heapstore_registry_init :: "registry \<Rightarrow> hs_error \<times> registry" where
  "heapstore_registry_init g =
     (SUCCESS, \<lparr>agents = clear_domain (agents g), skills = clear_domain (skills g),
                sessions = clear_domain (sessions g), reg_initialized = True\<rparr>)"

definition heapstore_registry_shutdown :: "registry \<Rightarrow> registry option" where
  "heapstore_registry_shutdown g =
     (case free_node_list (dheap (agents g)) (dhead (agents g)) of
        None \<Rightarrow> None
      | Some ha \<Rightarrow>
          (case free_node_list (dheap (skills g)) (dhead (skills g)) of
             None \<Rightarrow> None
           | Some hk \<Rightarrow>
               (case free_node_list (dheap (sessions g)) (dhead (sessions g)) of
                  None \<Rightarrow> None
                | Some hs \<Rightarrow>
                    Some \<lparr>agents = \<lparr>dhead = None, dcount = 0, dheap = ha\<rparr>,
                          skills = \<lparr>dhead = None, dcount = 0, dheap = hk\<rparr>,
                          sessions = \<lparr>dhead = None, dcount = 0, dheap = hs\<rparr>,
                          reg_initialized = False\<rparr>)))"

definition heapstore_registry_is_healthy :: "registry \<Rightarrow> bool" where
  "heapstore_registry_is_healthy g = reg_initialized g"

definition heapstore_registry_vacuum :: "registry \<Rightarrow> hs_error" where
  "heapstore_registry_vacuum g = (if \<not> reg_initialized g then ERR_NOT_INITIALIZED else SUCCESS)"

definition heapstore_registry_add_agent ::
  "agent_record option \<Rightarrow> allocator \<times> registry \<Rightarrow> (hs_error \<times> allocator \<times> registry) option" where
  "heapstore_registry_add_agent rec = (\<lambda>(al, g).
     map_option (\<lambda>(e, al', d). (e, al', g\<lparr>agents := d\<rparr>))
       (reg_add agent_id (reg_initialized g) rec (al, agents g)))"

definition heapstore_registry_get_agent ::
  "string option \<Rightarrow> bool \<Rightarrow> registry \<Rightarrow> (hs_error \<times> agent_record option) option" where
  "heapstore_registry_get_agent rid out g = reg_get agent_id (reg_initialized g) rid out (agents g)"

definition heapstore_registry_update_agent ::
  "agent_record option \<Rightarrow> registry \<Rightarrow> (hs_error \<times> registry) option" where
  "heapstore_registry_update_agent rec g =
     map_option (\<lambda>(e, d). (e, g\<lparr>agents := d\<rparr>)) (reg_update agent_id (reg_initialized g) rec (agents g))"

definition heapstore_registry_delete_agent ::
  "string option \<Rightarrow> registry \<Rightarrow> (hs_error \<times> registry) option" where
  "heapstore_registry_delete_agent rid g =
     map_option (\<lambda>(e, d). (e, g\<lparr>agents := d\<rparr>)) (reg_delete agent_id (reg_initialized g) rid (agents g))"

definition heapstore_registry_query_agents ::
  "string option \<Rightarrow> string option \<Rightarrow> bool \<Rightarrow> allocator \<times> registry \<Rightarrow> hs_error \<times> reg_iter option \<times> allocator" where
  "heapstore_registry_query_agents filter_type filter_status iter = (\<lambda>(al, g).
     reg_query 0 (reg_initialized g) iter (al, agents g))"

definition heapstore_registry_batch_insert_agents ::
  "agent_record list option \<Rightarrow> allocator \<times> registry \<Rightarrow> (hs_error \<times> allocator \<times> registry) option" where
  "heapstore_registry_batch_insert_agents records = (\<lambda>(al, g).
     map_option (\<lambda>(e, al', d). (e, al', g\<lparr>agents := d\<rparr>))
       (reg_batch agent_id (reg_initialized g) records (al, agents g)))"

definition heapstore_registry_add_skill ::
  "skill_record option \<Rightarrow> allocator \<times> registry \<Rightarrow> (hs_error \<times> allocator \<times> registry) option" where
  "heapstore_registry_add_skill rec = (\<lambda>(al, g).
     map_option (\<lambda>(e, al', d). (e, al', g\<lparr>skills := d\<rparr>))
       (reg_add skill_id (reg_initialized g) rec (al, skills g)))"

definition heapstore_registry_get_skill ::
  "string option \<Rightarrow> bool \<Rightarrow> registry \<Rightarrow> (hs_error \<times> skill_record option) option" where
  "heapstore_registry_get_skill rid out g = reg_get skill_id (reg_initialized g) rid out (skills g)"

definition heapstore_registry_delete_skill ::
  "string option \<Rightarrow> registry \<Rightarrow> (hs_error \<times> registry) option" where
  "heapstore_registry_delete_skill rid g =
     map_option (\<lambda>(e, d). (e, g\<lparr>skills := d\<rparr>)) (reg_delete skill_id (reg_initialized g) rid (skills g))"

definition heapstore_registry_query_skills ::
  "bool \<Rightarrow> allocator \<times> registry \<Rightarrow> hs_error \<times> reg_iter option \<times> allocator" where
  "heapstore_registry_query_skills iter = (\<lambda>(al, g).
     reg_query 1 (reg_initialized g) iter (al, skills g))"

definition heapstore_registry_batch_insert_skills ::
  "skill_record list option \<Rightarrow> allocator \<times> registry \<Rightarrow> (hs_error \<times> allocator \<times> registry) option" where
  "heapstore_registry_batch_insert_skills records = (\<lambda>(al, g).
     map_option (\<lambda>(e, al', d). (e, al', g\<lparr>skills := d\<rparr>))
       (reg_batch skill_id (reg_initialized g) records (al, skills g)))"

definition heapstore_registry_add_session ::
  "session_record option \<Rightarrow> allocator \<times> registry \<Rightarrow> (hs_error \<times> allocator \<times> registry) option" where
  "heapstore_registry_add_session rec = (\<lambda>(al, g).
     map_option (\<lambda>(e, al', d). (e, al', g\<lparr>sessions := d\<rparr>))
       (reg_add session_id (reg_initialized g) rec (al, sessions g)))"

definition heapstore_registry_get_session ::
  "string option \<Rightarrow> bool \<Rightarrow> registry \<Rightarrow> (hs_error \<times> session_record option) option" where
  "heapstore_registry_get_session rid out g = reg_get session_id (reg_initialized g) rid out (sessions g)"

definition heapstore_registry_update_session ::
  "session_record option \<Rightarrow> registry \<Rightarrow> (hs_error \<times> registry) option" where
  "heapstore_registry_update_session rec g =
     map_option (\<lambda>(e, d). (e, g\<lparr>sessions := d\<rparr>)) (reg_update session_id (reg_initialized g) rec (sessions g))"

definition heapstore_registry_delete_session ::
  "string option \<Rightarrow> registry \<Rightarrow> (hs_error \<times> registry) option" where
  "heapstore_registry_delete_session rid g =
     map_option (\<lambda>(e, d). (e, g\<lparr>sessions := d\<rparr>)) (reg_delete session_id (reg_initialized g) rid (sessions g))"

definition heapstore_registry_query_sessions ::
  "string option \<Rightarrow> bool \<Rightarrow> allocator \<times> registry \<Rightarrow> hs_error \<times> reg_iter option \<times> allocator" where
  "heapstore_registry_query_sessions filter_status iter = (\<lambda>(al, g).
     reg_query 2 (reg_initialized g) iter (al, sessions g))"

definition hs_batch_insert_sessions ::
  "session_record list option \<Rightarrow> allocator \<times> registry \<Rightarrow> (hs_error \<times> allocator \<times> registry) option" where
  "hs_batch_insert_sessions records = (\<lambda>(al, g).
     map_option (\<lambda>(e, al', d). (e, al', g\<lparr>sessions := d\<rparr>))
       (reg_batch session_id (reg_initialized g) records (al, sessions g)))"

section \<open>Lists on the heap\<close>

text \<open>\<open>lseg h p xs\<close>: following next from \<open>p\<close> runs through the nodes \<open>xs\<close> and ends in NULL.\<close>

fun lseg :: "'r heap \<Rightarrow> nat option \<Rightarrow> (nat \<times> 'r) list \<Rightarrow> bool" where
  "lseg h p [] \<longleftrightarrow> p = None"
| "lseg h p ((a, r) # xs) \<longleftrightarrow> p = Some a \<and> (\<exists>q. h a = Some \<lparr>ndata = Some r, nnext = q\<rparr> \<and> lseg h q xs)"

lemma lseg_unique: "lseg h p xs \<Longrightarrow> lseg h p ys \<Longrightarrow> xs = ys"
proof (induction xs arbitrary: p ys)
  case Nil
  then show ?case by (cases ys) auto
next
  case (Cons x xs)
  then show ?case by (cases x; cases ys) auto
qed

lemma lseg_suffix: "lseg h p (xs @ (a, r) # ys) \<Longrightarrow> lseg h (Some a) ((a, r) # ys)"
  by (induction xs arbitrary: p) auto

lemma lseg_distinct: "lseg h p xs \<Longrightarrow> distinct (map fst xs)"
proof (induction xs arbitrary: p)
  case Nil
  then show ?case by simp
next
  case (Cons x xs)
  obtain a r where x: "x = (a, r)" by (cases x)
  have "a \<notin> fst ` set xs"
  proof
    assume "a \<in> fst ` set xs"
    then obtain s where "(a, s) \<in> set xs" by auto
    then obtain us vs where xs: "xs = us @ (a, s) # vs" using split_list by fastforce
    from Cons.prems obtain q where q: "h a = Some \<lparr>ndata = Some r, nnext = q\<rparr>" "lseg h q xs"
      by (auto simp: x)
    from q(2) have "lseg h (Some a) ((a, s) # vs)" unfolding xs by (rule lseg_suffix)
    with q have "lseg h q vs" by auto
    with q(2) have "xs = vs" by (rule lseg_unique)
    with xs have "length vs = length (us @ (a, s) # vs)" by simp
    then show False by simp
  qed
  with Cons x show ?case by auto
qed

lemma lseg_cong: "lseg h p xs \<Longrightarrow> \<forall>a\<in>fst ` set xs. h' a = h a \<Longrightarrow> lseg h' p xs"
  by (induction xs arbitrary: p) auto

lemma lseg_frame: "lseg h p xs \<Longrightarrow> a \<notin> fst ` set xs \<Longrightarrow> lseg (h(a := v)) p xs"
  by (rule lseg_cong) auto

lemma lseg_mem: "lseg h p xs \<Longrightarrow> (a, r) \<in> set xs \<Longrightarrow> \<exists>q. h a = Some \<lparr>ndata = Some r, nnext = q\<rparr>"
  by (induction xs arbitrary: p) auto

lemma lseg_split:
  "lseg h p (xs @ (a, r) # ys) \<Longrightarrow> \<exists>q. h a = Some \<lparr>ndata = Some r, nnext = q\<rparr> \<and> lseg h q ys"
  using lseg_suffix by fastforce

text \<open>Overwriting the record of a node keeps the shape of the list.\<close>

lemma lseg_write:
  assumes "lseg h p (xs @ (a, r) # ys)" and "h a = Some n"
  shows "lseg (h(a \<mapsto> n\<lparr>ndata := Some s\<rparr>)) p (xs @ (a, s) # ys)"
  using assms
proof (induction xs arbitrary: p)
  case Nil
  then have "a \<notin> fst ` set ys" using lseg_distinct [OF Nil.prems(1)] by auto
  with Nil show ?case by (force elim!: lseg_cong)
next
  case (Cons x xs)
  obtain b t where x: "x = (b, t)" by (cases x)
  have "b \<noteq> a" using lseg_distinct [OF Cons.prems(1)] by (auto simp: x)
  with Cons show ?case by (auto simp: x)
qed

text \<open>Unlinking and freeing a node: at the head, and behind the node \<open>b\<close>.\<close>

lemma lseg_unlink_head:
  assumes "lseg h p ((a, r) # ys)" and "h a = Some n"
  shows "lseg (h(a := None)) (nnext n) ys"
proof -
  have "a \<notin> fst ` set ys" using lseg_distinct [OF assms(1)] by auto
  with assms show ?thesis by (force elim!: lseg_cong)
qed

lemma lseg_unlink:
  assumes "lseg h p (xs @ (b, s) # (a, r) # ys)" and "h a = Some n" and "h b = Some m"
  shows "lseg ((h(b \<mapsto> m\<lparr>nnext := nnext n\<rparr>))(a := None)) p (xs @ (b, s) # ys)"
  using assms
proof (induction xs arbitrary: p)
  case Nil
  have "a \<notin> fst ` set ys" "b \<notin> fst ` set ys" "a \<noteq> b"
    using lseg_distinct [OF Nil.prems(1)] by auto
  with Nil show ?case by (force elim!: lseg_cong)
next
  case (Cons x xs)
  obtain c t where x: "x = (c, t)" by (cases x)
  have "c \<noteq> a" "c \<noteq> b" using lseg_distinct [OF Cons.prems(1)] by (auto simp: x)
  with Cons show ?case by (auto simp: x)
qed

lemma find_node_lseg:
  "lseg h p xs \<Longrightarrow>
     find_node_by_id h p k key = Some (map_option fst (find (\<lambda>(a, r). key r = k) xs))"
proof (induction xs arbitrary: p)
  case Nil
  then show ?case by (simp add: find_node_by_id.simps)
next
  case (Cons x xs)
  then show ?case by (cases x) (subst find_node_by_id.simps, auto)
qed

lemma free_node_list_lseg:
  "lseg h p xs \<Longrightarrow> free_node_list h p = Some (\<lambda>a. if a \<in> fst ` set xs then None else h a)"
proof (induction xs arbitrary: h p)
  case Nil
  then show ?case by (simp add: free_node_list.simps)
next
  case (Cons x xs)
  obtain a r where x: "x = (a, r)" by (cases x)
  with Cons.prems obtain q where h: "h a = Some \<lparr>ndata = Some r, nnext = q\<rparr>" "lseg h q xs" "p = Some a"
    by auto
  have "a \<notin> fst ` set xs" using lseg_distinct [OF Cons.prems] by (auto simp: x)
  then have "lseg (h(a := None)) q xs" using h by (simp add: lseg_frame)
  from Cons.IH [OF this] have
    "free_node_list (h(a := None)) q = Some (\<lambda>b. if b \<in> fst ` set xs then None else (h(a := None)) b)" .
  moreover have "(\<lambda>b. if b \<in> fst ` set xs then None else (h(a := None)) b)
      = (\<lambda>b. if b \<in> fst ` set (x # xs) then None else h b)"
    by (auto simp: x fun_eq_iff)
  ultimately show ?case using h by (subst free_node_list.simps) (simp del: fun_upd_apply)
qed

section \<open>The list a domain represents\<close>

definition dom_shape ::
  "('r \<Rightarrow> string) \<Rightarrow> allocator \<Rightarrow> 'r reg_domain \<Rightarrow> (nat \<times> 'r) list \<Rightarrow> bool" where
  "dom_shape key al d xs \<longleftrightarrow>
     lseg (dheap d) (dhead d) xs \<and> dom (dheap d) = fst ` set xs
     \<and> distinct (map (key \<circ> snd) xs) \<and> [] \<notin> key ` snd ` set xs
     \<and> (\<forall>a\<in>fst ` set xs. a < tick al) \<and> dcount d = of_nat (length xs)"

text \<open>
  \<open>dom_rep key al d rs\<close>: the domain holds the records \<open>rs\<close> in list order; every allocated node is
  reachable (nothing leaked), ids are distinct and not empty, the counter is the length.
\<close>

definition dom_rep :: "('r \<Rightarrow> string) \<Rightarrow> allocator \<Rightarrow> 'r reg_domain \<Rightarrow> 'r list \<Rightarrow> bool" where
  "dom_rep key al d rs \<longleftrightarrow> (\<exists>xs. dom_shape key al d xs \<and> map snd xs = rs)"

lemma dom_shape_later: "dom_shape key al d xs \<Longrightarrow> tick al \<le> tick al' \<Longrightarrow> dom_shape key al' d xs"
  by (force simp: dom_shape_def)

lemma dom_rep_later: "dom_rep key al d rs \<Longrightarrow> tick al \<le> tick al' \<Longrightarrow> dom_rep key al' d rs"
  using dom_shape_later by (fastforce simp: dom_rep_def)

lemma dom_shape_key_once:
  assumes "dom_shape key al d (us @ (a, r) # vs)"
  shows "key r \<notin> key ` snd ` set vs"
proof -
  have "distinct (map (key \<circ> snd) (us @ (a, r) # vs))"
    using assms by (simp only: dom_shape_def)
  then show ?thesis by (simp add: image_comp)
qed

lemma dom_shape_node:
  assumes "dom_shape key al d (us @ (a, r) # vs)"
  shows "\<exists>q. dheap d a = Some \<lparr>ndata = Some r, nnext = q\<rparr>"
proof -
  have "lseg (dheap d) (dhead d) (us @ (a, r) # vs)"
    using assms by (simp only: dom_shape_def)
  then show ?thesis using lseg_split by fast
qed

lemma dom_shape_find:
  "dom_shape key al d xs \<Longrightarrow>
     find_node_by_id (dheap d) (dhead d) k key = Some (map_option fst (find (\<lambda>(a, r). key r = k) xs))"
  by (simp add: dom_shape_def find_node_lseg)

lemma find_None_key: "find (\<lambda>(a, r). key r = k) xs = None \<longleftrightarrow> k \<notin> key ` snd ` set xs"
  by (force simp: find_None_iff)

lemma find_Some_split:
  "find (\<lambda>(a, r). key r = k) xs = Some (a, r) \<Longrightarrow>
     key r = k \<and> (\<exists>us vs. xs = us @ (a, r) # vs \<and> k \<notin> key ` snd ` set us)"
proof (induction xs)
  case Nil
  then show ?case by simp
next
  case (Cons x xs)
  obtain b s where x: "x = (b, s)" by (cases x)
  show ?case
  proof (cases "key s = k")
    case True
    with Cons.prems have "key r = k \<and> x # xs = [] @ (a, r) # xs" by (auto simp: x)
    then show ?thesis by (metis empty_iff image_empty list.set(1))
  next
    case False
    with Cons obtain us vs where "xs = us @ (a, r) # vs" "k \<notin> key ` snd ` set us" "key r = k"
      by (auto simp: x)
    with False have "key r = k" "x # xs = (x # us) @ (a, r) # vs" "k \<notin> key ` snd ` set (x # us)"
      by (auto simp: x)
    then show ?thesis by blast
  qed
qed

section \<open>The operations against the list\<close>

definition prev_of :: "(nat \<times> 'r) list \<Rightarrow> nat option" where
  "prev_of us = (if us = [] then None else Some (fst (last us)))"

lemma reg_delete_loop_missing:
  assumes "lseg (dheap d) cur ys" and "k \<notin> key ` snd ` set ys"
  shows "reg_delete_loop key k d prev cur = Some None"
  using assms
proof (induction ys arbitrary: prev cur)
  case Nil
  then show ?case by (simp add: reg_delete_loop.simps)
next
  case (Cons y ys)
  then show ?case by (cases y) (subst reg_delete_loop.simps, auto)
qed

lemma reg_delete_loop_found:
  assumes "lseg (dheap d) (dhead d) (us @ vs @ (a, r) # ws)" and "lseg (dheap d) cur (vs @ (a, r) # ws)"
    and "prev = prev_of us" and "key r = k" and "k \<notin> key ` snd ` set vs"
  shows "\<exists>d'. reg_delete_loop key k d prev cur = Some (Some d')
    \<and> lseg (dheap d') (dhead d') (us @ vs @ ws) \<and> dom (dheap d') = dom (dheap d) - {a}
    \<and> dcount d' = dcount d - 1"
  using assms
proof (induction vs arbitrary: us prev cur)
  case Nil
  then obtain q where h: "dheap d a = Some \<lparr>ndata = Some r, nnext = q\<rparr>" and cur: "cur = Some a"
    by auto
  show ?case
  proof (cases us rule: rev_cases)
    case us: Nil
    have "lseg ((dheap d)(a := None)) q ws"
      using lseg_unlink_head [of "dheap d" "dhead d" a r ws, OF _ h] Nil.prems(1) us by simp
    then show ?thesis
      using Nil.prems(3,4) h cur us
      by (subst reg_delete_loop.simps) (auto simp: prev_of_def)
  next
    case (snoc us' x)
    obtain b s where x: "x = (b, s)" by (cases x)
    have seg: "lseg (dheap d) (dhead d) (us' @ (b, s) # (a, r) # ws)"
      using Nil.prems(1) by (simp add: snoc x)
    then obtain q' where hb: "dheap d b = Some \<lparr>ndata = Some s, nnext = q'\<rparr>"
      using lseg_split by fast
    have "b \<noteq> a" using lseg_distinct [OF seg] by auto
    moreover have "lseg ((dheap d)(b \<mapsto> \<lparr>ndata = Some s, nnext = q\<rparr>, a := None)) (dhead d) (us' @ (b, s) # ws)"
      using lseg_unlink [OF seg h hb] by simp
    ultimately show ?thesis
      using Nil.prems(3,4) h hb cur
      by (subst reg_delete_loop.simps) (auto simp: prev_of_def snoc x simp del: lseg.simps)
  qed
next
  case (Cons v vs)
  obtain b s where v: "v = (b, s)" by (cases v)
  obtain q where h: "dheap d b = Some \<lparr>ndata = Some s, nnext = q\<rparr>" and cur: "cur = Some b"
    and q: "lseg (dheap d) q (vs @ (a, r) # ws)"
    using Cons.prems(2) by (auto simp: v)
  have "key s \<noteq> k" using Cons.prems(5) by (auto simp: v)
  moreover have "\<exists>d'. reg_delete_loop key k d (Some b) q = Some (Some d')
    \<and> lseg (dheap d') (dhead d') ((us @ [v]) @ vs @ ws) \<and> dom (dheap d') = dom (dheap d) - {a}
    \<and> dcount d' = dcount d - 1"
    using Cons.prems q by (intro Cons.IH) (auto simp: v prev_of_def)
  ultimately show ?case
    using h cur by (subst reg_delete_loop.simps) (simp add: v)
qed

text \<open>The calls on one domain that change it, and what they do to the represented list.\<close>

datatype 'r reg_call = RAdd "'r option" | RUpdate "'r option" | RDelete "string option"

fun reg_exec ::
  "('r \<Rightarrow> string) \<Rightarrow> bool \<Rightarrow> 'r reg_call \<Rightarrow> allocator \<times> 'r reg_domain
     \<Rightarrow> (hs_error \<times> allocator \<times> 'r reg_domain) option" where
  "reg_exec key ini (RAdd r) s = reg_add key ini r s"
| "reg_exec key ini (RUpdate r) (al, d) = map_option (\<lambda>(e, d'). (e, al, d')) (reg_update key ini r d)"
| "reg_exec key ini (RDelete k) (al, d) = map_option (\<lambda>(e, d'). (e, al, d')) (reg_delete key ini k d)"

fun reg_abs ::
  "('r \<Rightarrow> string) \<Rightarrow> bool \<Rightarrow> bool \<Rightarrow> 'r reg_call \<Rightarrow> 'r list \<Rightarrow> hs_error \<times> 'r list" where
  "reg_abs key ini mem_ok (RAdd None) rs = (ERR_INVALID_PARAM, rs)"
| "reg_abs key ini mem_ok (RAdd (Some r)) rs =
     (if key r = [] then (ERR_INVALID_PARAM, rs)
      else if \<not> ini then (ERR_NOT_INITIALIZED, rs)
      else if key r \<in> key ` set rs then (ERR_ALREADY_INITIALIZED, rs)
      else if \<not> mem_ok then (ERR_OUT_OF_MEMORY, rs)
      else (SUCCESS, r # rs))"
| "reg_abs key ini mem_ok (RUpdate None) rs = (ERR_INVALID_PARAM, rs)"
| "reg_abs key ini mem_ok (RUpdate (Some r)) rs =
     (if key r = [] then (ERR_INVALID_PARAM, rs)
      else if \<not> ini then (ERR_NOT_INITIALIZED, rs)
      else if key r \<notin> key ` set rs then (ERR_NOT_FOUND, rs)
      else (SUCCESS, map (\<lambda>x. if key x = key r then r else x) rs))"
| "reg_abs key ini mem_ok (RDelete None) rs = (ERR_INVALID_PARAM, rs)"
| "reg_abs key ini mem_ok (RDelete (Some k)) rs =
     (if \<not> ini then (ERR_NOT_INITIALIZED, rs)
      else if k \<notin> key ` set rs then (ERR_NOT_FOUND, rs)
      else (SUCCESS, filter (\<lambda>x. key x \<noteq> k) rs))"

text \<open>Both requests that one reg_add makes are granted.\<close>

definition memory_granted :: "allocator \<Rightarrow> bool" where
  "memory_granted al \<longleftrightarrow> \<not> fails al (tick al) \<and> \<not> fails al (Suc (tick al))"

lemma dom_rep_find_missing:
  assumes "dom_rep key al d rs" and "k \<notin> key ` set rs"
  shows "find_node_by_id (dheap d) (dhead d) k key = Some None"
proof -
  obtain xs where "dom_shape key al d xs" and "rs = map snd xs"
    using assms(1) by (auto simp: dom_rep_def)
  then show ?thesis
    using dom_shape_find [of key al d xs k] find_None_key [of key k xs] assms(2) by (simp add: image_comp)
qed

lemma dom_rep_find_present:
  assumes "dom_rep key al d rs" and "k \<in> key ` set rs"
  shows "\<exists>a. find_node_by_id (dheap d) (dhead d) k key = Some (Some a)"
proof -
  obtain xs where xs: "dom_shape key al d xs" and "rs = map snd xs"
    using assms(1) by (auto simp: dom_rep_def)
  then have "find (\<lambda>(a, r). key r = k) xs \<noteq> None"
    using find_None_key [of key k xs] assms(2) by (simp add: image_comp)
  then show ?thesis using dom_shape_find [OF xs, of k] by auto
qed

lemma dom_rep_delete_missing:
  assumes "dom_rep key al d rs" and "k \<notin> key ` set rs"
  shows "reg_delete_loop key k d None (dhead d) = Some None"
proof -
  obtain xs where "dom_shape key al d xs" and "rs = map snd xs"
    using assms(1) by (auto simp: dom_rep_def)
  then show ?thesis
    using assms(2) by (intro reg_delete_loop_missing [of _ _ xs]) (auto simp: dom_shape_def image_comp)
qed

lemma reg_add_rep:
  assumes "dom_rep key al d rs"
  shows "\<exists>e al' d'. reg_add key ini r (al, d) = Some (e, al', d') \<and> tick al \<le> tick al'
    \<and> (e, snd (reg_abs key ini (memory_granted al) (RAdd r) rs)) = reg_abs key ini (memory_granted al) (RAdd r) rs
    \<and> dom_rep key al' d' (snd (reg_abs key ini (memory_granted al) (RAdd r) rs))"
proof -
  obtain xs where xs: "dom_shape key al d xs" and rs: "rs = map snd xs"
    using assms by (auto simp: dom_rep_def)
  show ?thesis
  proof (cases "\<exists>x. r = Some x \<and> key x \<noteq> [] \<and> ini \<and> key x \<notin> key ` set rs")
    case True
    then obtain x where x: "r = Some x" "key x \<noteq> []" ini "key x \<notin> key ` set rs" by blast
    then have find: "find_node_by_id (dheap d) (dhead d) (key x) key = Some None"
      using dom_shape_find [OF xs, of "key x"] find_None_key [of key "key x" xs] by (auto simp: rs)
    have fresh: "tick al \<notin> fst ` set xs" using xs by (auto simp: dom_shape_def)
    let ?d = "d\<lparr>dheap := (dheap d)(tick al \<mapsto> \<lparr>ndata = Some x, nnext = dhead d\<rparr>),
                dhead := Some (tick al), dcount := dcount d + 1\<rparr>"
    have "dom_shape key (al\<lparr>tick := Suc (Suc (tick al))\<rparr>) ?d ((tick al, x) # xs)"
      using xs fresh x by (auto simp: dom_shape_def rs lseg_frame less_Suc_eq image_comp)
    then have "dom_rep key (al\<lparr>tick := Suc (Suc (tick al))\<rparr>) ?d (x # rs)"
      by (fastforce simp: dom_rep_def rs)
    moreover have "dom_rep key (al\<lparr>tick := t\<rparr>) d rs" if "tick al \<le> t" for t
      using assms that by (simp add: dom_rep_later)
    ultimately show ?thesis
      using x find by (simp add: reg_add_def airy_alloc_def memory_granted_def)
  next
    case False
    show ?thesis
    proof (cases r)
      case None
      with assms show ?thesis by (simp add: reg_add_def)
    next
      case (Some x)
      consider "key x = []" | "key x \<noteq> []" "\<not> ini" | "key x \<noteq> []" ini "key x \<in> key ` set rs"
        using False Some by blast
      then show ?thesis
      proof cases
        case 3
        with dom_rep_find_present [OF assms 3(3)] obtain a where
          "find_node_by_id (dheap d) (dhead d) (key x) key = Some (Some a)" by blast
        with 3 assms show ?thesis by (simp add: reg_add_def Some)
      qed (use assms in \<open>simp_all add: reg_add_def Some\<close>)
    qed
  qed
qed

lemma reg_update_rep:
  assumes "dom_rep key al d rs"
  shows "\<exists>e d'. reg_update key ini r d = Some (e, d')
    \<and> (e, snd (reg_abs key ini ok (RUpdate r) rs)) = reg_abs key ini ok (RUpdate r) rs
    \<and> dom_rep key al d' (snd (reg_abs key ini ok (RUpdate r) rs))"
proof -
  obtain xs where xs: "dom_shape key al d xs" and rs: "rs = map snd xs"
    using assms by (auto simp: dom_rep_def)
  show ?thesis
  proof (cases "\<exists>x. r = Some x \<and> key x \<noteq> [] \<and> ini \<and> key x \<in> key ` set rs")
    case True
    then obtain x where x: "r = Some x" "key x \<noteq> []" ini "key x \<in> key ` set rs" by blast
    then have "find (\<lambda>(a, r). key r = key x) xs \<noteq> None"
      using find_None_key [of key "key x" xs] by (auto simp: rs)
    then obtain a s where find: "find (\<lambda>(a, r). key r = key x) xs = Some (a, s)" by auto
    then obtain us vs where split: "key s = key x" "xs = us @ (a, s) # vs" "key x \<notin> key ` snd ` set us"
      using find_Some_split by fast
    have seg: "lseg (dheap d) (dhead d) (us @ (a, s) # vs)"
      using xs by (simp add: dom_shape_def split)
    then obtain q where h: "dheap d a = Some \<lparr>ndata = Some s, nnext = q\<rparr>"
      using lseg_split by fast
    let ?d = "d\<lparr>dheap := (dheap d)(a \<mapsto> \<lparr>ndata = Some x, nnext = q\<rparr>)\<rparr>"
    have "lseg (dheap ?d) (dhead ?d) (us @ (a, x) # vs)"
      using lseg_write [OF seg h] by simp
    then have "dom_shape key al ?d (us @ (a, x) # vs)"
      using xs split h by (auto simp: dom_shape_def)
    moreover have "map snd (us @ (a, x) # vs) = map (\<lambda>y. if key y = key x then x else y) rs"
    proof -
      have "key x \<notin> key ` snd ` set vs"
        using dom_shape_key_once [of key al d us a s vs] xs split(1,2) by simp
      with split show ?thesis by (simp add: rs image_image image_iff) metis
    qed
    ultimately have "dom_rep key al ?d (map (\<lambda>y. if key y = key x then x else y) rs)"
      by (auto simp: dom_rep_def)
    moreover have "find_node_by_id (dheap d) (dhead d) (key x) key = Some (Some a)"
      using dom_shape_find [OF xs, of "key x"] find by simp
    ultimately show ?thesis
      using x h by (simp add: reg_update_def)
  next
    case False
    show ?thesis
    proof (cases r)
      case None
      with assms show ?thesis by (simp add: reg_update_def)
    next
      case (Some x)
      consider "key x = []" | "key x \<noteq> []" "\<not> ini" | "key x \<noteq> []" ini "key x \<notin> key ` set rs"
        using False Some by blast
      then show ?thesis
        by cases (use assms dom_rep_find_missing [OF assms] in \<open>simp_all add: reg_update_def Some\<close>)
    qed
  qed
qed

lemma reg_delete_rep:
  assumes "dom_rep key al d rs"
  shows "\<exists>e d'. reg_delete key ini k d = Some (e, d')
    \<and> (e, snd (reg_abs key ini ok (RDelete k) rs)) = reg_abs key ini ok (RDelete k) rs
    \<and> dom_rep key al d' (snd (reg_abs key ini ok (RDelete k) rs))"
proof -
  obtain xs where xs: "dom_shape key al d xs" and rs: "rs = map snd xs"
    using assms by (auto simp: dom_rep_def)
  show ?thesis
  proof (cases "\<exists>i. k = Some i \<and> ini \<and> i \<in> key ` set rs")
    case True
    then obtain i where i: "k = Some i" ini "i \<in> key ` set rs" by blast
    then have "find (\<lambda>(a, r). key r = i) xs \<noteq> None"
      using find_None_key [of key i xs] by (auto simp: rs)
    then obtain a s where "find (\<lambda>(a, r). key r = i) xs = Some (a, s)" by auto
    then obtain us vs where split: "key s = i" "xs = us @ (a, s) # vs" "i \<notin> key ` snd ` set us"
      using find_Some_split by fast
    have seg: "lseg (dheap d) (dhead d) ([] @ us @ (a, s) # vs)"
      using xs by (simp add: dom_shape_def split)
    obtain d' where d': "reg_delete_loop key i d None (dhead d) = Some (Some d')"
      "lseg (dheap d') (dhead d') (us @ vs)" "dom (dheap d') = dom (dheap d) - {a}"
      "dcount d' = dcount d - 1"
      using reg_delete_loop_found [OF seg, of "dhead d" None key i] seg split
      by (auto simp: prev_of_def)
    have "a \<notin> fst ` set us" "a \<notin> fst ` set vs"
      using lseg_distinct [OF seg] by auto
    then have "dom (dheap d') = fst ` set (us @ vs)"
      using xs d'(3) by (auto simp: dom_shape_def split)
    then have "dom_shape key al d' (us @ vs)"
      using xs d' by (auto simp: dom_shape_def split)
    moreover have "map snd (us @ vs) = filter (\<lambda>x. key x \<noteq> i) rs"
    proof -
      have "i \<notin> key ` snd ` set vs"
        using dom_shape_key_once [of key al d us a s vs] xs split(1,2) by simp
      then have "filter (\<lambda>x. key x \<noteq> i) (map snd vs) = map snd vs"
        by (auto simp: filter_id_conv)
      moreover have "filter (\<lambda>x. key x \<noteq> i) (map snd us) = map snd us"
        using split(3) by (auto simp: filter_id_conv)
      ultimately show ?thesis using split(1,2) by (simp add: rs)
    qed
    ultimately have "dom_rep key al d' (filter (\<lambda>x. key x \<noteq> i) rs)"
      by (auto simp: dom_rep_def)
    with i d'(1) show ?thesis by (simp add: reg_delete_def)
  next
    case False
    show ?thesis
    proof (cases k)
      case None
      with assms show ?thesis by (simp add: reg_delete_def)
    next
      case (Some i)
      consider "\<not> ini" | ini "i \<notin> key ` set rs" using False Some by blast
      then show ?thesis
        by cases (use assms dom_rep_delete_missing [OF assms] in \<open>simp_all add: reg_delete_def Some\<close>)
    qed
  qed
qed

lemma reg_get_rep:
  assumes "dom_rep key al d rs"
  shows "reg_get key True (Some k) True d =
    Some (case table_map key rs k of Some r \<Rightarrow> (SUCCESS, Some r) | None \<Rightarrow> (ERR_NOT_FOUND, None))"
proof -
  obtain xs where xs: "dom_shape key al d xs" and rs: "rs = map snd xs"
    using assms by (auto simp: dom_rep_def)
  show ?thesis
  proof (cases "find (\<lambda>(a, r). key r = k) xs")
    case None
    then have "table_map key rs k = None"
      using find_None_key [of key k xs] by (simp add: table_map_None rs image_comp)
    with None show ?thesis
      using dom_shape_find [OF xs, of k] by (simp add: reg_get_def)
  next
    case (Some p)
    obtain a s where p: "p = (a, s)" by (cases p)
    from Some obtain us vs where split: "key s = k" "xs = us @ (a, s) # vs" "k \<notin> key ` snd ` set us"
      using find_Some_split unfolding p by fast
    have "table_map key (map snd us @ s # zs) k = Some s" for zs
      using split(1,3) by (induction us) auto
    then have tm: "table_map key rs k = Some s" by (simp add: rs split(2))
    obtain q where "dheap d a = Some \<lparr>ndata = Some s, nnext = q\<rparr>"
      using dom_shape_node [of key al d us a s vs] xs split(2) by auto
    then show ?thesis
      using dom_shape_find [OF xs, of k] Some tm by (simp add: reg_get_def p)
  qed
qed

section \<open>The registry as a store\<close>

definition registry_inv :: "allocator \<times> registry \<Rightarrow> bool" where
  "registry_inv = (\<lambda>(al, g).
     (\<exists>as. dom_rep agent_id al (agents g) as) \<and> (\<exists>ks. dom_rep skill_id al (skills g) ks)
     \<and> (\<exists>ss. dom_rep session_id al (sessions g) ss))"

definition domain_lookup ::
  "('r \<Rightarrow> string) \<Rightarrow> bool \<Rightarrow> 'r reg_domain \<Rightarrow> string \<Rightarrow> 'r option" where
  "domain_lookup key ini d k = (case reg_get key ini (Some k) True d of Some (e, r) \<Rightarrow> r | None \<Rightarrow> None)"

lemma domain_lookup_rep:
  assumes "dom_rep key al d rs"
  shows "domain_lookup key ini d = (if ini then table_map key rs else Map.empty)"
proof
  fix k
  show "domain_lookup key ini d k = (if ini then table_map key rs else Map.empty) k"
  proof (cases ini)
    case True
    with reg_get_rep [OF assms, of k] show ?thesis
      by (cases "table_map key rs k") (simp_all add: domain_lookup_def)
  next
    case False
    then show ?thesis by (simp add: domain_lookup_def reg_get_def)
  qed
qed

text \<open>What reg_add does to the finite map a domain represents.\<close>

lemma reg_add_lookup:
  assumes "dom_rep key al d rs"
  shows "\<exists>e al' d'. reg_add key ini (Some r) (al, d) = Some (e, al', d') \<and> tick al \<le> tick al'
    \<and> (\<exists>rs'. dom_rep key al' d' rs')
    \<and> domain_lookup key ini d' = (if e = SUCCESS then (domain_lookup key ini d)(key r \<mapsto> r)
                                   else domain_lookup key ini d)
    \<and> (domain_lookup key ini d (key r) \<noteq> None \<longrightarrow> e \<noteq> SUCCESS)"
proof -
  let ?abs = "reg_abs key ini (memory_granted al) (RAdd (Some r)) rs"
  obtain e al' d' where run: "reg_add key ini (Some r) (al, d) = Some (e, al', d')"
    and t: "tick al \<le> tick al'" and e: "(e, snd ?abs) = ?abs" and rep: "dom_rep key al' d' (snd ?abs)"
    using reg_add_rep [OF assms, of ini "Some r"] by blast
  have "domain_lookup key ini d' = (if e = SUCCESS then (domain_lookup key ini d)(key r \<mapsto> r)
          else domain_lookup key ini d)
      \<and> (domain_lookup key ini d (key r) \<noteq> None \<longrightarrow> e \<noteq> SUCCESS)"
    using e rep unfolding domain_lookup_rep [OF assms] domain_lookup_rep [OF rep]
    by (auto split: if_splits simp: table_map_None)
  with run t rep show ?thesis by blast
qed

definition session_lookup :: "allocator \<times> registry \<Rightarrow> string \<Rightarrow> session_record option" where
  "session_lookup = (\<lambda>(al, g). domain_lookup session_id (reg_initialized g) (sessions g))"

definition agent_lookup :: "allocator \<times> registry \<Rightarrow> string \<Rightarrow> agent_record option" where
  "agent_lookup = (\<lambda>(al, g). domain_lookup agent_id (reg_initialized g) (agents g))"

definition skill_lookup :: "allocator \<times> registry \<Rightarrow> string \<Rightarrow> skill_record option" where
  "skill_lookup = (\<lambda>(al, g). domain_lookup skill_id (reg_initialized g) (skills g))"

lemma add_session_contract:
  assumes "registry_inv s"
  shows "\<exists>e s'. heapstore_registry_add_session (Some r) s = Some (e, s')
    \<and> stores session_id session_lookup registry_inv r s e s'
    \<and> (session_lookup s (session_id r) \<noteq> None \<longrightarrow> e \<noteq> SUCCESS)"
proof (cases s)
  case (Pair al g)
  then obtain rs where "dom_rep session_id al (sessions g) rs"
    using assms by (auto simp: registry_inv_def)
  from reg_add_lookup [OF this, of "reg_initialized g" r] obtain e al' d' where
    run: "reg_add session_id (reg_initialized g) (Some r) (al, sessions g) = Some (e, al', d')"
    and later: "tick al \<le> tick al'" "\<exists>rs'. dom_rep session_id al' d' rs'"
    and look: "domain_lookup session_id (reg_initialized g) d' =
        (if e = SUCCESS then (domain_lookup session_id (reg_initialized g) (sessions g))(session_id r \<mapsto> r)
         else domain_lookup session_id (reg_initialized g) (sessions g))"
    and dup: "domain_lookup session_id (reg_initialized g) (sessions g) (session_id r) \<noteq> None \<longrightarrow> e \<noteq> SUCCESS"
    by blast
  have "registry_inv (al', g\<lparr>sessions := d'\<rparr>)"
    using assms later Pair by (auto simp: registry_inv_def intro: dom_rep_later)
  with look dup run Pair show ?thesis
    by (intro exI [of _ e] exI [of _ "(al', g\<lparr>sessions := d'\<rparr>)"])
      (simp add: stores_def session_lookup_def heapstore_registry_add_session_def)
qed

interpretation session_store: strict_store session_id session_lookup
  "\<lambda>r s. heapstore_registry_add_session (Some r) s" registry_inv
  by (rule strict_storeI) (rule add_session_contract)

lemma table_map_filter: "table_map key (filter (\<lambda>x. key x \<noteq> k) rs) = (table_map key rs)(k := None)"
  by (induction rs) (auto simp: fun_eq_iff)

lemma delete_session_contract:
  assumes "registry_inv (al, g)"
  shows "\<exists>e g'. heapstore_registry_delete_session (Some k) g = Some (e, g') \<and> registry_inv (al, g')
    \<and> (e = SUCCESS \<longrightarrow> session_lookup (al, g') = (session_lookup (al, g))(k := None))
    \<and> (e \<noteq> SUCCESS \<longrightarrow> session_lookup (al, g') = session_lookup (al, g))
    \<and> (session_lookup (al, g) k \<noteq> None \<longleftrightarrow> e = SUCCESS)"
proof -
  obtain rs where rep: "dom_rep session_id al (sessions g) rs" using assms by (auto simp: registry_inv_def)
  from reg_delete_rep [OF rep, of "reg_initialized g" "Some k"] obtain e d' where
    run: "reg_delete session_id (reg_initialized g) (Some k) (sessions g) = Some (e, d')"
    and e: "(e, snd (reg_abs session_id (reg_initialized g) True (RDelete (Some k)) rs))
        = reg_abs session_id (reg_initialized g) True (RDelete (Some k)) rs"
    and rep': "dom_rep session_id al d' (snd (reg_abs session_id (reg_initialized g) True (RDelete (Some k)) rs))"
    by blast
  have inv: "registry_inv (al, g\<lparr>sessions := d'\<rparr>)"
    using assms rep' by (auto simp: registry_inv_def)
  have look: "session_lookup (al, g) = (if reg_initialized g then table_map session_id rs else Map.empty)"
    using domain_lookup_rep [OF rep] by (simp add: session_lookup_def)
  have look': "session_lookup (al, g\<lparr>sessions := d'\<rparr>) = (if reg_initialized g
      then table_map session_id (snd (reg_abs session_id (reg_initialized g) True (RDelete (Some k)) rs)) else Map.empty)"
    using domain_lookup_rep [OF rep'] by (simp add: session_lookup_def)
  have del: "heapstore_registry_delete_session (Some k) g = Some (e, g\<lparr>sessions := d'\<rparr>)"
    using run by (simp add: heapstore_registry_delete_session_def)
  show ?thesis
  proof (intro exI conjI)
    show "heapstore_registry_delete_session (Some k) g = Some (e, g\<lparr>sessions := d'\<rparr>)" by (rule del)
    show "registry_inv (al, g\<lparr>sessions := d'\<rparr>)" by (rule inv)
    have "session_lookup (al, g) k = None \<longleftrightarrow> \<not> reg_initialized g \<or> k \<notin> session_id ` set rs"
      using look by (simp add: table_map_None)
    then show "session_lookup (al, g) k \<noteq> None \<longleftrightarrow> e = SUCCESS" using e by (auto split: if_splits)
  qed (use e look look' in \<open>auto split: if_splits simp: table_map_filter table_map_None\<close>)
qed

interpretation session_erasable: erasable_store session_id session_lookup
  "\<lambda>r s. heapstore_registry_add_session (Some r) s" registry_inv
  "\<lambda>k (al, g). map_option (\<lambda>(e, g'). (e, al, g')) (heapstore_registry_delete_session (Some k) g)"
proof unfold_locales
  fix s :: "allocator \<times> registry" and k
  obtain al g where s: "s = (al, g)" by (cases s)
  assume "registry_inv s"
  then have inv: "registry_inv (al, g)" by (simp add: s)
  note contract = delete_session_contract [OF inv, of k]
  let ?del = "\<lambda>k (al, g). map_option (\<lambda>(e, g'). (e, al, g')) (heapstore_registry_delete_session (Some k) g)"
  show "\<exists>e s'. ?del k s = Some (e, s')" using contract by (auto simp: s)
  show "registry_inv s'" if "?del k s = Some (e, s')" for e s' using contract that by (auto simp: s)
  show "session_lookup s' = (session_lookup s)(k := None)" if "?del k s = Some (SUCCESS, s')" for s'
    using contract that by (auto simp: s)
  show "session_lookup s' = session_lookup s" if "?del k s = Some (e, s')" "e \<noteq> SUCCESS" for e s'
    using contract that by (auto simp: s)
qed

text \<open>An initialised registry whose further memory requests are all granted.\<close>

definition registry_accepting :: "allocator \<times> registry \<Rightarrow> bool" where
  "registry_accepting = (\<lambda>(al, g). reg_initialized g \<and> (\<forall>t\<ge>tick al. \<not> fails al t))"

lemma reg_add_fails:
  assumes "reg_add key ini r (al, d) = Some (e, al', d')"
  shows "fails al' = fails al"
  using assms
  by (auto simp: reg_add_def airy_alloc_def split: option.splits if_splits prod.splits)

lemma add_session_accepting:
  assumes inv: "registry_inv (al, g)" and acc: "registry_accepting (al, g)" and id: "session_id r \<noteq> []"
    and new: "session_lookup (al, g) (session_id r) = None"
    and run: "heapstore_registry_add_session (Some r) (al, g) = Some (e, s')"
  shows "e = SUCCESS"
proof -
  obtain rs where rep: "dom_rep session_id al (sessions g) rs"
    using inv by (auto simp: registry_inv_def)
  have "session_id r \<notin> session_id ` set rs" "memory_granted al" "reg_initialized g"
    using acc new domain_lookup_rep [OF rep, of True]
    by (auto simp: registry_accepting_def session_lookup_def memory_granted_def table_map_None)
  with reg_add_rep [OF rep, of "reg_initialized g" "Some r"] run id show ?thesis
    by (auto simp: heapstore_registry_add_session_def)
qed

lemma add_session_keeps_accepting:
  assumes "registry_inv (al, g)" "registry_accepting (al, g)"
    and run: "heapstore_registry_add_session (Some r) (al, g) = Some (e, s')"
  shows "registry_accepting s'"
proof -
  obtain rs where rep: "dom_rep session_id al (sessions g) rs"
    using assms(1) by (auto simp: registry_inv_def)
  obtain al' d' where s: "s' = (al', g\<lparr>sessions := d'\<rparr>)"
    "reg_add session_id (reg_initialized g) (Some r) (al, sessions g) = Some (e, al', d')"
    using run by (auto simp: heapstore_registry_add_session_def split: option.splits)
  have "tick al \<le> tick al'"
    using reg_add_rep [OF rep, of "reg_initialized g" "Some r"] s(2) by auto
  with reg_add_fails [OF s(2)] assms(2) s(1) show ?thesis
    by (auto simp: registry_accepting_def)
qed

interpretation session_open: open_store session_id session_lookup
  "\<lambda>r s. heapstore_registry_add_session (Some r) s" registry_inv registry_accepting
  by unfold_locales (auto intro: add_session_accepting add_session_keeps_accepting)

lemma add_agent_contract:
  assumes "registry_inv s"
  shows "\<exists>e s'. heapstore_registry_add_agent (Some r) s = Some (e, s')
    \<and> stores agent_id agent_lookup registry_inv r s e s'
    \<and> (agent_lookup s (agent_id r) \<noteq> None \<longrightarrow> e \<noteq> SUCCESS)"
proof (cases s)
  case (Pair al g)
  then obtain rs where "dom_rep agent_id al (agents g) rs"
    using assms by (auto simp: registry_inv_def)
  from reg_add_lookup [OF this, of "reg_initialized g" r] obtain e al' d' where
    run: "reg_add agent_id (reg_initialized g) (Some r) (al, agents g) = Some (e, al', d')"
    and later: "tick al \<le> tick al'" "\<exists>rs'. dom_rep agent_id al' d' rs'"
    and look: "domain_lookup agent_id (reg_initialized g) d' =
        (if e = SUCCESS then (domain_lookup agent_id (reg_initialized g) (agents g))(agent_id r \<mapsto> r)
         else domain_lookup agent_id (reg_initialized g) (agents g))"
    and dup: "domain_lookup agent_id (reg_initialized g) (agents g) (agent_id r) \<noteq> None \<longrightarrow> e \<noteq> SUCCESS"
    by blast
  have "registry_inv (al', g\<lparr>agents := d'\<rparr>)"
    using assms later Pair by (auto simp: registry_inv_def intro: dom_rep_later)
  with look dup run Pair show ?thesis
    by (intro exI [of _ e] exI [of _ "(al', g\<lparr>agents := d'\<rparr>)"])
      (simp add: stores_def agent_lookup_def heapstore_registry_add_agent_def)
qed

interpretation agent_store: strict_store agent_id agent_lookup
  "\<lambda>r s. heapstore_registry_add_agent (Some r) s" registry_inv
  by (rule strict_storeI) (rule add_agent_contract)

lemma add_skill_contract:
  assumes "registry_inv s"
  shows "\<exists>e s'. heapstore_registry_add_skill (Some r) s = Some (e, s')
    \<and> stores skill_id skill_lookup registry_inv r s e s'
    \<and> (skill_lookup s (skill_id r) \<noteq> None \<longrightarrow> e \<noteq> SUCCESS)"
proof (cases s)
  case (Pair al g)
  then obtain rs where "dom_rep skill_id al (skills g) rs"
    using assms by (auto simp: registry_inv_def)
  from reg_add_lookup [OF this, of "reg_initialized g" r] obtain e al' d' where
    run: "reg_add skill_id (reg_initialized g) (Some r) (al, skills g) = Some (e, al', d')"
    and later: "tick al \<le> tick al'" "\<exists>rs'. dom_rep skill_id al' d' rs'"
    and look: "domain_lookup skill_id (reg_initialized g) d' =
        (if e = SUCCESS then (domain_lookup skill_id (reg_initialized g) (skills g))(skill_id r \<mapsto> r)
         else domain_lookup skill_id (reg_initialized g) (skills g))"
    and dup: "domain_lookup skill_id (reg_initialized g) (skills g) (skill_id r) \<noteq> None \<longrightarrow> e \<noteq> SUCCESS"
    by blast
  have "registry_inv (al', g\<lparr>skills := d'\<rparr>)"
    using assms later Pair by (auto simp: registry_inv_def intro: dom_rep_later)
  with look dup run Pair show ?thesis
    by (intro exI [of _ e] exI [of _ "(al', g\<lparr>skills := d'\<rparr>)"])
      (simp add: stores_def skill_lookup_def heapstore_registry_add_skill_def)
qed

interpretation skill_store: strict_store skill_id skill_lookup
  "\<lambda>r s. heapstore_registry_add_skill (Some r) s" registry_inv
  by (rule strict_storeI) (rule add_skill_contract)

section \<open>Life cycle\<close>

text \<open>Weaker than \<open>registry_inv\<close>: the lists are sound, but there may be leaked nodes beside them.\<close>

definition registry_safe :: "registry \<Rightarrow> bool" where
  "registry_safe g \<longleftrightarrow>
     (\<exists>xs. lseg (dheap (agents g)) (dhead (agents g)) xs)
     \<and> (\<exists>xs. lseg (dheap (skills g)) (dhead (skills g)) xs)
     \<and> (\<exists>xs. lseg (dheap (sessions g)) (dhead (sessions g)) xs)"

lemma registry_init_safe: "registry_safe (snd (heapstore_registry_init g))"
  by (auto simp: registry_safe_def heapstore_registry_init_def clear_domain_def intro!: exI [of _ "[]"])

lemma registry_shutdown_safe:
  assumes "registry_safe g"
  shows "\<exists>g'. heapstore_registry_shutdown g = Some g' \<and> registry_safe g' \<and> \<not> heapstore_registry_is_healthy g'"
proof -
  from assms obtain xa xk xs where
    "lseg (dheap (agents g)) (dhead (agents g)) xa" "lseg (dheap (skills g)) (dhead (skills g)) xk"
    "lseg (dheap (sessions g)) (dhead (sessions g)) xs"
    by (auto simp: registry_safe_def)
  then show ?thesis
    by (auto simp: heapstore_registry_shutdown_def free_node_list_lseg registry_safe_def
        heapstore_registry_is_healthy_def intro!: exI [of _ "[]"])
qed

interpretation registry_life: guarded_lifecycle heapstore_registry_init heapstore_registry_shutdown
  heapstore_registry_is_healthy registry_safe
proof unfold_locales
  fix g assume safe: "registry_safe g"
  show "registry_safe (snd (heapstore_registry_init g))" by (rule registry_init_safe)
  show "heapstore_registry_is_healthy (snd (heapstore_registry_init g))"
    by (simp add: heapstore_registry_init_def heapstore_registry_is_healthy_def)
  show "\<not> heapstore_registry_is_healthy (snd (heapstore_registry_init g))"
    if "fst (heapstore_registry_init g) \<noteq> SUCCESS"
    using that by (simp add: heapstore_registry_init_def)
  show "\<exists>g'. heapstore_registry_shutdown g = Some g' \<and> registry_safe g' \<and> \<not> heapstore_registry_is_healthy g'"
    by (rule registry_shutdown_safe [OF safe])
qed

lemma dom_rep_lseg: "dom_rep key al d rs \<Longrightarrow>
    \<exists>xs. lseg (dheap d) (dhead d) xs \<and> dom (dheap d) = fst ` set xs \<and> map snd xs = rs"
  by (auto simp: dom_rep_def dom_shape_def)

lemma registry_inv_safe: "registry_inv (al, g) \<Longrightarrow> registry_safe g"
  by (auto simp: registry_inv_def registry_safe_def dest!: dom_rep_lseg)

lemma reg_exec_rep:
  assumes "dom_rep key al d rs"
  shows "\<exists>al' d'. reg_exec key ini c (al, d) = Some (fst (reg_abs key ini (memory_granted al) c rs), al', d')
    \<and> dom_rep key al' d' (snd (reg_abs key ini (memory_granted al) c rs))"
proof (cases c)
  case (RAdd r)
  with reg_add_rep [OF assms, of ini r] show ?thesis by (metis fst_conv reg_exec.simps(1))
next
  case (RUpdate r)
  with reg_update_rep [OF assms, of ini r "memory_granted al"] show ?thesis
    by (auto simp: prod_eq_iff)
next
  case (RDelete k)
  with reg_delete_rep [OF assms, of ini k "memory_granted al"] show ?thesis
    by (auto simp: prod_eq_iff)
qed

section \<open>Properties\<close>

text \<open>
  C3. Refinement: on a domain that represents the list \<open>rs\<close>, every call (add, update, delete, with
  any arguments, initialised or not, with or without memory) answers, returns the error code of the
  list specification \<open>reg_abs\<close>, and leaves a domain that represents the specified list. So the
  pointer manipulation implements: add puts the new record first, update replaces the record of
  the id, delete removes it, and every refused call changes nothing.
\<close>

theorem registry_refines_list:
  assumes "dom_rep key al d rs"
  shows "\<exists>al' d'. reg_exec key ini c (al, d) = Some (fst (reg_abs key ini (memory_granted al) c rs), al', d')
    \<and> dom_rep key al' d' (snd (reg_abs key ini (memory_granted al) c rs))"
  by (rule reg_exec_rep [OF assms])

definition empty_domain :: "'r reg_domain" where
  "empty_domain = \<lparr>dhead = None, dcount = 0, dheap = Map.empty\<rparr>"

lemma dom_rep_empty: "dom_rep key al empty_domain []"
  by (simp add: dom_rep_def dom_shape_def empty_domain_def)

definition demo_session :: "string \<Rightarrow> session_record" where
  "demo_session k = \<lparr>session_id = k, user_id = ''u'', session_created_at = 1, last_active_at = 2,
     ttl_seconds = 60, session_status = ''active'', metadata = []\<rparr>"

definition demo_alloc :: allocator where
  "demo_alloc = \<lparr>tick = 0, fails = (\<lambda>_. False)\<rparr>"

theorem registry_refines_list_witness:
  "\<exists>al' d'. reg_exec session_id True (RAdd (Some (demo_session ''s1''))) (demo_alloc, empty_domain)
       = Some (SUCCESS, al', d') \<and> dom_rep session_id al' d' [demo_session ''s1'']"
  using registry_refines_list [OF dom_rep_empty, of session_id True "RAdd (Some (demo_session ''s1''))" demo_alloc]
  by (simp add: demo_session_def memory_granted_def demo_alloc_def)

fun reg_run ::
  "('r \<Rightarrow> string) \<Rightarrow> bool \<Rightarrow> 'r reg_call list \<Rightarrow> allocator \<times> 'r reg_domain
     \<Rightarrow> (allocator \<times> 'r reg_domain) option" where
  "reg_run key ini [] s = Some s"
| "reg_run key ini (c # cs) s =
     (case reg_exec key ini c s of None \<Rightarrow> None | Some (e, s') \<Rightarrow> reg_run key ini cs s')"


text \<open>A client's loop over an iterator: call iter_next until it returns NOT_FOUND.\<close>

fun iter_collect :: "nat \<Rightarrow> reg_iter \<Rightarrow> 'r reg_domain \<Rightarrow> 'r list option" where
  "iter_collect 0 it d = None"
| "iter_collect (Suc n) it d =
     (case heapstore_registry_iter_next (Some it) True d of
        Some (SUCCESS, Some r, Some it') \<Rightarrow> map_option (\<lambda>rs. r # rs) (iter_collect n it' d)
      | Some (ERR_NOT_FOUND, _, _) \<Rightarrow> Some []
      | _ \<Rightarrow> None)"

lemma iter_collect_lseg:
  "lseg (dheap d) p xs \<Longrightarrow> length xs < n \<Longrightarrow> iter_collect n (it\<lparr>it_current := p\<rparr>) d = Some (map snd xs)"
proof (induction xs arbitrary: p n it)
  case Nil
  then show ?case by (cases n) (simp_all add: heapstore_registry_iter_next_def)
next
  case (Cons x xs)
  obtain a r where x: "x = (a, r)" by (cases x)
  obtain m where n: "n = Suc m" using Cons.prems(2) by (cases n) auto
  from Cons.prems(1) obtain q where
    "p = Some a" "dheap d a = Some \<lparr>ndata = Some r, nnext = q\<rparr>" "lseg (dheap d) q xs"
    by (auto simp: x)
  with Cons.IH [of q m it] Cons.prems(2) show ?case
    by (simp add: heapstore_registry_iter_next_def n x)
qed

text \<open>
  A query followed by iter_next until it reports NOT_FOUND yields every stored record exactly
  once, newest first, as long as nothing is changed in between.
\<close>

theorem iteration_yields_all:
  assumes "dom_rep key al d rs" and "reg_query ty True True (al, d) = (SUCCESS, Some it, al')"
    and "length rs < n"
  shows "iter_collect n it d = Some rs"
proof -
  obtain xs where xs: "lseg (dheap d) (dhead d) xs" "map snd xs = rs"
    using dom_rep_lseg [OF assms(1)] by blast
  have "it = it\<lparr>it_current := dhead d\<rparr>"
    using assms(2) by (auto simp: reg_query_def split: option.splits prod.splits)
  with iter_collect_lseg [OF xs(1), of n it] xs(2) assms(3) show ?thesis by auto
qed

theorem iteration_yields_all_witness:
  "iter_collect 1 \<lparr>it_current = None, it_type = 2\<rparr> (empty_domain :: session_record reg_domain) = Some []"
proof -
  have q: "reg_query 2 True True (demo_alloc, empty_domain :: session_record reg_domain) =
      (SUCCESS, Some \<lparr>it_current = None, it_type = 2\<rparr>, demo_alloc\<lparr>tick := 1\<rparr>)"
    by (simp add: reg_query_def airy_alloc_def demo_alloc_def empty_domain_def)
  show ?thesis by (rule iteration_yields_all [OF dom_rep_empty [of session_id] q]) simp
qed

text \<open>
  Deleting the record that an open iterator stands at leaves the iterator with a pointer to
  the freed node: the next iter_next reads freed memory (its result is undefined).
\<close>

theorem delete_under_iterator_dangles:
  assumes rep: "dom_rep key al d (r # rs)"
    and it: "reg_query ty True True (al, d) = (SUCCESS, Some it, al')"
    and del: "reg_delete key True (Some (key r)) d = Some (e, d')"
  shows "e = SUCCESS \<and> heapstore_registry_iter_next (Some it) True d' = None"
proof -
  obtain a q xs where h: "dheap d a = Some \<lparr>ndata = Some r, nnext = q\<rparr>" "dhead d = Some a"
    using dom_rep_lseg [OF rep] by (auto simp: map_eq_Cons_conv)
  then have "reg_delete_loop key (key r) d None (dhead d) =
      Some (Some (d\<lparr>dhead := q, dheap := (dheap d)(a := None), dcount := dcount d - 1\<rparr>))"
    by (subst reg_delete_loop.simps) simp
  then have "e = SUCCESS" and d': "dheap d' a = None"
    using del by (auto simp: reg_delete_def)
  moreover have "it_current it = Some a"
    using it h by (auto simp: reg_query_def split: option.splits prod.splits)
  ultimately show ?thesis by (simp add: heapstore_registry_iter_next_def)
qed

definition demo_domain :: "session_record reg_domain" where
  "demo_domain = \<lparr>dhead = Some 0, dcount = 1,
     dheap = [0 \<mapsto> \<lparr>ndata = Some (demo_session ''s1''), nnext = None\<rparr>]\<rparr>"

lemma demo_domain_rep: "dom_rep session_id (demo_alloc\<lparr>tick := 2\<rparr>) demo_domain [demo_session ''s1'']"
  by (auto simp: dom_rep_def dom_shape_def demo_domain_def demo_session_def demo_alloc_def
      intro!: exI [of _ "[(0, demo_session ''s1'')]"])

theorem delete_under_iterator_dangles_witness:
  "\<exists>it al' d'. reg_query 2 True True (demo_alloc\<lparr>tick := 2\<rparr>, demo_domain) = (SUCCESS, Some it, al')
     \<and> reg_delete session_id True (Some (session_id (demo_session ''s1''))) demo_domain = Some (SUCCESS, d')
     \<and> heapstore_registry_iter_next (Some it) True d' = None"
proof -
  obtain it al' where q: "reg_query 2 True True (demo_alloc\<lparr>tick := 2\<rparr>, demo_domain) = (SUCCESS, Some it, al')"
    by (simp add: reg_query_def airy_alloc_def demo_alloc_def)
  obtain d' where del: "reg_delete session_id True (Some (session_id (demo_session ''s1''))) demo_domain = Some (SUCCESS, d')"
    by (simp add: reg_delete_def reg_delete_loop.simps demo_domain_def)
  show ?thesis
    using delete_under_iterator_dangles [OF demo_domain_rep q del] q del by blast
qed

text \<open>
  Shutdown of a sound registry frees every node of all three domains; but an init of a live
  registry drops the lists without freeing them, and the nodes it dropped survive every later
  shutdown: they are leaked.
\<close>

theorem shutdown_frees_reinit_leaks:
  assumes inv: "registry_inv (al, g)"
  shows "(\<exists>g'. heapstore_registry_shutdown g = Some g' \<and> dheap (agents g') = Map.empty
            \<and> dheap (skills g') = Map.empty \<and> dheap (sessions g') = Map.empty)
    \<and> (\<exists>g'. heapstore_registry_shutdown (snd (heapstore_registry_init g)) = Some g'
            \<and> dheap (agents g') = dheap (agents g) \<and> dheap (skills g') = dheap (skills g)
            \<and> dheap (sessions g') = dheap (sessions g))"
proof
  have free: "free_node_list (dheap d) (dhead d) = Some Map.empty" if rep: "dom_rep key al d rs"
    for key :: "'r \<Rightarrow> string" and d rs
  proof -
    obtain xs where "lseg (dheap d) (dhead d) xs" "dom (dheap d) = fst ` set xs"
      using dom_rep_lseg [OF rep] by blast
    then show ?thesis
      by (simp add: free_node_list_lseg fun_eq_iff) (metis domIff)
  qed
  from inv obtain ra rk rs where "dom_rep agent_id al (agents g) ra" "dom_rep skill_id al (skills g) rk"
    "dom_rep session_id al (sessions g) rs"
    by (auto simp: registry_inv_def)
  then show "\<exists>g'. heapstore_registry_shutdown g = Some g' \<and> dheap (agents g') = Map.empty
      \<and> dheap (skills g') = Map.empty \<and> dheap (sessions g') = Map.empty"
    by (simp add: heapstore_registry_shutdown_def free)
  show "\<exists>g'. heapstore_registry_shutdown (snd (heapstore_registry_init g)) = Some g'
      \<and> dheap (agents g') = dheap (agents g) \<and> dheap (skills g') = dheap (skills g)
      \<and> dheap (sessions g') = dheap (sessions g)"
    by (simp add: heapstore_registry_shutdown_def heapstore_registry_init_def clear_domain_def
        free_node_list.simps)
qed

theorem shutdown_frees_reinit_leaks_witness:
  "\<exists>g'. heapstore_registry_shutdown (snd (heapstore_registry_init
       \<lparr>agents = empty_domain, skills = empty_domain, sessions = demo_domain, reg_initialized = True\<rparr>)) = Some g'
     \<and> dheap (sessions g') 0 \<noteq> None"
proof -
  let ?g = "\<lparr>agents = empty_domain, skills = empty_domain, sessions = demo_domain, reg_initialized = True\<rparr>"
  have "registry_inv (demo_alloc\<lparr>tick := 2\<rparr>, ?g)"
    using demo_domain_rep dom_rep_empty [of agent_id] dom_rep_empty [of skill_id]
    unfolding registry_inv_def by (simp only: registry.simps case_prod_conv) blast
  from shutdown_frees_reinit_leaks [OF this] show ?thesis
    by (auto simp: demo_domain_def)
qed

text \<open>
  A batch insert stores the records one by one and stops at the first that is refused: what
  was stored before stays, so a failing batch leaves a proper prefix behind (it is no transaction).
\<close>

theorem batch_insert_stores_prefix:
  assumes rep: "dom_rep key al d rs" and "xs \<noteq> []"
  shows "\<exists>e al' d' n. reg_batch key True (Some xs) (al, d) = Some (e, al', d') \<and> n \<le> length xs
    \<and> dom_rep key al' d' (rev (take n xs) @ rs) \<and> (e = SUCCESS \<longleftrightarrow> n = length xs)"
proof -
  have "\<exists>e al' d' n. reg_batch_loop key True xs (al, d) = Some (e, al', d') \<and> n \<le> length xs
    \<and> dom_rep key al' d' (rev (take n xs) @ rs) \<and> (e = SUCCESS \<longleftrightarrow> n = length xs)"
    using rep
  proof (induction xs arbitrary: al d rs)
    case Nil
    then show ?case by auto
  next
    case (Cons x xs)
    let ?abs = "reg_abs key True (memory_granted al) (RAdd (Some x)) rs"
    from reg_exec_rep [OF Cons.prems, of True "RAdd (Some x)"] obtain al' d' where
      run: "reg_add key True (Some x) (al, d) = Some (fst ?abs, al', d')"
      and rep': "dom_rep key al' d' (snd ?abs)" by auto
    show ?case
    proof (cases "fst ?abs = SUCCESS")
      case True
      then have "snd ?abs = x # rs" by (auto split: if_splits)
      with Cons.IH rep' obtain e al2 d2 n where
        "reg_batch_loop key True xs (al', d') = Some (e, al2, d2)" "n \<le> length xs"
        "dom_rep key al2 d2 (rev (take n xs) @ x # rs)" "e = SUCCESS \<longleftrightarrow> n = length xs"
        by metis
      with run True show ?thesis by (intro exI [of _ e] exI [of _ al2] exI [of _ d2] exI [of _ "Suc n"]) simp
    next
      case False
      then have "snd ?abs = rs" by (auto split: if_splits)
      with run rep' False show ?thesis
        by (intro exI [of _ "fst ?abs"] exI [of _ al'] exI [of _ d'] exI [of _ 0]) simp
    qed
  qed
  with assms(2) show ?thesis by (simp add: reg_batch_def)
qed

theorem batch_insert_stores_prefix_witness:
  "\<exists>e al' d' n. reg_batch session_id True (Some [demo_session ''a'', demo_session ''a'']) (demo_alloc, empty_domain)
     = Some (e, al', d') \<and> n \<le> 2 \<and> (e = SUCCESS \<longleftrightarrow> n = 2)
     \<and> dom_rep session_id al' d' (rev (take n [demo_session ''a'', demo_session ''a'']))"
proof -
  have len: "length [demo_session ''a'', demo_session ''a''] = 2"
    by simp
  have "[demo_session ''a'', demo_session ''a''] \<noteq> []"
    by simp
  from batch_insert_stores_prefix [OF dom_rep_empty [of session_id demo_alloc] this] show ?thesis
    unfolding len append_Nil2 by blast
qed

end
