(* ===== verification/HS_Os.thy ===== *)
theory HS_Os
  imports HS_Prelude
begin

text \<open>
  The part of the C library and of POSIX that heapstore uses: files named by full path with
  inodes behind the names (so that an open stream outlives a rename or an unlink of its path),
  directory listings, the clock, and the services of the commons library as parameters.
  Every call may fail where the operating system may refuse it.
\<close>

section \<open>Files\<close>

record inode =
  is_dir :: bool
  content :: string
  mtime :: int

datatype syscall = SysOpen | SysUnlink | SysRename | SysStat | SysOpendir

text \<open>
  \<open>entries\<close> maps full paths to inode numbers, in the order in which readdir reports them.
  \<open>denied\<close> says which calls the system refuses on which path, \<open>io_error\<close> on which inode writing
  or syncing fails. \<open>strftime\<close> stands for the C library's localtime and strftime.
\<close>

record os =
  entries :: "(string \<times> nat) list"
  inodes :: "nat \<Rightarrow> inode"
  next_ino :: nat
  clock :: int
  denied :: "syscall \<Rightarrow> string \<Rightarrow> bool"
  io_error :: "nat \<Rightarrow> bool"
  strftime :: "string \<Rightarrow> int \<Rightarrow> string"

record fstat =
  st_isdir :: bool
  st_size :: u64
  st_mtime :: int

definition path_ino :: "os \<Rightarrow> string \<Rightarrow> nat option" where
  "path_ino w p = map_of (entries w) p"

definition os_stat :: "os \<Rightarrow> string \<Rightarrow> fstat option" where
  "os_stat w p =
     (if denied w SysStat p then None
      else case path_ino w p of
             None \<Rightarrow> None
           | Some i \<Rightarrow> Some \<lparr>st_isdir = is_dir (inodes w i),
                              st_size = of_nat (length (content (inodes w i))),
                              st_mtime = mtime (inodes w i)\<rparr>)"

definition remove_path :: "os \<Rightarrow> string \<Rightarrow> os" where
  "remove_path w p = w\<lparr>entries := filter (\<lambda>(q, _). q \<noteq> p) (entries w)\<rparr>"

text \<open>unlink(2), and remove(3) on files: True is the return value 0.\<close>

definition os_unlink :: "os \<Rightarrow> string \<Rightarrow> bool \<times> os" where
  "os_unlink w p =
     (case path_ino w p of
        None \<Rightarrow> (False, w)
      | Some i \<Rightarrow> if denied w SysUnlink p \<or> is_dir (inodes w i) then (False, w)
                  else (True, remove_path w p))"

text \<open>rename(2) on files: an existing destination file is replaced.\<close>

definition os_rename :: "os \<Rightarrow> string \<Rightarrow> string \<Rightarrow> bool \<times> os" where
  "os_rename w src dst =
     (case path_ino w src of
        None \<Rightarrow> (False, w)
      | Some i \<Rightarrow>
          if denied w SysRename src \<or> denied w SysRename dst \<or> is_dir (inodes w i) then (False, w)
          else (case path_ino w dst of
                  Some j \<Rightarrow> if is_dir (inodes w j) then (False, w)
                            else if src = dst then (True, w)
                            else (True, w\<lparr>entries := filter (\<lambda>(q, _). q \<noteq> src \<and> q \<noteq> dst) (entries w) @ [(dst, i)]\<rparr>)
                | None \<Rightarrow> (True, w\<lparr>entries := filter (\<lambda>(q, _). q \<noteq> src) (entries w) @ [(dst, i)]\<rparr>)))"

text \<open>The directory part of a path, and fopen in modes w and a; a stream is its inode number.\<close>

definition dirname :: "string \<Rightarrow> string" where
  "dirname p = rev (drop 1 (dropWhile (\<lambda>c. c \<noteq> CHR ''/'') (rev p)))"

definition dir_exists :: "os \<Rightarrow> string \<Rightarrow> bool" where
  "dir_exists w p \<longleftrightarrow> (case path_ino w p of None \<Rightarrow> False | Some i \<Rightarrow> is_dir (inodes w i))"

definition fresh_file :: "os \<Rightarrow> string \<Rightarrow> os" where
  "fresh_file w p =
     w\<lparr>entries := entries w @ [(p, next_ino w)],
       inodes := (inodes w)(next_ino w := \<lparr>is_dir = False, content = [], mtime = clock w\<rparr>),
       next_ino := Suc (next_ino w)\<rparr>"

definition fopen_a :: "os \<Rightarrow> string \<Rightarrow> nat option \<times> os" where
  "fopen_a w p =
     (if denied w SysOpen p then (None, w)
      else case path_ino w p of
             Some i \<Rightarrow> if is_dir (inodes w i) then (None, w) else (Some i, w)
           | None \<Rightarrow> if dir_exists w (dirname p) then (Some (next_ino w), fresh_file w p)
                     else (None, w))"

text \<open>fopen for reading: \<open>Inl\<close> carries whether errno is ENOENT.\<close>

definition fopen_r :: "os \<Rightarrow> string \<Rightarrow> bool + nat" where
  "fopen_r w p =
     (case path_ino w p of
        None \<Rightarrow> Inl True
      | Some i \<Rightarrow> if denied w SysOpen p then Inl False else Inr i)"

text \<open>
  \<open>fgets(buf, n, f)\<close> at the start of a file: None is NULL (end of file, or a directory), otherwise
  the string the buffer holds: up to n - 1 bytes through the first newline, seen up to a NUL.
\<close>

definition fgets_first :: "nat \<Rightarrow> nat \<Rightarrow> os \<Rightarrow> string option" where
  "fgets_first n i w =
     (if is_dir (inodes w i) \<or> content (inodes w i) = [] then None
      else
        let text = content (inodes w i);
            fst_line = takeWhile (\<lambda>c. c \<noteq> CHR 0x0A) text;
            through = (if length fst_line < length text then fst_line @ [CHR 0x0A] else fst_line)
        in Some (takeWhile (\<lambda>c. c \<noteq> CHR 0x00) (take (n - 1) through)))"

definition fopen_w :: "os \<Rightarrow> string \<Rightarrow> nat option \<times> os" where
  "fopen_w w p =
     (case fopen_a w p of
        (None, w') \<Rightarrow> (None, w')
      | (Some i, w') \<Rightarrow>
          (Some i, w'\<lparr>inodes := (inodes w')(i := (inodes w' i)\<lparr>content := [], mtime := clock w'\<rparr>)\<rparr>))"

text \<open>Writing at the end of a stream (fputs, fprintf, fwrite followed by a flush).\<close>

definition fputs :: "string \<Rightarrow> nat \<Rightarrow> os \<Rightarrow> os" where
  "fputs s i w =
     (if io_error w i then w
      else w\<lparr>inodes := (inodes w)(i := (inodes w i)\<lparr>content := content (inodes w i) @ s,
                                                     mtime := clock w\<rparr>)\<rparr>)"

text \<open>
  opendir and readdir: None when the directory cannot be opened, otherwise the entries in order,
  the entries dot and dot-dot first, each with its d_type (here: is it a regular file).
\<close>

definition child_name :: "string \<Rightarrow> string \<Rightarrow> string option" where
  "child_name d p =
     (let n = drop (Suc (length d)) p in
        if take (Suc (length d)) p = d @ ''/'' \<and> n \<noteq> [] \<and> CHR ''/'' \<notin> set n then Some n else None)"

fun named_children :: "string \<Rightarrow> (string \<times> nat) list \<Rightarrow> (string \<times> nat) list" where
  "named_children d [] = []"
| "named_children d ((p, i) # es) =
     (case child_name d p of
        None \<Rightarrow> named_children d es
      | Some n \<Rightarrow> (n, i) # named_children d es)"

definition dir_children :: "os \<Rightarrow> string \<Rightarrow> (string \<times> nat) list" where
  "dir_children w d = named_children d (entries w)"

definition os_readdir :: "os \<Rightarrow> string \<Rightarrow> (string \<times> bool) list option" where
  "os_readdir w d =
     (if denied w SysOpendir d \<or> \<not> dir_exists w d then None
      else Some ((''.'', False) # (''..'', False)
                 # map (\<lambda>(n, i). (n, \<not> is_dir (inodes w i))) (dir_children w d)))"

section \<open>The commons library\<close>

text \<open>
  Functions and macros of the commons library (not in this repository) that the code calls:
  airy_io_mkdir_p, AIRY_STRNCPY_TERM (the text a destination of the given size holds after the
  copy), airy_data_dir (NULL is the empty string: the code treats them alike where it tests) and
  the environment variable AIRY_HEAPSTORE_ROOT.
\<close>

record airy =
  mkdir_p :: "string \<Rightarrow> os \<Rightarrow> bool \<times> os"
  strncpy_term :: "string \<Rightarrow> nat \<Rightarrow> string"
  data_dir :: string
  env_root :: "string option"

text \<open>
  Documented behaviour that some properties name as a hypothesis: the copy keeps at most
  \<open>size - 1\<close> bytes.
\<close>

definition strncpy_ok :: "airy \<Rightarrow> bool" where
  "strncpy_ok A \<longleftrightarrow> (\<forall>s n. 0 < n \<longrightarrow> strncpy_term A s n = take (n - 1) s)"

section \<open>Lemmas on paths\<close>

definition fs_wf :: "os \<Rightarrow> bool" where
  "fs_wf w \<longleftrightarrow> distinct (map fst (entries w)) \<and> (\<forall>i\<in>snd ` set (entries w). i < next_ino w)"

lemma child_name_Some: "child_name d p = Some n \<longleftrightarrow> p = d @ ''/'' @ n \<and> n \<noteq> [] \<and> CHR ''/'' \<notin> set n"
proof
  assume "child_name d p = Some n"
  then have "n = drop (Suc (length d)) p" and "take (Suc (length d)) p = d @ ''/''"
    and "n \<noteq> []" and "CHR ''/'' \<notin> set n"
    by (auto simp: child_name_def Let_def split: if_splits)
  then show "p = d @ ''/'' @ n \<and> n \<noteq> [] \<and> CHR ''/'' \<notin> set n"
    by (metis append.assoc append_take_drop_id)
next
  assume "p = d @ ''/'' @ n \<and> n \<noteq> [] \<and> CHR ''/'' \<notin> set n"
  then show "child_name d p = Some n"
    by (simp add: child_name_def)
qed

lemma child_name_path [simp]:
  "child_name d (d @ CHR ''/'' # n) = (if n \<noteq> [] \<and> CHR ''/'' \<notin> set n then Some n else None)"
  by (simp add: child_name_def)

lemma named_children_mem: "(n, i) \<in> set (named_children d es) \<longleftrightarrow>
    n \<noteq> [] \<and> CHR ''/'' \<notin> set n \<and> (d @ ''/'' @ n, i) \<in> set es"
  by (induction d es rule: named_children.induct) (auto simp: child_name_Some split: option.splits)

lemma dir_children_mem: "(n, i) \<in> set (dir_children w d) \<longleftrightarrow>
    n \<noteq> [] \<and> CHR ''/'' \<notin> set n \<and> (d @ ''/'' @ n, i) \<in> set (entries w)"
  by (simp add: dir_children_def named_children_mem)

lemma distinct_named_children:
  "distinct (map fst es) \<Longrightarrow> distinct (map fst (named_children d es))"
proof (induction d es rule: named_children.induct)
  case (1 d)
  then show ?case by simp
next
  case (2 d p i es)
  show ?case
  proof (cases "child_name d p")
    case None
    with 2 show ?thesis by simp
  next
    case (Some n)
    then have "p = d @ ''/'' @ n" by (simp add: child_name_Some)
    then have "n \<notin> fst ` set (named_children d es)"
      using "2.prems" by (force simp: named_children_mem)
    with Some 2 show ?thesis by simp
  qed
qed

lemma distinct_dir_children:
  "distinct (map fst (entries w)) \<Longrightarrow> distinct (map fst (dir_children w d))"
  by (simp add: dir_children_def distinct_named_children)

lemma path_ino_mem: "fs_wf w \<Longrightarrow> path_ino w p = Some i \<longleftrightarrow> (p, i) \<in> set (entries w)"
  by (simp add: path_ino_def fs_wf_def)

lemma path_ino_remove_path: "path_ino (remove_path w p) q = (if q = p then None else path_ino w q)"
proof -
  have "map_of (filter (\<lambda>(r, _). r \<noteq> p) es) q = (if q = p then None else map_of es q)" for es :: "(string \<times> nat) list"
    by (induction es) auto
  then show ?thesis by (simp add: path_ino_def remove_path_def)
qed

lemma remove_path_frame [simp]:
  "inodes (remove_path w p) = inodes w" "next_ino (remove_path w p) = next_ino w"
  "clock (remove_path w p) = clock w" "denied (remove_path w p) = denied w"
  "io_error (remove_path w p) = io_error w" "strftime (remove_path w p) = strftime w"
  by (simp_all add: remove_path_def)

lemma fs_wf_remove_path: "fs_wf w \<Longrightarrow> fs_wf (remove_path w p)"
  by (auto simp: fs_wf_def remove_path_def distinct_map_filter split_def)

section \<open>Opening and renaming\<close>

lemma path_ino_fresh [simp]:
  "path_ino w p = None \<Longrightarrow> path_ino (fresh_file w p) q = (if q = p then Some (next_ino w) else path_ino w q)"
  by (auto simp: path_ino_def fresh_file_def map_add_def split: option.splits)

lemma fresh_file_frame [simp]:
  "clock (fresh_file w p) = clock w" "denied (fresh_file w p) = denied w"
  "io_error (fresh_file w p) = io_error w" "strftime (fresh_file w p) = strftime w"
  "inodes (fresh_file w p) = (inodes w)(next_ino w := \<lparr>is_dir = False, content = [], mtime = clock w\<rparr>)"
  by (simp_all add: fresh_file_def)

lemma fs_wf_ino: "fs_wf w \<Longrightarrow> path_ino w p = Some i \<Longrightarrow> i < next_ino w"
  by (force simp: fs_wf_def path_ino_def dest: map_of_SomeD)

lemma fs_wf_fresh: "fs_wf w \<Longrightarrow> path_ino w p = None \<Longrightarrow> fs_wf (fresh_file w p)"
  by (auto simp: fs_wf_def fresh_file_def path_ino_def map_of_eq_None_iff less_SucI)

text \<open>Opening for append: an existing file as it is, or a new empty one under that path and no other change.\<close>

lemma fopen_a_cases:
  assumes "fopen_a w p = (fp, w')"
  obtains (refused) "fp = None" "w' = w"
    | (existing) i where "fp = Some i" "w' = w" "path_ino w p = Some i" "\<not> is_dir (inodes w i)"
    | (created) "fp = Some (next_ino w)" "w' = fresh_file w p" "path_ino w p = None"
proof -
  have "(fp = None \<and> w' = w) \<or> (\<exists>i. fp = Some i \<and> w' = w \<and> path_ino w p = Some i \<and> \<not> is_dir (inodes w i))
      \<or> (fp = Some (next_ino w) \<and> w' = fresh_file w p \<and> path_ino w p = None)"
  proof (cases "path_ino w p")
    case None
    have "fopen_a w p = (None, w) \<or> fopen_a w p = (Some (next_ino w), fresh_file w p)"
      by (simp add: fopen_a_def None)
    then show ?thesis unfolding assms using None by simp
  next
    case (Some i)
    have "fopen_a w p = (None, w) \<or> fopen_a w p = (Some i, w) \<and> \<not> is_dir (inodes w i)"
      by (simp add: fopen_a_def Some)
    then show ?thesis unfolding assms using Some by simp
  qed
  then show ?thesis using refused existing created by metis
qed

lemma fputs_frame [simp]:
  "path_ino (fputs s i w) = path_ino w" "clock (fputs s i w) = clock w"
  "strftime (fputs s i w) = strftime w" "io_error (fputs s i w) = io_error w"
  "entries (fputs s i w) = entries w" "next_ino (fputs s i w) = next_ino w"
  "is_dir (inodes (fputs s i w) j) = is_dir (inodes w j)"
  by (simp_all add: fputs_def path_ino_def fun_eq_iff)

lemma fputs_content:
  "content (inodes (fputs s i w) j) =
    (if j = i \<and> \<not> io_error w i then content (inodes w j) @ s else content (inodes w j))"
  by (simp add: fputs_def)

lemma map_of_filter_fst: "map_of (filter (\<lambda>(q, _). P q) es) q = (if P q then map_of es q else None)"
  by (induction es) auto

text \<open>A rename that succeeds moves the inode to the new path and frees the old one.\<close>

lemma os_rename_entries:
  assumes "os_rename w src dst = (True, w')" and "src \<noteq> dst"
  shows "\<exists>i. path_ino w src = Some i \<and> \<not> is_dir (inodes w i)
    \<and> w' = w\<lparr>entries := filter (\<lambda>(q, _). q \<noteq> src \<and> q \<noteq> dst) (entries w) @ [(dst, i)]\<rparr>"
proof -
  have "filter (\<lambda>(q, _). q \<noteq> src) es = filter (\<lambda>(q, _). q \<noteq> src \<and> q \<noteq> dst) es"
    if "map_of es dst = None" for es :: "(string \<times> nat) list"
    using that assms(2) by (induction es) (auto split: if_splits)
  with assms show ?thesis
    by (simp add: os_rename_def path_ino_def split: option.splits if_splits)
qed

lemma os_rename_moves:
  assumes "os_rename w src dst = (True, w')" and "src \<noteq> dst" and "path_ino w src = Some i"
  shows "path_ino w' q = (if q = dst then Some i else if q = src then None else path_ino w q)"
    and "\<not> is_dir (inodes w i)"
  using os_rename_entries [OF assms(1,2)] assms(3)
  by (auto simp: path_ino_def map_add_def map_of_filter_fst split: option.splits)

lemma os_rename_frame:
  assumes "os_rename w src dst = (b, w')"
  shows "clock w' = clock w" "strftime w' = strftime w" "inodes w' = inodes w" "next_ino w' = next_ino w"
    "io_error w' = io_error w"
  using assms by (auto simp: os_rename_def split: option.splits if_splits)

text \<open>Opening for writing: the file is empty, every other path and inode stays.\<close>

lemma fopen_w_frame:
  assumes "fopen_w w p = (Some j, w')"
  shows "path_ino w' q = (if q = p then Some j else path_ino w q)"
    and "k \<noteq> j \<Longrightarrow> inodes w' k = inodes w k"
    and "content (inodes w' j) = []" and "\<not> is_dir (inodes w' j)"
    and "denied w' = denied w" and "io_error w' = io_error w"
    and "path_ino w p = Some j \<or> (path_ino w p = None \<and> j = next_ino w)"
proof -
  obtain w1 where fopen_a: "fopen_a w p = (Some j, w1)"
    and w': "w' = w1\<lparr>inodes := (inodes w1)(j := (inodes w1 j)\<lparr>content := [], mtime := clock w1\<rparr>)\<rparr>"
    using assms by (auto simp: fopen_w_def split: prod.splits option.splits)
  have paths: "path_ino w' r = path_ino w1 r" for r by (simp add: w' path_ino_def)
  from fopen_a have "path_ino w' q = (if q = p then Some j else path_ino w q)
      \<and> (k \<noteq> j \<longrightarrow> inodes w' k = inodes w k) \<and> content (inodes w' j) = [] \<and> \<not> is_dir (inodes w' j)
      \<and> denied w' = denied w \<and> io_error w' = io_error w
      \<and> (path_ino w p = Some j \<or> (path_ino w p = None \<and> j = next_ino w))"
  proof (cases rule: fopen_a_cases)
    case (existing i)
    then show ?thesis unfolding paths by (simp add: w')
  next
    case created
    then show ?thesis unfolding paths by (simp add: w')
  qed simp
  then show "path_ino w' q = (if q = p then Some j else path_ino w q)"
    "k \<noteq> j \<Longrightarrow> inodes w' k = inodes w k" "content (inodes w' j) = []" "\<not> is_dir (inodes w' j)"
    "denied w' = denied w" "io_error w' = io_error w"
    "path_ino w p = Some j \<or> (path_ino w p = None \<and> j = next_ino w)" by auto
qed

lemma fopen_w_None: "fopen_w w p = (None, w') \<Longrightarrow> w' = w"
  by (auto simp: fopen_w_def fopen_a_def split: option.splits if_splits)

lemma fputs_other [simp]: "j \<noteq> i \<Longrightarrow> inodes (fputs s i w) j = inodes w j"
  by (simp add: fputs_def)

lemma fputs_denied [simp]: "denied (fputs s i w) = denied w"
  by (simp add: fputs_def)

lemma os_unlink_frame:
  assumes "os_unlink w p = (b, w')"
  shows "inodes w' = inodes w" and "denied w' = denied w" and "q \<noteq> p \<Longrightarrow> path_ino w' q = path_ino w q"
  using assms by (auto simp: os_unlink_def path_ino_remove_path split: option.splits if_splits)

lemma os_rename_False: "os_rename w src dst = (False, w') \<Longrightarrow> w' = w"
  by (auto simp: os_rename_def split: option.splits if_splits)

lemma os_rename_denied: "os_rename w src dst = (b, w') \<Longrightarrow> denied w' = denied w"
  by (auto simp: os_rename_def split: option.splits if_splits)

text \<open>
  Documented behaviour of airy_io_mkdir_p that properties name as a hypothesis: it keeps every
  existing path and file, and what it adds are directories.
\<close>

definition mkdir_ok :: "airy \<Rightarrow> bool" where
  "mkdir_ok A \<longleftrightarrow> (\<forall>p w. fs_wf w \<longrightarrow>
     fs_wf (snd (mkdir_p A p w))
     \<and> (\<forall>q. path_ino w q = None \<longrightarrow>
          (\<forall>i. path_ino (snd (mkdir_p A p w)) q = Some i \<longrightarrow> is_dir (inodes (snd (mkdir_p A p w)) i)))
     \<and> (\<forall>q i. path_ino w q = Some i \<longrightarrow> path_ino (snd (mkdir_p A p w)) q = Some i
          \<and> inodes (snd (mkdir_p A p w)) i = inodes w i))"

text \<open>A commons library whose mkdir makes the one directory it is asked for.\<close>

definition demo_mkdir :: "string \<Rightarrow> os \<Rightarrow> bool \<times> os" where
  "demo_mkdir p w =
     (case path_ino w p of
        Some i \<Rightarrow> (is_dir (inodes w i), w)
      | None \<Rightarrow> (True, w\<lparr>entries := entries w @ [(p, next_ino w)],
                        inodes := (inodes w)(next_ino w := \<lparr>is_dir = True, content = [], mtime = clock w\<rparr>),
                        next_ino := Suc (next_ino w)\<rparr>))"

definition demo_airy :: airy where
  "demo_airy = \<lparr>mkdir_p = demo_mkdir, strncpy_term = (\<lambda>s n. take (n - 1) s), data_dir = ''/d'', env_root = None\<rparr>"

lemma demo_mkdir_ok: "mkdir_ok demo_airy"
proof -
  have paths: "path_ino (snd (demo_mkdir p w)) q =
      (if path_ino w q = None \<and> q = p then Some (next_ino w) else path_ino w q)" for p q w
    by (auto simp: demo_mkdir_def path_ino_def map_add_def split: option.splits)
  have kept: "fs_wf w \<Longrightarrow> path_ino w q = Some i \<Longrightarrow> inodes (snd (demo_mkdir p w)) i = inodes w i" for p q w i
    using fs_wf_ino [of w q i] by (auto simp: demo_mkdir_def split: option.splits)
  have wf: "fs_wf w \<Longrightarrow> fs_wf (snd (demo_mkdir p w))" for p w
    by (auto simp: demo_mkdir_def fs_wf_def path_ino_def map_of_eq_None_iff less_SucI split: option.splits)
  have dir: "path_ino w q = None \<Longrightarrow> path_ino (snd (demo_mkdir p w)) q = Some i \<Longrightarrow>
      is_dir (inodes (snd (demo_mkdir p w)) i)" for p q w i
    using paths [of p w q] by (auto simp: demo_mkdir_def split: option.splits if_splits)
  show ?thesis
    unfolding mkdir_ok_def demo_airy_def by (simp add: paths kept wf dir)
qed

end
