(* ===== verification/HS_Utils.thy ===== *)
theory HS_Utils
  imports HS_Os
begin

text \<open>
  src/utils.c on POSIX: directory creation, retention cleanup of a directory and its shared
  prologue, and the sanitising of names that become path components.
\<close>

section \<open>Directories\<close>

definition heapstore_dir_ensure :: "airy \<Rightarrow> string option \<Rightarrow> os \<Rightarrow> bool \<times> os" where
  "heapstore_dir_ensure A path w =
     (case path of
        None \<Rightarrow> (False, w)
      | Some p \<Rightarrow> if p = [] then (False, w) else mkdir_p A p w)"

text \<open>
  The sequence \<open>if (!heapstore_dir_ensure(p)) return ERR_DIR_CREATE_FAILED;\<close> over several paths:
  False as soon as one directory cannot be made, with the directories made so far.
\<close>

fun ensure_dirs :: "airy \<Rightarrow> string list \<Rightarrow> os \<Rightarrow> bool \<times> os" where
  "ensure_dirs A [] w = (True, w)"
| "ensure_dirs A (p # ps) w =
     (case heapstore_dir_ensure A (Some p) w of
        (False, w') \<Rightarrow> (False, w')
      | (True, w') \<Rightarrow> ensure_dirs A ps w')"

text \<open>
  The loop of heapstore_dir_clean over the entries of an open directory. \<open>freed\<close> is the
  accumulator behind the optional pointer.
\<close>

fun dir_clean_loop ::
  "os \<Rightarrow> string \<Rightarrow> int \<Rightarrow> (string \<times> bool) list \<Rightarrow> u64 \<Rightarrow> u64 option \<Rightarrow> u64 \<times> u64 option \<times> os" where
  "dir_clean_loop w dir cutoff [] local_freed freed = (local_freed, freed, w)"
| "dir_clean_loop w dir cutoff ((name, is_reg) # es) local_freed freed =
     (if \<not> is_reg then dir_clean_loop w dir cutoff es local_freed freed
      else
        let filepath = snprintf_buf 1024 (dir @ ''/'' @ name) in
        case os_stat w filepath of
          None \<Rightarrow> dir_clean_loop w dir cutoff es local_freed freed
        | Some st \<Rightarrow>
            if cutoff \<le> st_mtime st then dir_clean_loop w dir cutoff es local_freed freed
            else
              let file_size = st_size st in
              case os_unlink w filepath of
                (True, w') \<Rightarrow> dir_clean_loop w' dir cutoff es (local_freed + file_size)
                                (map_option (\<lambda>f. f + file_size) freed)
              | (False, w') \<Rightarrow> dir_clean_loop w' dir cutoff es local_freed freed)"

definition heapstore_dir_clean ::
  "string option \<Rightarrow> int \<Rightarrow> u64 option \<Rightarrow> os \<Rightarrow> u64 \<times> u64 option \<times> os" where
  "heapstore_dir_clean dir cutoff freed w =
     (case dir of
        None \<Rightarrow> (0, freed, w)
      | Some d \<Rightarrow>
          if d = [] then (0, freed, w)
          else case os_readdir w d of
                 None \<Rightarrow> (0, freed, w)
               | Some es \<Rightarrow> dir_clean_loop w d cutoff es 0 freed)"

text \<open>
  heapstore_pre_clean: \<open>Inl st\<close> when the caller must return \<open>st\<close> at once, \<open>Inr cutoff\<close> to go on;
  with it the new value behind the optional pointer freed_bytes.
\<close>

definition heapstore_pre_clean ::
  "bool \<Rightarrow> int \<Rightarrow> u64 option \<Rightarrow> os \<Rightarrow> (hs_error + int) \<times> u64 option" where
  "heapstore_pre_clean initialized days_to_keep freed_bytes w =
     (if \<not> initialized then (Inl ERR_NOT_INITIALIZED, freed_bytes)
      else
        let freed' = map_option (\<lambda>_. 0) freed_bytes in
        if days_to_keep \<le> 0 then (Inl SUCCESS, freed')
        else (Inr (clock w - days_to_keep * 86400), freed'))"

section \<open>Names\<close>

text \<open>The output of heapstore_path_clean; None is the error return (AIRY_EINVAL).\<close>

definition safe_char :: "char \<Rightarrow> bool" where
  "safe_char c \<longleftrightarrow> isalnum c \<or> c = CHR ''_'' \<or> c = CHR ''-'' \<or> c = CHR ''.''"

definition clean_char :: "char \<Rightarrow> char" where
  "clean_char c = (if safe_char c then c else CHR ''_'')"

definition heapstore_path_clean :: "bool \<Rightarrow> string option \<Rightarrow> size_t \<Rightarrow> string option" where
  "heapstore_path_clean output_null inp bufsize =
     (if output_null \<or> bufsize = 0 then None
      else case inp of
        None \<Rightarrow> None
      | Some input \<Rightarrow>
          if length input = 0 \<or> unat bufsize \<le> length input then None
          else if strstr input ''..'' then None
          else if CHR ''/'' \<in> set input then None
          else if CHR 0x5C \<in> set input then None
          else if CHR 0x00 \<in> set input then None
          else Some (map clean_char input))"

definition heapstore_ident_safe :: "string option \<Rightarrow> bool" where
  "heapstore_ident_safe inp =
     (case inp of
        None \<Rightarrow> False
      | Some input \<Rightarrow>
          if input = [] then False
          else if strstr input ''..'' then False
          else if CHR ''/'' \<in> set input then False
          else if CHR 0x5C \<in> set input then False
          else list_all (\<lambda>c. c \<noteq> CHR 0x00 \<and> safe_char c) input)"

section \<open>Properties of the names\<close>

lemma safe_char_facts [simp]:
  "\<not> safe_char CHR ''/''" "\<not> safe_char CHR 0x5C" "\<not> safe_char CHR 0x00" "safe_char CHR ''_''"
  "safe_char CHR ''.''"
  by (simp_all add: safe_char_def isalnum_def)

lemma strstr_two: "strstr s [a, b] \<longleftrightarrow> (\<exists>xs ys. s = xs @ a # b # ys)"
proof (induction s)
  case Nil
  then show ?case by simp
next
  case (Cons c s)
  have "take 2 (c # s) = [a, b] \<longleftrightarrow> (\<exists>ys. c # s = a # b # ys)"
    by (cases s) auto
  moreover have "(\<exists>xs ys. c # s = xs @ a # b # ys) \<longleftrightarrow>
      (\<exists>ys. c # s = a # b # ys) \<or> (\<exists>xs ys. s = xs @ a # b # ys)"
    by (metis append_Cons append_Nil list.exhaust list.inject)
  ultimately show ?case using Cons.IH by (simp add: numeral_2_eq_2)
qed

text \<open>A map that changes characters only into ones other than the dot adds no dot-dot.\<close>

lemma strstr_dots_map:
  assumes f: "\<And>c. f c = CHR ''.'' \<Longrightarrow> c = CHR ''.''" and dots: "strstr (map f s) ''..''"
  shows "strstr s ''..''"
proof -
  from dots obtain xs ys where "map f s = xs @ CHR ''.'' # CHR ''.'' # ys"
    by (auto simp: strstr_two)
  then obtain us z z' zs where s: "s = us @ z # z' # zs" and "f z = CHR ''.''" "f z' = CHR ''.''"
    by (auto simp: map_eq_append_conv map_eq_Cons_conv)
  with f have "z = CHR ''.''" and "z' = CHR ''.''" by auto
  with s show ?thesis by (auto simp: strstr_two)
qed

lemma clean_char_safe [simp]: "safe_char (clean_char c)"
  by (simp add: clean_char_def)

lemma clean_char_dot: "clean_char c = CHR ''.'' \<Longrightarrow> c = CHR ''.''"
  by (simp add: clean_char_def split: if_splits)

lemma path_clean_result:
  assumes "heapstore_path_clean output_null inp bufsize = Some out"
  shows "heapstore_ident_safe (Some out) \<and> length out < unat bufsize"
proof -
  obtain input where out: "out = map clean_char input"
    and ne: "input \<noteq> []" and len: "length input < unat bufsize" and dots: "\<not> strstr input ''..''"
    using assms by (auto simp: heapstore_path_clean_def split: if_splits option.splits)
  have "\<not> strstr out ''..''"
    using dots strstr_dots_map [of clean_char input] clean_char_dot out by blast
  moreover have safe: "\<forall>c\<in>set out. safe_char c" by (simp add: out)
  moreover have "CHR ''/'' \<notin> set out" "CHR 0x5C \<notin> set out" "CHR 0x00 \<notin> set out"
    using safe safe_char_facts by blast+
  moreover have "list_all (\<lambda>c. c \<noteq> CHR 0x00 \<and> safe_char c) out"
    using calculation by (auto simp: list_all_iff)
  ultimately have "heapstore_ident_safe (Some out)"
    using ne out by (simp add: heapstore_ident_safe_def del: set_map)
  with len out show ?thesis by simp
qed

text \<open>
  C34. Whatever heapstore_path_clean returns is a safe identifier: not empty, without a dot-dot,
  without a separator, made of safe characters only; and it fits the buffer with its NUL.
\<close>

theorem path_clean_safe:
  assumes "heapstore_path_clean output_null inp bufsize = Some out"
  shows "heapstore_ident_safe (Some out) \<and> length out < unat bufsize"
  by (rule path_clean_result [OF assms])

theorem path_clean_safe_witness:
  "heapstore_ident_safe (Some ''my_app'') \<and> length ''my_app'' < unat (64 :: size_t)"
proof -
  have "heapstore_path_clean False (Some ''my app'') 64 = Some ''my_app''" by code_simp
  then show ?thesis by (rule path_clean_safe)
qed

text \<open>
  heapstore_path_clean leaves an identifier that heapstore_ident_safe accepts as it is, so
  cleaning a name twice is the same as cleaning it once.
\<close>

theorem path_clean_ident_safe:
  assumes "heapstore_ident_safe (Some s)" and "length s < unat bufsize"
  shows "heapstore_path_clean False (Some s) bufsize = Some s"
proof -
  have "s \<noteq> []" "\<not> strstr s ''..''" "CHR ''/'' \<notin> set s" "CHR 0x5C \<notin> set s"
    and safe: "\<forall>c\<in>set s. c \<noteq> CHR 0x00 \<and> safe_char c"
    using assms(1) by (auto simp: heapstore_ident_safe_def list_all_iff split: if_splits)
  moreover have "map clean_char s = s"
    using safe by (simp add: clean_char_def map_idI)
  moreover have "bufsize \<noteq> 0" using assms(2) by auto
  ultimately show ?thesis using assms(2) by (auto simp: heapstore_path_clean_def)
qed

theorem path_clean_ident_safe_witness:
  "heapstore_path_clean False (Some ''llm_d-1.2'') 64 = Some ''llm_d-1.2''"
proof -
  have "heapstore_ident_safe (Some ''llm_d-1.2'')" by code_simp
  moreover have "length ''llm_d-1.2'' < unat (64 :: size_t)" by simp
  ultimately show ?thesis by (rule path_clean_ident_safe)
qed

section \<open>Properties of the retention cleanup\<close>

text \<open>The files of a listing that the cleanup removes, judged in the state before it.\<close>

definition expired :: "os \<Rightarrow> string \<Rightarrow> int \<Rightarrow> string \<times> nat \<Rightarrow> bool" where
  "expired w dir cutoff = (\<lambda>(n, i).
     \<not> is_dir (inodes w i) \<and> mtime (inodes w i) < cutoff
     \<and> \<not> denied w SysStat (dir @ ''/'' @ n) \<and> \<not> denied w SysUnlink (dir @ ''/'' @ n))"

definition expired_paths :: "os \<Rightarrow> string \<Rightarrow> int \<Rightarrow> (string \<times> nat) list \<Rightarrow> string list" where
  "expired_paths w dir cutoff es = map (\<lambda>(n, i). dir @ ''/'' @ n) (filter (expired w dir cutoff) es)"

definition expired_bytes :: "os \<Rightarrow> string \<Rightarrow> int \<Rightarrow> (string \<times> nat) list \<Rightarrow> u64" where
  "expired_bytes w dir cutoff es =
     (\<Sum>(n, i)\<leftarrow>filter (expired w dir cutoff) es. of_nat (length (content (inodes w i))))"

lemma expired_remove_path [simp]: "expired (remove_path w p) = expired w"
  by (auto simp: expired_def fun_eq_iff)

lemma expired_bytes_remove_path [simp]: "expired_bytes (remove_path w p) = expired_bytes w"
  by (auto simp: expired_bytes_def fun_eq_iff)

lemma expired_paths_remove_path [simp]: "expired_paths (remove_path w p) = expired_paths w"
  by (auto simp: expired_paths_def fun_eq_iff)

lemma dir_clean_loop_spec:
  assumes "distinct (map fst es)"
    and "\<forall>(n, i)\<in>set es. path_ino w (dir @ ''/'' @ n) = Some i \<and> length dir + length n < 1023"
  shows "dir_clean_loop w dir cutoff (map (\<lambda>(n, i). (n, \<not> is_dir (inodes w i))) es) l f =
    (l + expired_bytes w dir cutoff es, map_option (\<lambda>x. x + expired_bytes w dir cutoff es) f,
     foldl remove_path w (expired_paths w dir cutoff es))"
  using assms
proof (induction es arbitrary: w l f)
  case Nil
  then show ?case by (cases f) (simp_all add: expired_bytes_def expired_paths_def)
next
  case (Cons e es)
  obtain n i where e: "e = (n, i)" by (cases e)
  let ?p = "dir @ ''/'' @ n"
  have buf: "snprintf_buf 1024 ?p = ?p" and pi: "path_ino w ?p = Some i"
    using Cons.prems by (auto simp: e)
  have rest: "distinct (map fst es)"
    "\<forall>(n, i)\<in>set es. path_ino w (dir @ ''/'' @ n) = Some i \<and> length dir + length n < 1023"
    using Cons.prems by auto
  show ?case
  proof (cases "expired w dir cutoff e")
    case True
    have "\<forall>(m, j)\<in>set es. path_ino (remove_path w ?p) (dir @ ''/'' @ m) = Some j
            \<and> length dir + length m < 1023"
    proof clarify
      fix m j assume "(m, j) \<in> set es"
      moreover from this have "m \<noteq> n" using Cons.prems(1) by (force simp: e)
      ultimately show "path_ino (remove_path w ?p) (dir @ ''/'' @ m) = Some j
          \<and> length dir + length m < 1023"
        using rest(2) by (auto simp: path_ino_remove_path)
    qed
    note IH = Cons.IH [OF rest(1) this]
    show ?thesis
      using True buf pi IH
      by (cases f) (auto simp: e expired_def os_stat_def os_unlink_def expired_bytes_def
          expired_paths_def Let_def algebra_simps)
  next
    case False
    then show ?thesis
      using buf pi Cons.IH [OF rest]
      by (auto simp: e expired_def os_stat_def os_unlink_def expired_bytes_def
          expired_paths_def Let_def split: if_splits)
  qed
qed

lemma foldl_remove_path:
  "entries (foldl remove_path w ps) = filter (\<lambda>(q, _). q \<notin> set ps) (entries w)
   \<and> inodes (foldl remove_path w ps) = inodes w"
proof (induction ps arbitrary: w)
  case Nil
  then show ?case by simp
next
  case (Cons p ps)
  then show ?case by (auto simp: remove_path_def split_def conj_commute intro: filter_cong)
qed

text \<open>
  C35. Retention cleanup of a directory removes exactly the regular files in it that are older than
  the cutoff and that the system lets it stat and unlink; every other path and every file content
  stays; the returned number, and what is added behind the optional pointer, is the total size of
  the removed files (modulo 2^64). File paths must fit the 1024-byte buffer of the code.
\<close>

theorem dir_clean_removes_expired:
  assumes wf: "fs_wf w" and dir: "d \<noteq> []" "dir_exists w d" "\<not> denied w SysOpendir d"
    and fit: "\<forall>(n, i)\<in>set (dir_children w d). length d + length n < 1023"
    and run: "heapstore_dir_clean (Some d) cutoff freed w = (n, freed', w')"
  shows "n = expired_bytes w d cutoff (dir_children w d) \<and>
    freed' = map_option (\<lambda>f. f + n) freed \<and>
    entries w' = filter (\<lambda>(q, _). q \<notin> set (expired_paths w d cutoff (dir_children w d))) (entries w) \<and>
    inodes w' = inodes w"
proof -
  have dots: "dir_clean_loop w d cutoff ((''.'', False) # (''..'', False) # es) l f
      = dir_clean_loop w d cutoff es l f" for es l f
    by simp
  have "\<forall>(n, i)\<in>set (dir_children w d). path_ino w (d @ ''/'' @ n) = Some i \<and> length d + length n < 1023"
    using fit wf by (fastforce simp: path_ino_mem dir_children_mem)
  moreover have "distinct (map fst (dir_children w d))"
    using wf by (simp add: fs_wf_def distinct_dir_children)
  ultimately have "dir_clean_loop w d cutoff (map (\<lambda>(n, i). (n, \<not> is_dir (inodes w i))) (dir_children w d)) 0 freed
      = (expired_bytes w d cutoff (dir_children w d),
         map_option (\<lambda>x. x + expired_bytes w d cutoff (dir_children w d)) freed,
         foldl remove_path w (expired_paths w d cutoff (dir_children w d)))"
    by (subst dir_clean_loop_spec) simp_all
  with run dir have "n = expired_bytes w d cutoff (dir_children w d)
    \<and> freed' = map_option (\<lambda>x. x + expired_bytes w d cutoff (dir_children w d)) freed
    \<and> w' = foldl remove_path w (expired_paths w d cutoff (dir_children w d))"
    by (auto simp: heapstore_dir_clean_def os_readdir_def)
  then show ?thesis by (simp add: foldl_remove_path)
qed

text \<open>A directory with one old and one new log file, for the witnesses.\<close>

definition demo_os :: os where
  "demo_os =
     \<lparr>entries = [(''/l'', 0), (''/l/old.log'', 1), (''/l/new.log'', 2)],
      inodes = (\<lambda>i. if i = 0 then \<lparr>is_dir = True, content = [], mtime = 0\<rparr>
                    else if i = 1 then \<lparr>is_dir = False, content = ''abc'', mtime = 10\<rparr>
                    else \<lparr>is_dir = False, content = ''de'', mtime = 900\<rparr>),
      next_ino = 3, clock = 1000, denied = (\<lambda>_ _. False), io_error = (\<lambda>_. False),
      strftime = (\<lambda>f t. f)\<rparr>"

theorem dir_clean_removes_expired_witness:
  "entries (snd (snd (heapstore_dir_clean (Some ''/l'') 500 (Some 0) demo_os))) =
     [(''/l'', 0), (''/l/new.log'', 2)]"
proof -
  let ?run = "heapstore_dir_clean (Some ''/l'') 500 (Some 0) demo_os"
  have wf: "fs_wf demo_os" by (simp add: fs_wf_def demo_os_def)
  have ex: "dir_exists demo_os ''/l''" "\<not> denied demo_os SysOpendir ''/l''"
    by (simp_all add: dir_exists_def path_ino_def demo_os_def)
  have ch: "dir_children demo_os ''/l'' = [(''old.log'', 1), (''new.log'', 2)]"
    by (simp add: dir_children_def demo_os_def child_name_def)
  have fit: "\<forall>(n, i)\<in>set (dir_children demo_os ''/l''). length ''/l'' + length n < 1023"
    by (simp add: ch)
  have run: "?run = (fst ?run, fst (snd ?run), snd (snd ?run))" by simp
  have "set (expired_paths demo_os ''/l'' 500 (dir_children demo_os ''/l'')) = {''/l/old.log''}"
    unfolding ch by (auto simp: expired_paths_def expired_def demo_os_def)
  then show ?thesis
    using dir_clean_removes_expired [OF wf _ ex fit run] by (simp add: demo_os_def)
qed

end
