(* ===== verification/HS_Memory.thy ===== *)
theory HS_Memory
  imports HS_Utils
begin

text \<open>
  src/heapstore_memory.c: the tables of memory pools and of allocation records. The two static
  arrays and their counts are the lists \<open>pools\<close> and \<open>allocations\<close> (the used prefixes); every
  operation is one step of the model. That it may be, although several threads run them, is shown in
  HS_Threads, where they run statement by statement under the component's mutex.
\<close>

section \<open>State\<close>

record memory_pool =
  pool_id :: string
  pool_name :: string
  total_size :: size_t
  used_size :: size_t
  block_size :: size_t
  block_count :: u32
  free_block_count :: u32
  pool_created_at :: u64
  pool_status :: string

record memory_allocation =
  allocation_id :: string
  alloc_pool_id :: string
  alloc_size :: size_t
  address :: u64
  allocated_at :: u64
  freed_at :: u64
  alloc_status :: string

record memory =
  mem_initialized :: bool
  pools :: "memory_pool list"
  allocations :: "memory_allocation list"
  memory_path :: string

definition MEMORY_MAX_POOLS :: nat where "MEMORY_MAX_POOLS = 64"
definition MEMORY_MAX_ALLOCATIONS :: nat where "MEMORY_MAX_ALLOCATIONS = 10000"

definition memory0 :: memory where
  "memory0 = \<lparr>mem_initialized = False, pools = [], allocations = [], memory_path = []\<rparr>"

section \<open>Operations\<close>

text \<open>heapstore_memory_init; \<open>root\<close> is what heapstore_get_root returns.\<close>

definition heapstore_memory_init :: "airy \<Rightarrow> string \<Rightarrow> os \<times> memory \<Rightarrow> hs_error \<times> os \<times> memory" where
  "heapstore_memory_init A root = (\<lambda>(w, m).
     if mem_initialized m then (SUCCESS, w, m)
     else
       let base_path = (if root \<noteq> [] then snprintf_buf 512 (root @ ''/kernel/memory'')
                        else snprintf_buf 512 (data_dir A @ ''/agentrt/heapstore/kernel/memory''));
           path = strncpy_term A base_path 512;
           m1 = m\<lparr>memory_path := path\<rparr>
       in case ensure_dirs A [path, snprintf_buf 512 (path @ ''/pools''),
                              snprintf_buf 512 (path @ ''/allocations''),
                              snprintf_buf 512 (path @ ''/stats'')] w of
            (False, w') \<Rightarrow> (ERR_DIR_CREATE_FAILED, w', m1)
          | (True, w') \<Rightarrow>
              (SUCCESS, w', m1\<lparr>pools := [], allocations := [], mem_initialized := True\<rparr>))"

definition heapstore_memory_shutdown :: "memory \<Rightarrow> memory" where
  "heapstore_memory_shutdown m =
     (if \<not> mem_initialized m then m
      else m\<lparr>pools := [], allocations := [], mem_initialized := False\<rparr>)"

definition heapstore_memory_record_pool :: "memory_pool option \<Rightarrow> memory \<Rightarrow> hs_error \<times> memory" where
  "heapstore_memory_record_pool pool m =
     (if \<not> mem_initialized m then (ERR_NOT_INITIALIZED, m)
      else case pool of
        None \<Rightarrow> (ERR_INVALID_PARAM, m)
      | Some p \<Rightarrow>
          if pool_id p = [] then (ERR_INVALID_PARAM, m)
          else if MEMORY_MAX_POOLS \<le> length (pools m) then (ERR_OUT_OF_MEMORY, m)
          else case find_slot pool_id (pools m) (pool_id p) of
                 Some i \<Rightarrow> (SUCCESS, m\<lparr>pools := (pools m)[i := p]\<rparr>)
               | None \<Rightarrow> (SUCCESS, m\<lparr>pools := pools m @ [p]\<rparr>))"

text \<open>The readers return the record copied to the output, if any; \<open>out\<close>: is the pointer non-NULL.\<close>

definition heapstore_memory_get_pool ::
  "string option \<Rightarrow> bool \<Rightarrow> memory \<Rightarrow> hs_error \<times> memory_pool option" where
  "heapstore_memory_get_pool pid out m =
     (if \<not> mem_initialized m then (ERR_NOT_INITIALIZED, None)
      else case pid of
        None \<Rightarrow> (ERR_INVALID_PARAM, None)
      | Some k \<Rightarrow>
          if \<not> out then (ERR_INVALID_PARAM, None)
          else case find_slot pool_id (pools m) k of
                 Some i \<Rightarrow> (SUCCESS, Some (pools m ! i))
               | None \<Rightarrow> (ERR_NOT_FOUND, None))"

definition heapstore_memory_update_pool_usage ::
  "string option \<Rightarrow> size_t \<Rightarrow> u32 \<Rightarrow> memory \<Rightarrow> hs_error \<times> memory" where
  "heapstore_memory_update_pool_usage pid used free m =
     (if \<not> mem_initialized m then (ERR_NOT_INITIALIZED, m)
      else case pid of
        None \<Rightarrow> (ERR_INVALID_PARAM, m)
      | Some k \<Rightarrow>
          (case find_slot pool_id (pools m) k of
             Some i \<Rightarrow> (SUCCESS, m\<lparr>pools := (pools m)
                         [i := (pools m ! i)\<lparr>used_size := used, free_block_count := free\<rparr>]\<rparr>)
           | None \<Rightarrow> (ERR_NOT_FOUND, m)))"

definition heapstore_mem_record :: "memory_allocation option \<Rightarrow> memory \<Rightarrow> hs_error \<times> memory" where
  "heapstore_mem_record allocation m =
     (if \<not> mem_initialized m then (ERR_NOT_INITIALIZED, m)
      else case allocation of
        None \<Rightarrow> (ERR_INVALID_PARAM, m)
      | Some a \<Rightarrow>
          if allocation_id a = [] then (ERR_INVALID_PARAM, m)
          else if MEMORY_MAX_ALLOCATIONS \<le> length (allocations m) then (ERR_OUT_OF_MEMORY, m)
          else case find_slot allocation_id (allocations m) (allocation_id a) of
                 Some i \<Rightarrow> (SUCCESS, m\<lparr>allocations := (allocations m)[i := a]\<rparr>)
               | None \<Rightarrow> (SUCCESS, m\<lparr>allocations := allocations m @ [a]\<rparr>))"

definition heapstore_memory_get_allocation ::
  "string option \<Rightarrow> bool \<Rightarrow> memory \<Rightarrow> hs_error \<times> memory_allocation option" where
  "heapstore_memory_get_allocation aid out m =
     (if \<not> mem_initialized m then (ERR_NOT_INITIALIZED, None)
      else case aid of
        None \<Rightarrow> (ERR_INVALID_PARAM, None)
      | Some k \<Rightarrow>
          if \<not> out then (ERR_INVALID_PARAM, None)
          else case find_slot allocation_id (allocations m) k of
                 Some i \<Rightarrow> (SUCCESS, Some (allocations m ! i))
               | None \<Rightarrow> (ERR_NOT_FOUND, None))"

text \<open>\<open>now\<close> is time(NULL); the status buffer has 32 bytes.\<close>

definition heapstore_memory_free_allocation ::
  "airy \<Rightarrow> int \<Rightarrow> string option \<Rightarrow> memory \<Rightarrow> hs_error \<times> memory" where
  "heapstore_memory_free_allocation A now aid m =
     (if \<not> mem_initialized m then (ERR_NOT_INITIALIZED, m)
      else case aid of
        None \<Rightarrow> (ERR_INVALID_PARAM, m)
      | Some k \<Rightarrow>
          (case find_slot allocation_id (allocations m) k of
             Some i \<Rightarrow> (SUCCESS, m\<lparr>allocations := (allocations m)
                         [i := (allocations m ! i)\<lparr>freed_at := word_of_int now,
                                                    alloc_status := strncpy_term A ''freed'' 32\<rparr>]\<rparr>)
           | None \<Rightarrow> (ERR_NOT_FOUND, m)))"

text \<open>The three outputs of heapstore_memory_get_stats, computed as if all were requested.\<close>

definition heapstore_memory_get_stats :: "memory \<Rightarrow> hs_error \<times> (u32 \<times> u32 \<times> u64) option" where
  "heapstore_memory_get_stats m =
     (if \<not> mem_initialized m then (ERR_NOT_INITIALIZED, None)
      else (SUCCESS, Some (of_nat (length (pools m)), of_nat (length (allocations m)),
                           foldl (\<lambda>s p. s + total_size p) 0 (pools m))))"

definition heapstore_memory_is_healthy :: "memory \<Rightarrow> bool" where
  "heapstore_memory_is_healthy m = mem_initialized m"

section \<open>Invariant\<close>

definition table_ok :: "('r \<Rightarrow> string) \<Rightarrow> nat \<Rightarrow> 'r list \<Rightarrow> bool" where
  "table_ok key cap rs \<longleftrightarrow> distinct (map key rs) \<and> [] \<notin> key ` set rs \<and> length rs \<le> cap"

definition memory_inv :: "memory \<Rightarrow> bool" where
  "memory_inv m \<longleftrightarrow>
     table_ok pool_id MEMORY_MAX_POOLS (pools m)
     \<and> table_ok allocation_id MEMORY_MAX_ALLOCATIONS (allocations m)
     \<and> (\<not> mem_initialized m \<longrightarrow> pools m = [] \<and> allocations m = [])"

lemma table_ok_Nil [simp]: "table_ok key cap []"
  by (simp add: table_ok_def)

lemma table_ok_update:
  assumes "table_ok key cap rs" and "find_slot key rs k = Some i" and "key r = k"
  shows "table_ok key cap (rs[i := r])"
proof -
  have "i < length rs" "key (rs ! i) = key r"
    using find_slot_Some [OF assms(2)] assms(3) by auto
  then have "map key (rs[i := r]) = map key rs" by (rule map_key_update)
  then have "distinct (map key (rs[i := r])) = distinct (map key rs)"
    and "key ` set (rs[i := r]) = key ` set rs"
    by (metis, metis list.set_map)
  with assms(1) show ?thesis by (simp add: table_ok_def)
qed

lemma table_ok_append:
  assumes "table_ok key cap rs" and "find_slot key rs (key r) = None" and "length rs < cap"
    and "key r \<noteq> []"
  shows "table_ok key cap (rs @ [r])"
  using assms by (auto simp: table_ok_def find_slot_None)

text \<open>The calls of the interface that change the state, as data, and their effect.\<close>

datatype memory_call =
    MInit airy string
  | MShutdown
  | MRecordPool "memory_pool option"
  | MUpdateUsage "string option" size_t u32
  | MRecord "memory_allocation option"
  | MFree airy int "string option"

fun memory_step :: "memory_call \<Rightarrow> os \<times> memory \<Rightarrow> os \<times> memory" where
  "memory_step (MInit A root) (w, m) = snd (heapstore_memory_init A root (w, m))"
| "memory_step MShutdown (w, m) = (w, heapstore_memory_shutdown m)"
| "memory_step (MRecordPool p) (w, m) = (w, snd (heapstore_memory_record_pool p m))"
| "memory_step (MUpdateUsage k u f) (w, m) = (w, snd (heapstore_memory_update_pool_usage k u f m))"
| "memory_step (MRecord a) (w, m) = (w, snd (heapstore_mem_record a m))"
| "memory_step (MFree A t k) (w, m) = (w, snd (heapstore_memory_free_allocation A t k m))"

lemma memory_init_cases:
  "\<exists>e w' m'. heapstore_memory_init A root (w, m) = (e, w', m') \<and>
     (mem_initialized m \<and> e = SUCCESS \<and> m' = m
      \<or> \<not> mem_initialized m \<and> (e = SUCCESS \<and> mem_initialized m' \<and> pools m' = [] \<and> allocations m' = []
         \<or> e = ERR_DIR_CREATE_FAILED \<and> (\<exists>p. m' = m\<lparr>memory_path := p\<rparr>)))"
  unfolding heapstore_memory_init_def Let_def by (auto split: prod.splits bool.splits simp del: ensure_dirs.simps)

lemma memory_init_inv:
  assumes "memory_inv m"
  shows "memory_inv (snd (snd (heapstore_memory_init A root (w, m))))"
  using memory_init_cases [of A root w m] assms by (auto simp: memory_inv_def)

lemma record_pool_inv: "memory_inv m \<Longrightarrow> memory_inv (snd (heapstore_memory_record_pool p m))"
  by (auto simp: memory_inv_def heapstore_memory_record_pool_def table_ok_update
      split: option.splits intro!: table_ok_append)

lemma mem_record_inv: "memory_inv m \<Longrightarrow> memory_inv (snd (heapstore_mem_record a m))"
  by (auto simp: memory_inv_def heapstore_mem_record_def table_ok_update
      split: option.splits intro!: table_ok_append)

lemma update_usage_inv: "memory_inv m \<Longrightarrow> memory_inv (snd (heapstore_memory_update_pool_usage k u f m))"
  by (auto simp: memory_inv_def heapstore_memory_update_pool_usage_def
      split: option.splits intro!: table_ok_update dest: find_slot_Some)

lemma free_allocation_inv: "memory_inv m \<Longrightarrow> memory_inv (snd (heapstore_memory_free_allocation A t k m))"
  by (auto simp: memory_inv_def heapstore_memory_free_allocation_def
      split: option.splits intro!: table_ok_update dest: find_slot_Some)

lemma shutdown_inv: "memory_inv m \<Longrightarrow> memory_inv (heapstore_memory_shutdown m)"
  by (simp add: memory_inv_def heapstore_memory_shutdown_def)

lemma memory_step_inv:
  assumes "memory_inv (snd s)"
  shows "memory_inv (snd (memory_step c s))"
proof (cases s)
  case (Pair w m)
  with assms show ?thesis
    by (cases c) (simp_all add: memory_init_inv record_pool_inv mem_record_inv update_usage_inv
        free_allocation_inv shutdown_inv)
qed

section \<open>The tables as stores\<close>

definition pool_lookup :: "memory \<Rightarrow> string \<Rightarrow> memory_pool option" where
  "pool_lookup m k = snd (heapstore_memory_get_pool (Some k) True m)"

definition allocation_lookup :: "memory \<Rightarrow> string \<Rightarrow> memory_allocation option" where
  "allocation_lookup m k = snd (heapstore_memory_get_allocation (Some k) True m)"

lemma pool_lookup_eq:
  "pool_lookup m = (if mem_initialized m then table_map pool_id (pools m) else Map.empty)"
  by (auto simp: pool_lookup_def heapstore_memory_get_pool_def table_map_find_slot fun_eq_iff
      split: option.splits)

lemma allocation_lookup_eq:
  "allocation_lookup m = (if mem_initialized m then table_map allocation_id (allocations m) else Map.empty)"
  by (auto simp: allocation_lookup_def heapstore_memory_get_allocation_def table_map_find_slot
      fun_eq_iff split: option.splits)

lemma record_pool_lookup:
  assumes "memory_inv m"
  shows "pool_lookup (snd (heapstore_memory_record_pool (Some p) m)) =
    (if fst (heapstore_memory_record_pool (Some p) m) = SUCCESS
     then (pool_lookup m)(pool_id p \<mapsto> p) else pool_lookup m)"
  using assms
  by (auto simp: heapstore_memory_record_pool_def pool_lookup_eq memory_inv_def table_ok_def
      table_map_update find_slot_None table_map_append_new split: option.splits)

lemma mem_record_lookup:
  assumes "memory_inv m"
  shows "allocation_lookup (snd (heapstore_mem_record (Some a) m)) =
    (if fst (heapstore_mem_record (Some a) m) = SUCCESS
     then (allocation_lookup m)(allocation_id a \<mapsto> a) else allocation_lookup m)"
  using assms
  by (auto simp: heapstore_mem_record_def allocation_lookup_eq memory_inv_def table_ok_def
      table_map_update find_slot_None table_map_append_new split: option.splits)

interpretation pool_store: record_store pool_id pool_lookup
  "\<lambda>p m. Some (heapstore_memory_record_pool (Some p) m)" memory_inv
  by (rule record_storeI_total) (simp add: stores_def record_pool_lookup record_pool_inv)

interpretation allocation_store: record_store allocation_id allocation_lookup
  "\<lambda>a m. Some (heapstore_mem_record (Some a) m)" memory_inv
  by (rule record_storeI_total) (simp add: stores_def mem_record_lookup mem_record_inv)

interpretation memory_life: guarded_lifecycle "heapstore_memory_init A root"
  "\<lambda>(w, m). Some (w, heapstore_memory_shutdown m)" "\<lambda>(w, m). heapstore_memory_is_healthy m"
  "\<lambda>(w, m). memory_inv m"
  for A root
proof unfold_locales
  fix s :: "os \<times> memory"
  obtain w m where s: "s = (w, m)" by (cases s)
  assume "case s of (w, m) \<Rightarrow> memory_inv m"
  then have inv: "memory_inv m" by (simp add: s)
  show "case snd (heapstore_memory_init A root s) of (w, m) \<Rightarrow> memory_inv m"
    using memory_init_inv [OF inv, of A root w] by (simp add: s split_def)
  show "case snd (heapstore_memory_init A root s) of (w, m) \<Rightarrow> heapstore_memory_is_healthy m"
    if "fst (heapstore_memory_init A root s) = SUCCESS"
    using memory_init_cases [of A root w m] that by (auto simp: s heapstore_memory_is_healthy_def)
  show "\<not> (case snd (heapstore_memory_init A root s) of (w, m) \<Rightarrow> heapstore_memory_is_healthy m)"
    if "\<not> (case s of (w, m) \<Rightarrow> heapstore_memory_is_healthy m)" "fst (heapstore_memory_init A root s) \<noteq> SUCCESS"
    using memory_init_cases [of A root w m] that by (auto simp: s heapstore_memory_is_healthy_def)
  show "\<exists>s'. (case s of (w, m) \<Rightarrow> Some (w, heapstore_memory_shutdown m)) = Some s'
      \<and> (case s' of (w, m) \<Rightarrow> memory_inv m) \<and> \<not> (case s' of (w, m) \<Rightarrow> heapstore_memory_is_healthy m)"
    using shutdown_inv [OF inv]
    by (simp add: s heapstore_memory_is_healthy_def heapstore_memory_shutdown_def)
qed

section \<open>Properties\<close>

definition memory_run :: "memory_call list \<Rightarrow> os \<times> memory \<Rightarrow> os \<times> memory" where
  "memory_run cs s = foldl (\<lambda>s c. memory_step c s) s cs"

lemma memory_run_simps [simp]:
  "memory_run [] s = s" "memory_run (c # cs) s = memory_run cs (memory_step c s)"
  by (simp_all add: memory_run_def)

text \<open>
  C39. After any sequence of calls of the memory API, from process start on, both tables hold
  records with distinct, non-empty ids, never more than their static arrays can hold (64 pools and
  10000 allocations: no write is out of bounds), and they are empty while the component is not
  initialised.
\<close>

theorem memory_calls_keep_tables_ok: "memory_inv (snd (memory_run cs (w, memory0)))"
proof -
  have "memory_inv (snd s) \<Longrightarrow> memory_inv (snd (memory_run cs s))" for s
    by (induction cs arbitrary: s) (simp_all add: memory_step_inv)
  then show ?thesis by (simp add: memory_inv_def memory0_def)
qed

text \<open>
  Recording a pool behaves as an update of a finite map from ids to records: it succeeds
  exactly when the component is initialised, the id is not empty and the table is not full; then
  the record read back under its id is the one stored and all other ids read as before; otherwise
  no id reads differently. The table counts as full even for an id that it already holds.
\<close>

theorem record_pool_map:
  assumes "memory_inv m"
  shows "(fst (heapstore_memory_record_pool (Some p) m) = SUCCESS \<longleftrightarrow>
            mem_initialized m \<and> pool_id p \<noteq> [] \<and> length (pools m) < MEMORY_MAX_POOLS)
    \<and> pool_lookup (snd (heapstore_memory_record_pool (Some p) m)) =
        (if fst (heapstore_memory_record_pool (Some p) m) = SUCCESS
         then (pool_lookup m)(pool_id p \<mapsto> p) else pool_lookup m)"
proof
  show "fst (heapstore_memory_record_pool (Some p) m) = SUCCESS \<longleftrightarrow>
      mem_initialized m \<and> pool_id p \<noteq> [] \<and> length (pools m) < MEMORY_MAX_POOLS"
    by (auto simp: heapstore_memory_record_pool_def not_le split: option.splits)
  show "pool_lookup (snd (heapstore_memory_record_pool (Some p) m)) =
      (if fst (heapstore_memory_record_pool (Some p) m) = SUCCESS
       then (pool_lookup m)(pool_id p \<mapsto> p) else pool_lookup m)"
    by (rule pool_store.lookup_after [OF assms]) simp
qed

definition demo_pool :: memory_pool where
  "demo_pool = \<lparr>pool_id = ''p1'', pool_name = ''pool'', total_size = 4096, used_size = 0,
     block_size = 64, block_count = 64, free_block_count = 64, pool_created_at = 1,
     pool_status = ''active''\<rparr>"

theorem record_pool_map_witness:
  "pool_lookup (snd (heapstore_memory_record_pool (Some demo_pool) (memory0\<lparr>mem_initialized := True\<rparr>)))
     ''p1'' = Some demo_pool"
proof -
  have inv: "memory_inv (memory0\<lparr>mem_initialized := True\<rparr>)"
    by (simp add: memory_inv_def memory0_def)
  show ?thesis
    using record_pool_map [OF inv, of demo_pool]
    by (simp add: memory0_def demo_pool_def MEMORY_MAX_POOLS_def)
qed

text \<open>
  Slots of the allocation table are never given back: freeing an allocation keeps its record,
  so once the table has reached its capacity every further record is refused, whatever calls other
  than init and shutdown were made in between.
\<close>

theorem full_allocation_table_stays_full:
  assumes full: "mem_initialized m" "MEMORY_MAX_ALLOCATIONS \<le> length (allocations m)"
    and calls: "MShutdown \<notin> set cs" "\<forall>A root. MInit A root \<notin> set cs"
    and a: "allocation_id a \<noteq> []"
  shows "fst (heapstore_mem_record (Some a) (snd (memory_run cs (w, m)))) = ERR_OUT_OF_MEMORY"
proof -
  have keep: "mem_initialized (snd (memory_run cs (w, m))) \<and>
      MEMORY_MAX_ALLOCATIONS \<le> length (allocations (snd (memory_run cs (w, m))))"
    using full calls
  proof (induction cs arbitrary: w m)
    case Nil
    then show ?case by simp
  next
    case (Cons c cs)
    obtain w' m' where step: "memory_step c (w, m) = (w', m')" by (cases "memory_step c (w, m)")
    have "mem_initialized m' \<and> length (allocations m) \<le> length (allocations m')"
      using step Cons.prems
      by (cases c) (auto simp: heapstore_memory_record_pool_def heapstore_memory_update_pool_usage_def
          heapstore_mem_record_def heapstore_memory_free_allocation_def split: option.splits if_splits)
    with Cons show ?case by (simp add: step)
  qed
  then show ?thesis using a by (simp add: heapstore_mem_record_def)
qed

definition demo_allocation :: memory_allocation where
  "demo_allocation = \<lparr>allocation_id = ''a1'', alloc_pool_id = ''p1'', alloc_size = 16, address = 4096,
     allocated_at = 1, freed_at = 0, alloc_status = ''active''\<rparr>"

theorem full_allocation_table_stays_full_witness:
  "\<forall>A w. fst (heapstore_mem_record (Some demo_allocation)
     (snd (memory_run [MFree A 7 (Some ''a1'')]
        (w, memory0\<lparr>mem_initialized := True, allocations := replicate 10000 demo_allocation\<rparr>))))
   = ERR_OUT_OF_MEMORY"
  by (intro allI, rule full_allocation_table_stays_full)
    (simp_all add: MEMORY_MAX_ALLOCATIONS_def demo_allocation_def)

text \<open>
  The statistics are exact: the two 32-bit counters are the numbers of records without
  truncation, and the total is the sum of the pool sizes modulo 2^64.
\<close>

theorem memory_stats_exact:
  assumes "memory_inv m" and "heapstore_memory_get_stats m = (SUCCESS, Some (np, na, tot))"
  shows "unat np = length (pools m) \<and> unat na = length (allocations m)
    \<and> unat tot = (\<Sum>p\<leftarrow>pools m. unat (total_size p)) mod 2 ^ 64"
proof -
  have fold: "foldl (\<lambda>s p. s + total_size p) s ps = s + of_nat (\<Sum>p\<leftarrow>ps. unat (total_size p))" for s ps
    by (induction ps arbitrary: s) simp_all
  have bounds: "length (pools m) < 2 ^ 32" "length (allocations m) < 2 ^ 32"
    using assms(1) by (auto simp: memory_inv_def table_ok_def MEMORY_MAX_POOLS_def
        MEMORY_MAX_ALLOCATIONS_def)
  have "np = of_nat (length (pools m))" "na = of_nat (length (allocations m))"
    "tot = of_nat (\<Sum>p\<leftarrow>pools m. unat (total_size p))"
    using assms(2) by (simp_all add: heapstore_memory_get_stats_def fold split: if_splits)
  with bounds show ?thesis by (simp add: unat_of_nat take_bit_eq_mod)
qed

theorem memory_stats_exact_witness:
  "\<exists>np na tot. heapstore_memory_get_stats (memory0\<lparr>mem_initialized := True, pools := [demo_pool]\<rparr>)
       = (SUCCESS, Some (np, na, tot)) \<and> unat np = 1 \<and> unat na = 0 \<and> unat tot = 4096"
proof -
  let ?m = "memory0\<lparr>mem_initialized := True, pools := [demo_pool]\<rparr>"
  have inv: "memory_inv ?m"
    by (simp add: memory_inv_def table_ok_def memory0_def demo_pool_def MEMORY_MAX_POOLS_def)
  obtain np na tot where run: "heapstore_memory_get_stats ?m = (SUCCESS, Some (np, na, tot))"
    by (simp add: heapstore_memory_get_stats_def)
  have "unat np = length (pools ?m) \<and> unat na = length (allocations ?m)
      \<and> unat tot = (\<Sum>p\<leftarrow>pools ?m. unat (total_size p)) mod 2 ^ 64"
    by (rule memory_stats_exact [OF inv run])
  with run show ?thesis by (simp add: demo_pool_def memory0_def)
qed

end
