(* ===== verification/HS_Trace.thy ===== *)
theory HS_Trace
  imports HS_Utils
begin

text \<open>
  The trace store of src/heapstore_trace.c: a buffer of up to 10000 spans, each owning a heap copy
  of its attribute string. The heap is explicit (\<open>mem\<close>): reading or freeing a pointer that is not
  live is the value None of an operation. The operations, the flush to a file, the export to a
  JSON string in a growing buffer, and below them the list of span values that the buffer stands
  for.
\<close>

section \<open>Heap strings\<close>

record mem =
  allocs :: allocator
  cells :: "nat \<Rightarrow> string option"

text \<open>AIRY_STRDUP of a live string; its inner option is NULL when memory runs out.\<close>

definition airy_strdup :: "nat \<Rightarrow> mem \<Rightarrow> (nat option \<times> mem) option" where
  "airy_strdup p h =
     (case cells h p of
        None \<Rightarrow> None
      | Some s \<Rightarrow>
          (case airy_alloc (allocs h) of
             (None, al) \<Rightarrow> Some (None, h\<lparr>allocs := al\<rparr>)
           | (Some a, al) \<Rightarrow> Some (Some a, h\<lparr>allocs := al, cells := (cells h)(a \<mapsto> s)\<rparr>)))"

definition airy_free :: "nat option \<Rightarrow> mem \<Rightarrow> mem option" where
  "airy_free p h =
     (case p of
        None \<Rightarrow> Some h
      | Some a \<Rightarrow> if cells h a = None then None else Some (h\<lparr>cells := (cells h)(a := None)\<rparr>))"

section \<open>Spans and the module state\<close>

record span =
  trace_id :: string
  span_id :: string
  parent_span_id :: string
  span_name :: string
  kind :: string
  start_time_ns :: u64
  end_time_ns :: u64
  service_name :: string
  status :: string
  attributes :: "nat option"
  attribute_count :: size_t

record exporter_config =
  enabled :: bool
  export_path :: string
  batch_size :: size_t
  export_interval_sec :: u32
  export_format :: string

definition TRACE_MAX_SPANS :: nat where "TRACE_MAX_SPANS = 10000"

text \<open>
  \<open>span_buffer\<close> is None while the pointer is NULL, otherwise its used prefix, whose length is
  s_span_count; slots behind the prefix are never read.
\<close>

record trace =
  tr_initialized :: bool
  trace_path :: string
  span_buffer :: "span list option"
  exporter :: exporter_config

definition spans_of :: "trace \<Rightarrow> span list" where
  "spans_of t = (case span_buffer t of None \<Rightarrow> [] | Some ss \<Rightarrow> ss)"

definition heapstore_trace_init ::
  "airy \<Rightarrow> string \<Rightarrow> os \<times> mem \<times> trace \<Rightarrow> hs_error \<times> os \<times> mem \<times> trace" where
  "heapstore_trace_init A root = (\<lambda>(w, h, t).
     if tr_initialized t then (SUCCESS, w, h, t)
     else
       let path = strncpy_term A (snprintf_buf 512 (root @ ''/traces'')) 512;
           t1 = t\<lparr>trace_path := path\<rparr>;
           w1 = snd (heapstore_dir_ensure A (Some path) w);
           w2 = snd (heapstore_dir_ensure A (Some (snprintf_buf 512 (path @ ''/spans''))) w1)
       in case airy_alloc (allocs h) of
            (None, al) \<Rightarrow> (ERR_OUT_OF_MEMORY, w2, h\<lparr>allocs := al\<rparr>, t1\<lparr>span_buffer := None\<rparr>)
          | (Some _, al) \<Rightarrow>
              (SUCCESS, w2, h\<lparr>allocs := al\<rparr>,
               t1\<lparr>span_buffer := Some [],
                  exporter := \<lparr>enabled = False, export_path = [], batch_size = 100,
                    export_interval_sec = 30, export_format = strncpy_term A ''json'' 16\<rparr>,
                  tr_initialized := True\<rparr>))"

text \<open>The loop that frees the attributes of an array of spans.\<close>

fun free_attributes :: "span list \<Rightarrow> mem \<Rightarrow> mem option" where
  "free_attributes [] h = Some h"
| "free_attributes (s # ss) h =
     (case airy_free (attributes s) h of
        None \<Rightarrow> None
      | Some h' \<Rightarrow> free_attributes ss h')"

definition heapstore_trace_shutdown :: "mem \<times> trace \<Rightarrow> (mem \<times> trace) option" where
  "heapstore_trace_shutdown = (\<lambda>(h, t).
     if \<not> tr_initialized t then Some (h, t)
     else
       let t' = t\<lparr>span_buffer := None, tr_initialized := False\<rparr>
       in case free_attributes (spans_of t) h of
            None \<Rightarrow> None
          | Some h' \<Rightarrow> Some (h', t'))"

section \<open>Writing\<close>

definition heapstore_trace_write_span ::
  "span option \<Rightarrow> mem \<times> trace \<Rightarrow> (hs_error \<times> mem \<times> trace) option" where
  "heapstore_trace_write_span span = (\<lambda>(h, t).
     if \<not> tr_initialized t then Some (ERR_NOT_INITIALIZED, h, t)
     else case span of
       None \<Rightarrow> Some (ERR_INVALID_PARAM, h, t)
     | Some s \<Rightarrow>
         if span_id s = [] \<or> trace_id s = [] then Some (ERR_INVALID_PARAM, h, t)
         else if TRACE_MAX_SPANS \<le> length (spans_of t) then Some (ERR_OUT_OF_MEMORY, h, t)
         else case attributes s of
           None \<Rightarrow> Some (SUCCESS, h, t\<lparr>span_buffer := Some (spans_of t @ [s])\<rparr>)
         | Some p \<Rightarrow>
             (case airy_strdup p h of
                None \<Rightarrow> None
              | Some (None, h') \<Rightarrow> Some (ERR_OUT_OF_MEMORY, h', t)
              | Some (Some a, h') \<Rightarrow>
                  Some (SUCCESS, h', t\<lparr>span_buffer := Some (spans_of t @ [s\<lparr>attributes := Some a\<rparr>])\<rparr>)))"

text \<open>
  The copying loop of the batch write: \<open>copied\<close> are the slots filled so far. A failing copy frees
  them again, and the result is None; a success returns the filled slots.
\<close>

fun batch_copy :: "span list \<Rightarrow> span list \<Rightarrow> mem \<Rightarrow> (span list option \<times> mem) option" where
  "batch_copy copied [] h = Some (Some copied, h)"
| "batch_copy copied (s # ss) h =
     (case attributes s of
        None \<Rightarrow> batch_copy (copied @ [s]) ss h
      | Some p \<Rightarrow>
          (case airy_strdup p h of
             None \<Rightarrow> None
           | Some (None, h') \<Rightarrow>
               (case free_attributes copied h' of
                  None \<Rightarrow> None
                | Some h'' \<Rightarrow> Some (None, h''))
           | Some (Some a, h') \<Rightarrow> batch_copy (copied @ [s\<lparr>attributes := Some a\<rparr>]) ss h'))"

text \<open>
  \<open>spans\<close> is the caller's array; asking for more elements than it has, or writing past the end of
  the span buffer, would be undefined.
\<close>

definition heapstore_trace_write_spans_batch ::
  "span list option \<Rightarrow> size_t \<Rightarrow> mem \<times> trace \<Rightarrow> (hs_error \<times> mem \<times> trace) option" where
  "heapstore_trace_write_spans_batch spans count = (\<lambda>(h, t).
     if \<not> tr_initialized t then Some (ERR_NOT_INITIALIZED, h, t)
     else case spans of
       None \<Rightarrow> Some (ERR_INVALID_PARAM, h, t)
     | Some ss \<Rightarrow>
         if count = 0 then Some (ERR_INVALID_PARAM, h, t)
         else if of_nat TRACE_MAX_SPANS < of_nat (length (spans_of t)) + count
         then Some (ERR_OUT_OF_MEMORY, h, t)
         else if length ss < unat count \<or> TRACE_MAX_SPANS < length (spans_of t) + unat count then None
         else case batch_copy [] (take (unat count) ss) h of
           None \<Rightarrow> None
         | Some (None, h') \<Rightarrow> Some (ERR_OUT_OF_MEMORY, h', t)
         | Some (Some copied, h') \<Rightarrow>
             Some (SUCCESS, h', t\<lparr>span_buffer := Some (spans_of t @ copied)\<rparr>))"

section \<open>Queries\<close>

definition span_match_trace :: "string \<Rightarrow> span \<Rightarrow> bool" where
  "span_match_trace tid s \<longleftrightarrow> trace_id s = tid"

definition span_match_time :: "u64 \<times> u64 \<Rightarrow> span \<Rightarrow> bool" where
  "span_match_time = (\<lambda>(start_ns, end_ns) s. start_ns \<le> start_time_ns s \<and> end_time_ns s \<le> end_ns)"

fun collect_loop :: "(span \<Rightarrow> bool) \<Rightarrow> span list \<Rightarrow> span list \<Rightarrow> mem \<Rightarrow> (span list option \<times> mem) option" where
  "collect_loop match result [] h = Some (Some result, h)"
| "collect_loop match result (s # ss) h =
     (if \<not> match s then collect_loop match result ss h
      else case attributes s of
        None \<Rightarrow> collect_loop match (result @ [s]) ss h
      | Some p \<Rightarrow>
          (case airy_strdup p h of
             None \<Rightarrow> None
           | Some (None, h') \<Rightarrow>
               (case free_attributes result h' of
                  None \<Rightarrow> None
                | Some h'' \<Rightarrow> Some (None, h''))
           | Some (Some a, h') \<Rightarrow> collect_loop match (result @ [s\<lparr>attributes := Some a\<rparr>]) ss h'))"

text \<open>The output is the array the caller receives, None for NULL.\<close>

definition spans_collect ::
  "(span \<Rightarrow> bool) \<Rightarrow> span list \<Rightarrow> mem \<Rightarrow> (hs_error \<times> span list option \<times> mem) option" where
  "spans_collect match buffer h =
     (if filter match buffer = [] then Some (ERR_NOT_FOUND, None, h)
      else case airy_alloc (allocs h) of
        (None, al) \<Rightarrow> Some (ERR_OUT_OF_MEMORY, None, h\<lparr>allocs := al\<rparr>)
      | (Some _, al) \<Rightarrow>
          (case collect_loop match [] buffer (h\<lparr>allocs := al\<rparr>) of
             None \<Rightarrow> None
           | Some (None, h') \<Rightarrow> Some (ERR_OUT_OF_MEMORY, None, h')
           | Some (Some result, h') \<Rightarrow> Some (SUCCESS, Some result, h')))"

text \<open>\<open>out\<close>: are both output pointers given.\<close>

definition heapstore_trace_query_by_trace ::
  "string option \<Rightarrow> bool \<Rightarrow> mem \<times> trace \<Rightarrow> (hs_error \<times> span list option \<times> mem) option" where
  "heapstore_trace_query_by_trace tid out = (\<lambda>(h, t).
     if \<not> tr_initialized t then Some (ERR_NOT_INITIALIZED, None, h)
     else case tid of
       None \<Rightarrow> Some (ERR_INVALID_PARAM, None, h)
     | Some i \<Rightarrow>
         if \<not> out then Some (ERR_INVALID_PARAM, None, h)
         else spans_collect (span_match_trace i) (spans_of t) h)"

definition heapstore_trace_query_by_time_range ::
  "u64 \<Rightarrow> u64 \<Rightarrow> bool \<Rightarrow> mem \<times> trace \<Rightarrow> (hs_error \<times> span list option \<times> mem) option" where
  "heapstore_trace_query_by_time_range start_time end_time out = (\<lambda>(h, t).
     if \<not> tr_initialized t then Some (ERR_NOT_INITIALIZED, None, h)
     else if \<not> out then Some (ERR_INVALID_PARAM, None, h)
     else spans_collect (span_match_time (start_time, end_time)) (spans_of t) h)"

definition heapstore_trace_free_spans :: "span list option \<Rightarrow> mem \<Rightarrow> mem option" where
  "heapstore_trace_free_spans spans h =
     (case spans of None \<Rightarrow> Some h | Some ss \<Rightarrow> free_attributes ss h)"

definition heapstore_trace_config_exporter :: "exporter_config option \<Rightarrow> trace \<Rightarrow> hs_error \<times> trace" where
  "heapstore_trace_config_exporter manager t =
     (if \<not> tr_initialized t then (ERR_NOT_INITIALIZED, t)
      else case manager of
        None \<Rightarrow> (ERR_INVALID_PARAM, t)
      | Some cfg \<Rightarrow> (SUCCESS, t\<lparr>exporter := cfg\<rparr>))"

section \<open>Flush to a file\<close>

definition quoted :: "string \<Rightarrow> string" where
  "quoted s = CHR 0x22 # s @ [CHR 0x22]"

definition line :: "string \<Rightarrow> string" where
  "line s = s @ [CHR 0x0A]"

definition json_field :: "string \<Rightarrow> string \<Rightarrow> string" where
  "json_field k v = quoted k @ '': '' @ v"

text \<open>What the loop of the flush writes for one span; every line passes through \<open>char _buf[512]\<close>.\<close>

definition flush_span :: "bool \<Rightarrow> span \<Rightarrow> string" where
  "flush_span is_last s =
     line ''    {''
     @ snprintf_buf 512 (line (''      '' @ json_field ''trace_id'' (quoted (trace_id s)) @ '',''))
     @ snprintf_buf 512 (line (''      '' @ json_field ''span_id'' (quoted (span_id s)) @ '',''))
     @ snprintf_buf 512 (line (''      '' @ json_field ''name'' (quoted (span_name s)) @ '',''))
     @ snprintf_buf 512 (line (''      '' @ json_field ''start_time_ns'' (show_word (start_time_ns s)) @ '',''))
     @ snprintf_buf 512 (line (''      '' @ json_field ''end_time_ns'' (show_word (end_time_ns s))))
     @ snprintf_buf 512 (line (''    }'' @ (if is_last then [] else '','')))"

fun flush_spans :: "span list \<Rightarrow> string" where
  "flush_spans [] = []"
| "flush_spans (s # ss) = flush_span (ss = []) s @ flush_spans ss"

definition flush_json :: "span list \<Rightarrow> string" where
  "flush_json ss = line ''{'' @ line (''  '' @ json_field ''spans'' ''['') @ flush_spans ss
     @ line ''  ]'' @ line ''}''"

definition flush_path :: "os \<Rightarrow> trace \<Rightarrow> string" where
  "flush_path w t = snprintf_buf 512 (trace_path t @ ''/spans/''
     @ snprintf_buf 256 (strftime w ''spans_%Y%m%d_%H%M%S.json'' (clock w)))"

text \<open>The flush empties the buffer and leaves the attribute copies where they are.\<close>

definition heapstore_trace_flush :: "os \<times> trace \<Rightarrow> hs_error \<times> os \<times> trace" where
  "heapstore_trace_flush = (\<lambda>(w, t).
     if \<not> tr_initialized t then (ERR_NOT_INITIALIZED, w, t)
     else if spans_of t = [] then (SUCCESS, w, t)
     else case fopen_w w (flush_path w t) of
       (None, w') \<Rightarrow> (ERR_FILE_OPEN_FAILED, w', t)
     | (Some fp, w') \<Rightarrow>
         (SUCCESS, fputs (flush_json (spans_of t)) fp w', t\<lparr>span_buffer := Some []\<rparr>))"

section \<open>Statistics, retention, health\<close>

text \<open>\<open>sizeof(heapstore_span_t)\<close> on the 64-bit targets of the code.\<close>

definition sizeof_span :: u64 where "sizeof_span = 448"

text \<open>Total, pending and size, for the callers that give all three pointers.\<close>

definition heapstore_trace_get_stats :: "trace \<Rightarrow> hs_error \<times> (u64 \<times> u64 \<times> u64) option" where
  "heapstore_trace_get_stats t =
     (if \<not> tr_initialized t then (ERR_NOT_INITIALIZED, None)
      else (SUCCESS, Some (of_nat (length (spans_of t)), of_nat (length (spans_of t)),
              of_nat (length (spans_of t)) * sizeof_span)))"

definition heapstore_trace_cleanup ::
  "int \<Rightarrow> u64 option \<Rightarrow> os \<times> trace \<Rightarrow> hs_error \<times> u64 option \<times> os" where
  "heapstore_trace_cleanup days freed = (\<lambda>(w, t).
     case heapstore_pre_clean (tr_initialized t) days freed w of
       (Inl st, freed') \<Rightarrow> (st, freed', w)
     | (Inr cutoff, freed') \<Rightarrow>
         (case heapstore_dir_clean (Some (snprintf_buf 512 (trace_path t @ ''/spans''))) cutoff freed' w of
            (_, freed'', w') \<Rightarrow> (SUCCESS, freed'', w')))"

definition heapstore_trace_is_healthy :: "trace \<Rightarrow> bool" where
  "heapstore_trace_is_healthy t \<longleftrightarrow> tr_initialized t \<and> span_buffer t \<noteq> None"

section \<open>Export to a JSON string\<close>

text \<open>The escaping loop with its two bounds; \<open>acc\<close> is escaped_name up to name_idx.\<close>

fun escape_loop :: "string \<Rightarrow> nat \<Rightarrow> string \<Rightarrow> string" where
  "escape_loop [] j acc = acc"
| "escape_loop (c # cs) j acc =
     (if j < 127 \<and> length acc < 255
      then escape_loop cs (Suc j)
             (acc @ (if c = CHR 0x22 \<or> c = CHR 0x5C then [CHR 0x5C, c] else [c]))
      else acc)"

definition export_span :: "bool \<Rightarrow> bool \<Rightarrow> span \<Rightarrow> string" where
  "export_span include_events is_last s =
     line ''  {''
     @ line (''    '' @ json_field ''traceId'' (quoted (trace_id s)) @ '','')
     @ line (''    '' @ json_field ''spanId'' (quoted (span_id s)) @ '','')
     @ line (''    '' @ json_field ''parentSpanId'' (quoted (parent_span_id s)) @ '','')
     @ line (''    '' @ json_field ''name'' (quoted (escape_loop (span_name s) 0 [])) @ '','')
     @ line (''    '' @ json_field ''startTimeNs'' (show_word (start_time_ns s)) @ '','')
     @ line (''    '' @ json_field ''endTimeNs'' (show_word (end_time_ns s)) @ '','')
     @ line (''    '' @ json_field ''status'' (quoted (status s)) @ '','')
     @ line (''    '' @ json_field ''attributeCount'' (show_word (attribute_count s))
         @ (if include_events then line '','' @ ''    '' @ json_field ''events'' ''[]'' else []))
     @ line (''  }'' @ (if is_last then [] else '',''))"

text \<open>
  The growing buffer: the text before its first NUL, whether an snprintf was truncated (its NUL then
  hides everything written later), and the variables pos and estimated_size. Both stay far below
  2^64 (10000 spans of 768 bytes, doubled at most 23 times), so they are natural numbers here.
  \<open>json_put\<close> is \<open>pos += snprintf(json_buffer + pos, estimated_size - pos, ...)\<close>; with pos past the end
  the size argument would wrap and the write leave the buffer.
\<close>

record json_buf =
  visible :: string
  hidden :: bool
  pos :: nat
  estimated_size :: nat

definition json_put :: "string \<Rightarrow> json_buf \<Rightarrow> json_buf option" where
  "json_put s b =
     (if estimated_size b < pos b then None
      else Some (b\<lparr>visible := (if hidden b then visible b
                              else visible b @ take (estimated_size b - pos b - 1) s),
                  hidden := (hidden b \<or> estimated_size b - pos b \<le> length s),
                  pos := pos b + length s\<rparr>))"

fun export_loop ::
  "bool \<Rightarrow> span list \<Rightarrow> json_buf \<Rightarrow> allocator \<Rightarrow> (json_buf option \<times> allocator) option" where
  "export_loop ev [] b al = Some (Some b, al)"
| "export_loop ev (s # ss) b al =
     (case json_put (export_span ev (ss = []) s) b of
        None \<Rightarrow> None
      | Some b1 \<Rightarrow>
          if estimated_size b1 - 512 \<le> pos b1
          then (case airy_alloc al of
                  (None, al') \<Rightarrow> Some (None, al')
                | (Some _, al') \<Rightarrow> export_loop ev ss (b1\<lparr>estimated_size := estimated_size b1 * 2\<rparr>) al')
          else export_loop ev ss b1 al)"

definition heapstore_trace_export_to_json ::
  "bool \<Rightarrow> bool \<Rightarrow> mem \<times> trace \<Rightarrow> (hs_error \<times> string option \<times> mem) option" where
  "heapstore_trace_export_to_json out include_events = (\<lambda>(h, t).
     if \<not> tr_initialized t then Some (ERR_NOT_INITIALIZED, None, h)
     else if \<not> out then Some (ERR_INVALID_PARAM, None, h)
     else if spans_of t = [] then
       (case airy_alloc (allocs h) of
          (None, al) \<Rightarrow> Some (ERR_OUT_OF_MEMORY, None, h\<lparr>allocs := al\<rparr>)
        | (Some _, al) \<Rightarrow> Some (SUCCESS, Some ''[]'', h\<lparr>allocs := al\<rparr>))
     else
       let n = length (spans_of t);
           est = n * 512 + 64 + (if include_events then n * 256 else 0)
       in case airy_alloc (allocs h) of
            (None, al) \<Rightarrow> Some (ERR_OUT_OF_MEMORY, None, h\<lparr>allocs := al\<rparr>)
          | (Some _, al) \<Rightarrow>
              (case json_put (line ''['') \<lparr>visible = [], hidden = False, pos = 0, estimated_size = est\<rparr> of
                 None \<Rightarrow> None
               | Some b \<Rightarrow>
                   (case export_loop include_events (spans_of t) b al of
                      None \<Rightarrow> None
                    | Some (None, al') \<Rightarrow> Some (ERR_OUT_OF_MEMORY, None, h\<lparr>allocs := al'\<rparr>)
                    | Some (Some b', al') \<Rightarrow>
                        (case json_put '']'' b' of
                           None \<Rightarrow> None
                         | Some b'' \<Rightarrow> Some (SUCCESS, Some (visible b''), h\<lparr>allocs := al'\<rparr>)))))"

section \<open>What the buffer stands for\<close>

definition ptrs :: "span list \<Rightarrow> nat list" where
  "ptrs ss = List.map_filter attributes ss"

lemma ptrs_simps [simp]:
  "ptrs [] = []"
  "ptrs (s # ss) = (case attributes s of None \<Rightarrow> ptrs ss | Some a \<Rightarrow> a # ptrs ss)"
  "ptrs (ss @ ss') = ptrs ss @ ptrs ss'"
  by (simp_all add: ptrs_def map_filter_def split: option.splits)

text \<open>A span with its attribute text instead of the pointer.\<close>

definition span_val :: "mem \<Rightarrow> span \<Rightarrow> span \<times> string option" where
  "span_val h s = (s\<lparr>attributes := None\<rparr>, Option.bind (attributes s) (cells h))"

definition heap_ok :: "mem \<Rightarrow> bool" where
  "heap_ok h \<longleftrightarrow> (\<forall>a. cells h a \<noteq> None \<longrightarrow> a < tick (allocs h))"

definition live :: "mem \<Rightarrow> span list \<Rightarrow> bool" where
  "live h ss \<longleftrightarrow> set (ptrs ss) \<subseteq> dom (cells h)"

definition trace_inv :: "mem \<times> trace \<Rightarrow> bool" where
  "trace_inv = (\<lambda>(h, t). heap_ok h \<and> live h (spans_of t) \<and> distinct (ptrs (spans_of t))
     \<and> length (spans_of t) \<le> TRACE_MAX_SPANS
     \<and> (tr_initialized t \<longrightarrow> span_buffer t \<noteq> None) \<and> (\<not> tr_initialized t \<longrightarrow> span_buffer t = None))"

definition values_of :: "mem \<times> trace \<Rightarrow> (span \<times> string option) list" where
  "values_of = (\<lambda>(h, t). map (span_val h) (spans_of t))"

lemma span_val_eq:
  "(\<And>a. attributes s = Some a \<Longrightarrow> cells h' a = cells h a) \<Longrightarrow> span_val h' s = span_val h s"
  by (cases "attributes s") (simp_all add: span_val_def)

lemma span_vals_eq:
  assumes "live h ss" and "\<And>a. a \<in> dom (cells h) \<Longrightarrow> cells h' a = cells h a"
  shows "map (span_val h') ss = map (span_val h) ss"
  using assms
proof (induction ss)
  case (Cons s ss)
  have "span_val h' s = span_val h s"
    using Cons.prems by (intro span_val_eq) (auto simp: live_def)
  moreover have "live h ss" using Cons.prems(1) by (auto simp: live_def split: option.splits)
  ultimately show ?case using Cons by simp
qed simp

lemma strdup_ok:
  assumes "heap_ok h" and "cells h p = Some x"
  shows "\<exists>r h'. airy_strdup p h = Some (r, h') \<and> heap_ok h' \<and>
    (case r of
       None \<Rightarrow> cells h' = cells h \<and> fails (allocs h) (tick (allocs h))
     | Some a \<Rightarrow> a \<notin> dom (cells h) \<and> cells h' = (cells h)(a \<mapsto> x))
    \<and> fails (allocs h') = fails (allocs h) \<and> tick (allocs h) \<le> tick (allocs h')"
  using assms by (auto simp: airy_strdup_def airy_alloc_def heap_ok_def less_SucI)

lemma free_attributes_live:
  assumes "live h ss" and "distinct (ptrs ss)" and "heap_ok h"
  shows "\<exists>h'. free_attributes ss h = Some h' \<and> heap_ok h'
    \<and> cells h' = (cells h) |` (- set (ptrs ss)) \<and> allocs h' = allocs h"
  using assms
proof (induction ss arbitrary: h)
  case Nil
  then show ?case by simp
next
  case (Cons s ss)
  show ?case
  proof (cases "attributes s")
    case None
    with Cons show ?thesis by (simp add: airy_free_def live_def)
  next
    case (Some a)
    let ?h = "h\<lparr>cells := (cells h)(a := None)\<rparr>"
    have "live ?h ss" "distinct (ptrs ss)" "heap_ok ?h" and a: "a \<in> dom (cells h)"
      using Cons.prems Some by (auto simp: live_def heap_ok_def)
    from Cons.IH [OF this(1-3)] obtain h' where h': "free_attributes ss ?h = Some h'" "heap_ok h'"
      "cells h' = (cells ?h) |` (- set (ptrs ss))" "allocs h' = allocs ?h" by blast
    have "cells ?h b = (if b = a then None else cells h b)" for b by simp
    then have "cells h' = (cells h) |` (- set (ptrs (s # ss)))"
      unfolding h'(3) using Some by (simp add: restrict_map_def fun_eq_iff)
    with h' Some a show ?thesis by (auto simp: airy_free_def)
  qed
qed

text \<open>The life cycle: initialisation and shutdown keep the heap sound; the shutdown frees every attribute copy.\<close>

lemma airy_alloc_tick: "tick (allocs h) \<le> tick (snd (airy_alloc (allocs h)))"
  by (simp add: airy_alloc_def)

lemma trace_inv_tick: "trace_inv (h, t) \<Longrightarrow> tick (allocs h) \<le> tick al \<Longrightarrow> trace_inv (h\<lparr>allocs := al\<rparr>, t)"
  unfolding trace_inv_def heap_ok_def live_def by auto

lemma trace_init_outcome:
  assumes "trace_inv (h, t)" and "heapstore_trace_init A root (w, h, t) = (e, w', h', t')"
  shows "trace_inv (h', t') \<and> (e = SUCCESS \<longrightarrow> heapstore_trace_is_healthy t')
    \<and> (e \<noteq> SUCCESS \<longrightarrow> \<not> heapstore_trace_is_healthy t')"
proof (cases "tr_initialized t")
  case True
  with assms show ?thesis by (auto simp: heapstore_trace_init_def heapstore_trace_is_healthy_def trace_inv_def)
next
  case False
  obtain a al where alloc: "airy_alloc (allocs h) = (a, al)" by fastforce
  have ok: "heap_ok (h\<lparr>allocs := al\<rparr>)"
    using assms(1) airy_alloc_tick [of h] alloc by (auto simp: trace_inv_def heap_ok_def)
  show ?thesis
    using assms(2) False alloc ok
    by (cases a) (auto simp: heapstore_trace_init_def heapstore_trace_is_healthy_def trace_inv_def spans_of_def
        live_def Let_def)
qed

lemma trace_shutdown_outcome:
  assumes "trace_inv (h, t)"
  shows "\<exists>h' t'. heapstore_trace_shutdown (h, t) = Some (h', t') \<and> trace_inv (h', t')
    \<and> \<not> heapstore_trace_is_healthy t'"
proof (cases "tr_initialized t")
  case True
  have "live h (spans_of t)" "distinct (ptrs (spans_of t))" "heap_ok h" using assms by (simp_all add: trace_inv_def)
  from free_attributes_live [OF this] True show ?thesis
    by (auto simp: heapstore_trace_shutdown_def trace_inv_def heapstore_trace_is_healthy_def spans_of_def live_def)
next
  case False
  with assms show ?thesis by (auto simp: heapstore_trace_shutdown_def heapstore_trace_is_healthy_def)
qed

interpretation trace_life: guarded_lifecycle "heapstore_trace_init A root"
  "\<lambda>(w, s). map_option (Pair w) (heapstore_trace_shutdown s)" "\<lambda>(w, h, t). heapstore_trace_is_healthy t"
  "\<lambda>(w, s). trace_inv s"
  for A root
proof unfold_locales
  fix s :: "os \<times> mem \<times> trace"
  obtain w h t where s: "s = (w, h, t)" by (metis surj_pair)
  obtain e w' h' t' where run: "heapstore_trace_init A root (w, h, t) = (e, w', h', t')" by (metis surj_pair)
  assume "case s of (w, s) \<Rightarrow> trace_inv s"
  then have inv: "trace_inv (h, t)" by (simp add: s)
  note out = trace_init_outcome [OF inv run]
  show "case snd (heapstore_trace_init A root s) of (w, s) \<Rightarrow> trace_inv s" using out by (simp add: s run)
  show "case snd (heapstore_trace_init A root s) of (w, h, t) \<Rightarrow> heapstore_trace_is_healthy t"
    if "fst (heapstore_trace_init A root s) = SUCCESS" using out that by (simp add: s run)
  show "\<not> (case snd (heapstore_trace_init A root s) of (w, h, t) \<Rightarrow> heapstore_trace_is_healthy t)"
    if "fst (heapstore_trace_init A root s) \<noteq> SUCCESS" using out that by (simp add: s run)
  show "\<exists>s'. (case s of (w, s) \<Rightarrow> map_option (Pair w) (heapstore_trace_shutdown s)) = Some s'
      \<and> (case s' of (w, s) \<Rightarrow> trace_inv s) \<and> \<not> (case s' of (w, h, t) \<Rightarrow> heapstore_trace_is_healthy t)"
    using trace_shutdown_outcome [OF inv] by (auto simp: s)
qed

text \<open>The copying loops: a success returns fresh copies of the same values, a failure frees what it copied.\<close>

definition copied :: "mem \<Rightarrow> span list \<Rightarrow> span list \<Rightarrow> mem \<Rightarrow> bool" where
  "copied h ss new h' \<longleftrightarrow> map (span_val h') new = map (span_val h) ss
     \<and> distinct (ptrs new) \<and> set (ptrs new) \<inter> dom (cells h) = {}
     \<and> dom (cells h') = dom (cells h) \<union> set (ptrs new)
     \<and> (\<forall>a\<in>dom (cells h). cells h' a = cells h a)"

lemma copied_Nil: "copied h [] [] h"
  by (simp add: copied_def)

lemma copied_plain:
  assumes "attributes s = None" and "copied h ss new h'"
  shows "copied h (s # ss) (s # new) h'"
  using assms by (simp add: copied_def span_val_def)

lemma copied_dup:
  assumes s: "attributes s = Some p" "cells h p = Some x"
    and h1: "a \<notin> dom (cells h)" "cells h1 = (cells h)(a \<mapsto> x)"
    and rest: "copied h1 ss new h'" and ss: "live h ss"
  shows "copied h (s # ss) (s\<lparr>attributes := Some a\<rparr> # new) h'"
proof -
  have old: "\<forall>b\<in>dom (cells h). cells h1 b = cells h b" using h1 by auto
  have "map (span_val h1) ss = map (span_val h) ss"
    using ss old by (intro span_vals_eq) auto
  moreover have "cells h' a = Some x"
    using rest h1 by (auto simp: copied_def)
  ultimately show ?thesis
    using assms old by (auto simp: copied_def span_val_def)
qed

definition copy_outcome :: "mem \<Rightarrow> span list \<Rightarrow> span list \<Rightarrow> span list option \<Rightarrow> mem \<Rightarrow> bool" where
  "copy_outcome h copd ss r h' \<longleftrightarrow> heap_ok h' \<and> tick (allocs h) \<le> tick (allocs h') \<and>
     (case r of
        None \<Rightarrow> cells h' = (cells h) |` (- set (ptrs copd)) \<and> (\<exists>t\<ge>tick (allocs h). fails (allocs h) t)
      | Some out \<Rightarrow> \<exists>new. out = copd @ new \<and> copied h ss new h')"

text \<open>The two loops of the code do the same on the spans they select.\<close>

lemma collect_loop_filter: "collect_loop match copd ss h = batch_copy copd (filter match ss) h"
  by (induction match copd ss h rule: collect_loop.induct) (auto split: option.splits)

lemma batch_copy_outcome:
  assumes "heap_ok h" and "live h ss" and "live h copd" and "distinct (ptrs copd)"
  shows "\<exists>r h'. batch_copy copd ss h = Some (r, h') \<and> copy_outcome h copd ss r h'"
  using assms
proof (induction ss arbitrary: copd h)
  case Nil
  then show ?case by (simp add: copy_outcome_def copied_Nil)
next
  case (Cons s ss)
  have ss: "live h ss" using Cons.prems(2) by (auto simp: live_def split: option.splits)
  show ?case
  proof (cases "attributes s")
    case None
    then have "live h (copd @ [s])" "distinct (ptrs (copd @ [s]))"
      using Cons.prems by (auto simp: live_def)
    from Cons.IH [OF Cons.prems(1) ss this] obtain r h' where
      run: "batch_copy (copd @ [s]) ss h = Some (r, h')" and out: "copy_outcome h (copd @ [s]) ss r h'"
      by blast
    have "copy_outcome h copd (s # ss) r h'"
    proof (cases r)
      case None
      with out \<open>attributes s = None\<close> show ?thesis by (simp add: copy_outcome_def)
    next
      case (Some l)
      with out obtain new where "l = (copd @ [s]) @ new" "copied h ss new h'"
        by (auto simp: copy_outcome_def)
      with copied_plain [OF None this(2)] out Some show ?thesis
        by (auto simp: copy_outcome_def intro!: exI [of _ "s # new"])
    qed
    with run None show ?thesis by simp
  next
    case (Some p)
    then obtain x where x: "cells h p = Some x" using Cons.prems(2) by (auto simp: live_def)
    from strdup_ok [OF Cons.prems(1) x] obtain a h1 where
      dup: "airy_strdup p h = Some (a, h1)" and ok1: "heap_ok h1"
      and frame: "fails (allocs h1) = fails (allocs h)" "tick (allocs h) \<le> tick (allocs h1)"
      and res: "case a of None \<Rightarrow> cells h1 = cells h \<and> fails (allocs h) (tick (allocs h))
        | Some a \<Rightarrow> a \<notin> dom (cells h) \<and> cells h1 = (cells h)(a \<mapsto> x)" by blast
    show ?thesis
    proof (cases a)
      case None
      then have same: "cells h1 = cells h" "fails (allocs h) (tick (allocs h))" using res by auto
      then have "live h1 copd" using Cons.prems(3) by (simp add: live_def)
      from free_attributes_live [OF this Cons.prems(4) ok1] obtain h2 where
        "free_attributes copd h1 = Some h2" "heap_ok h2" "cells h2 = (cells h1) |` (- set (ptrs copd))"
        "allocs h2 = allocs h1" by blast
      with dup None Some same frame show ?thesis
        by (auto simp: copy_outcome_def)
    next
      case (Some b)
      then have new: "b \<notin> dom (cells h)" "cells h1 = (cells h)(b \<mapsto> x)" using res by auto
      let ?s = "s\<lparr>attributes := Some b\<rparr>"
      have pre: "live h1 ss" "live h1 (copd @ [?s])" "distinct (ptrs (copd @ [?s]))"
        using Cons.prems ss new by (auto simp: live_def)
      from Cons.IH [OF ok1 pre] obtain r h' where
        run: "batch_copy (copd @ [?s]) ss h1 = Some (r, h')" and out: "copy_outcome h1 (copd @ [?s]) ss r h'"
        by blast
      have "copy_outcome h copd (s # ss) r h'"
      proof (cases r)
        case None
        have "set (ptrs copd) \<subseteq> dom (cells h)" using Cons.prems(3) by (simp add: live_def)
        then have "(cells h1) |` (- set (ptrs (copd @ [?s]))) = (cells h) |` (- set (ptrs copd))"
          using new by (auto simp: restrict_map_def fun_eq_iff)
        with None out frame show ?thesis by (auto simp: copy_outcome_def intro: order_trans)
      next
        case (Some l)
        with out obtain new' where "l = (copd @ [?s]) @ new'" "copied h1 ss new' h'"
          by (auto simp: copy_outcome_def)
        with copied_dup [OF \<open>attributes s = Some p\<close> x new this(2) ss] out Some frame show ?thesis
          by (auto simp: copy_outcome_def intro!: exI [of _ "?s # new'"])
      qed
      with run dup Some \<open>attributes s = Some p\<close> show ?thesis by simp
    qed
  qed
qed

section \<open>Properties of the buffer\<close>

lemma trace_inv_append:
  assumes inv: "trace_inv (h, t)" and "heap_ok h'" and cp: "copied h ss new h'"
    and "length (spans_of t) + length ss \<le> TRACE_MAX_SPANS" and ini: "tr_initialized t"
  shows "trace_inv (h', t\<lparr>span_buffer := Some (spans_of t @ new)\<rparr>)
    \<and> values_of (h', t\<lparr>span_buffer := Some (spans_of t @ new)\<rparr>) = values_of (h, t) @ map (span_val h) ss"
proof -
  have live: "live h (spans_of t)" and disj: "set (ptrs (spans_of t)) \<inter> set (ptrs new) = {}"
    using inv cp by (auto simp: trace_inv_def live_def copied_def)
  have len: "length new = length ss" using cp by (metis copied_def length_map)
  have "map (span_val h') (spans_of t) = map (span_val h) (spans_of t)"
    using live cp by (intro span_vals_eq) (auto simp: copied_def)
  then show ?thesis
    using assms live disj len
    by (auto simp: trace_inv_def values_of_def spans_of_def live_def copied_def)
qed

lemma trace_inv_heap:
  assumes "trace_inv (h, t)" and "heap_ok h'" and "\<forall>a\<in>dom (cells h). cells h' a = cells h a"
  shows "trace_inv (h', t) \<and> values_of (h', t) = values_of (h, t)"
proof -
  have live: "live h (spans_of t)" using assms(1) by (simp add: trace_inv_def)
  then have "map (span_val h') (spans_of t) = map (span_val h) (spans_of t)"
    using assms(3) by (intro span_vals_eq) auto
  moreover have "live h' (spans_of t)" using live assms(3) by (auto simp: live_def domIff subset_iff)
  ultimately show ?thesis using assms(1,2) by (simp add: trace_inv_def values_of_def)
qed

lemma batch_count_fits:
  assumes "n \<le> TRACE_MAX_SPANS" and "unat c < 2 ^ 63"
  shows "of_nat TRACE_MAX_SPANS < (of_nat n + c :: size_t) \<longleftrightarrow> TRACE_MAX_SPANS < n + unat c"
proof -
  have "unat (of_nat n + c :: size_t) = n + unat c"
    using assms by (simp add: unat_word_ariths unat_of_nat TRACE_MAX_SPANS_def take_bit_eq_mod)
  then show ?thesis by (simp add: word_less_nat_alt TRACE_MAX_SPANS_def)
qed

text \<open>
  C13. A batch write is atomic and copies: it either appends the values of all the spans and copies
  their attribute strings, or changes neither the buffer nor the heap; it never touches the
  caller's strings, and with memory to spare it succeeds exactly when the batch is not empty and
  fits.
\<close>

theorem batch_write_atomic:
  assumes inv: "trace_inv (h, t)" and live: "live h ss"
    and count: "unat count \<le> length ss" "length ss < 2 ^ 63"
  shows "\<exists>e h' t'. heapstore_trace_write_spans_batch (Some ss) count (h, t) = Some (e, h', t')
    \<and> trace_inv (h', t') \<and> (\<forall>a\<in>dom (cells h). cells h' a = cells h a)
    \<and> (if e = SUCCESS then values_of (h', t') = values_of (h, t) @ map (span_val h) (take (unat count) ss)
       else t' = t \<and> cells h' = cells h)
    \<and> ((\<forall>k\<ge>tick (allocs h). \<not> fails (allocs h) k) \<longrightarrow>
       (e = SUCCESS \<longleftrightarrow> tr_initialized t \<and> 0 < count \<and> length (spans_of t) + unat count \<le> TRACE_MAX_SPANS))"
proof (cases "tr_initialized t \<and> 0 < count \<and> length (spans_of t) + unat count \<le> TRACE_MAX_SPANS")
  case False
  have bnd: "length (spans_of t) \<le> TRACE_MAX_SPANS" using inv by (simp add: trace_inv_def)
  have "heapstore_trace_write_spans_batch (Some ss) count (h, t) = Some (ERR_NOT_INITIALIZED, h, t)
      \<or> heapstore_trace_write_spans_batch (Some ss) count (h, t) = Some (ERR_INVALID_PARAM, h, t)
      \<or> heapstore_trace_write_spans_batch (Some ss) count (h, t) = Some (ERR_OUT_OF_MEMORY, h, t)"
    using False batch_count_fits [OF bnd, of count] count
    by (auto simp: heapstore_trace_write_spans_batch_def word_gt_0)
  with False inv show ?thesis by (elim disjE) simp_all
next
  case True
  let ?ss = "take (unat count) ss"
  have bnd: "length (spans_of t) \<le> TRACE_MAX_SPANS" and heap: "heap_ok h"
    using inv by (simp_all add: trace_inv_def)
  have "ptrs ss = ptrs ?ss @ ptrs (drop (unat count) ss)"
    by (metis append_take_drop_id ptrs_simps(3))
  then have "live h ?ss" using live by (simp add: live_def)
  from batch_copy_outcome [OF heap this, of "[]"] obtain r h' where
    run: "batch_copy [] ?ss h = Some (r, h')" and out: "copy_outcome h [] ?ss r h'"
    by (auto simp: live_def)
  have pass: "heapstore_trace_write_spans_batch (Some ss) count (h, t) =
      (case r of None \<Rightarrow> Some (ERR_OUT_OF_MEMORY, h', t)
       | Some new \<Rightarrow> Some (SUCCESS, h', t\<lparr>span_buffer := Some (spans_of t @ new)\<rparr>))"
    using True batch_count_fits [OF bnd, of count] count run
    by (auto simp: heapstore_trace_write_spans_batch_def word_gt_0 split: option.splits)
  show ?thesis
  proof (cases r)
    case None
    have "cells h' = cells h" using out None by (simp add: copy_outcome_def restrict_map_def)
    moreover have "trace_inv (h', t)"
      using trace_inv_heap [OF inv, of h'] out calculation by (simp add: copy_outcome_def)
    ultimately show ?thesis using None pass out by (auto simp: copy_outcome_def)
  next
    case (Some new)
    then have cp: "copied h ?ss new h'" and "heap_ok h'" using out by (simp_all add: copy_outcome_def)
    from trace_inv_append [OF inv this(2,1)] True count Some pass cp show ?thesis
      by (simp add: copied_def)
  qed
qed

text \<open>One span written is a batch of one, but for the check of its ids and the place of the count check.\<close>

lemma write_span_is_copy:
  assumes "tr_initialized t" and "span_id s \<noteq> []" and "trace_id s \<noteq> []"
    and "length (spans_of t) < TRACE_MAX_SPANS" and "batch_copy [] [s] h = Some (r, h')"
  shows "heapstore_trace_write_span (Some s) (h, t) =
    (case r of None \<Rightarrow> Some (ERR_OUT_OF_MEMORY, h', t)
     | Some new \<Rightarrow> Some (SUCCESS, h', t\<lparr>span_buffer := Some (spans_of t @ new)\<rparr>))"
  using assms by (auto simp: heapstore_trace_write_span_def split: option.splits)

text \<open>
  Writing a span either stores its value with a copy of its attributes of its own, or changes
  nothing; the error tells which check refused it.
\<close>

lemma write_span_stores_copy:
  assumes inv: "trace_inv (h, t)" and live: "live h [s]"
  shows "\<exists>e h' t'. heapstore_trace_write_span (Some s) (h, t) = Some (e, h', t') \<and> trace_inv (h', t')
    \<and> (\<forall>a\<in>dom (cells h). cells h' a = cells h a)
    \<and> (if e = SUCCESS then values_of (h', t') = values_of (h, t) @ [span_val h s] else t' = t \<and> cells h' = cells h)
    \<and> (e = ERR_NOT_INITIALIZED \<longleftrightarrow> \<not> tr_initialized t)
    \<and> (e = ERR_INVALID_PARAM \<longleftrightarrow> tr_initialized t \<and> (span_id s = [] \<or> trace_id s = []))
    \<and> (length (spans_of t) = TRACE_MAX_SPANS \<longrightarrow> e \<noteq> SUCCESS)"
proof (cases "tr_initialized t \<and> span_id s \<noteq> [] \<and> trace_id s \<noteq> [] \<and> length (spans_of t) < TRACE_MAX_SPANS")
  case False
  then show ?thesis using inv by (auto simp: heapstore_trace_write_span_def trace_inv_def)
next
  case True
  have heap: "heap_ok h" using inv by (simp add: trace_inv_def)
  from batch_copy_outcome [OF heap live, of "[]"] obtain r h' where
    run: "batch_copy [] [s] h = Some (r, h')" and out: "copy_outcome h [] [s] r h'"
    by (auto simp: live_def)
  have pass: "heapstore_trace_write_span (Some s) (h, t) =
      (case r of None \<Rightarrow> Some (ERR_OUT_OF_MEMORY, h', t)
       | Some new \<Rightarrow> Some (SUCCESS, h', t\<lparr>span_buffer := Some (spans_of t @ new)\<rparr>))"
    using True run by (intro write_span_is_copy) auto
  show ?thesis
  proof (cases r)
    case None
    have "cells h' = cells h" using out None by (simp add: copy_outcome_def restrict_map_def)
    moreover have "trace_inv (h', t)"
      using trace_inv_heap [OF inv, of h'] out calculation by (simp add: copy_outcome_def)
    ultimately show ?thesis using None pass True by auto
  next
    case (Some new)
    then have cp: "copied h [s] new h'" and "heap_ok h'" using out by (simp_all add: copy_outcome_def)
    from trace_inv_append [OF inv this(2,1)] True Some pass cp show ?thesis
      by (simp add: copied_def)
  qed
qed

section \<open>Properties of the queries\<close>

lemma filter_values:
  assumes "\<And>s. match s = P (s\<lparr>attributes := None\<rparr>)"
  shows "map (span_val h) (filter match ss) = filter (P \<circ> fst) (map (span_val h) ss)"
  by (induction ss) (simp_all add: span_val_def assms)

lemma live_filter: "live h ss \<Longrightarrow> live h (filter P ss)"
  by (induction ss) (auto simp: live_def split: option.splits)

lemma spans_collect_round:
  assumes inv: "trace_inv (h, t)"
  shows "\<exists>e r h'. spans_collect match (spans_of t) h = Some (e, r, h')
    \<and> trace_inv (h', t) \<and> values_of (h', t) = values_of (h, t)
    \<and> (e = ERR_NOT_FOUND \<longleftrightarrow> filter match (spans_of t) = [])
    \<and> (e = SUCCESS \<longleftrightarrow> r \<noteq> None)
    \<and> (\<forall>ss. r = Some ss \<longrightarrow> map (span_val h') ss = map (span_val h) (filter match (spans_of t)))
    \<and> (\<exists>h''. heapstore_trace_free_spans r h' = Some h'' \<and> cells h'' = cells h)"
proof (cases "filter match (spans_of t) = []")
  case True
  then show ?thesis using inv by (simp add: spans_collect_def heapstore_trace_free_spans_def)
next
  case False
  have heap: "heap_ok h" and live: "live h (spans_of t)"
    using inv by (simp_all add: trace_inv_def)
  show ?thesis
  proof (cases "fails (allocs h) (tick (allocs h))")
    case True
    let ?h = "h\<lparr>allocs := (allocs h)\<lparr>tick := Suc (tick (allocs h))\<rparr>\<rparr>"
    have "heap_ok ?h" using heap by (auto simp: heap_ok_def less_SucI)
    then have "trace_inv (?h, t) \<and> values_of (?h, t) = values_of (h, t)"
      using trace_inv_heap [OF inv] by simp
    then show ?thesis using False True
      by (simp add: spans_collect_def airy_alloc_def heapstore_trace_free_spans_def)
  next
    case granted: False
    let ?h = "h\<lparr>allocs := (allocs h)\<lparr>tick := Suc (tick (allocs h))\<rparr>\<rparr>"
    have "heap_ok ?h" "live ?h (filter match (spans_of t))"
      using heap live_filter [OF live, of match] by (auto simp: heap_ok_def less_SucI live_def)
    from batch_copy_outcome [OF this, of "[]"] obtain r h' where
      run: "batch_copy [] (filter match (spans_of t)) ?h = Some (r, h')"
      and out: "copy_outcome ?h [] (filter match (spans_of t)) r h'" by (auto simp: live_def)
    have ok: "heap_ok h'" using out by (simp add: copy_outcome_def)
    have pass: "spans_collect match (spans_of t) h =
        (case r of None \<Rightarrow> Some (ERR_OUT_OF_MEMORY, None, h') | Some ss \<Rightarrow> Some (SUCCESS, Some ss, h'))"
      using False granted run
      by (simp add: spans_collect_def airy_alloc_def collect_loop_filter split: option.splits)
    have vals: "span_val ?h = span_val h" by (simp add: span_val_def fun_eq_iff)
    show ?thesis
    proof (cases r)
      case None
      then have "cells h' = cells h" using out by (simp add: copy_outcome_def restrict_map_def)
      then show ?thesis
        using trace_inv_heap [OF inv ok] None pass False by (simp add: heapstore_trace_free_spans_def)
    next
      case (Some ss)
      then have cp: "copied ?h (filter match (spans_of t)) ss h'" using out by (simp add: copy_outcome_def)
      have own: "live h' ss" "distinct (ptrs ss)" using cp by (auto simp: copied_def live_def)
      from free_attributes_live [OF own ok] obtain h'' where
        free: "free_attributes ss h' = Some h''" "cells h'' = (cells h') |` (- set (ptrs ss))" by blast
      have "(cells h') |` (- set (ptrs ss)) = cells h"
      proof
        fix a
        show "((cells h') |` (- set (ptrs ss))) a = cells h a"
          using cp by (cases "a \<in> dom (cells h)"; cases "a \<in> set (ptrs ss)") (auto simp: copied_def domIff)
      qed
      moreover have "trace_inv (h', t) \<and> values_of (h', t) = values_of (h, t)"
        using trace_inv_heap [OF inv ok] cp by (simp add: copied_def)
      moreover have "map (span_val h') ss = map (span_val h) (filter match (spans_of t))"
        using cp by (simp add: copied_def vals)
      ultimately show ?thesis
        using free pass Some False by (simp add: heapstore_trace_free_spans_def)
    qed
  qed
qed

text \<open>
  A query by trace id returns, as copies of their own, exactly the stored spans of that trace in
  order, reports NOT_FOUND exactly when there is none, and leaves the store alone; freeing its
  result with heapstore_trace_free_spans restores the heap: nothing leaks, nothing is shared.
\<close>

theorem query_by_trace_round_trip:
  assumes inv: "trace_inv (h, t)" and ini: "tr_initialized t"
  shows "\<exists>e r h'. heapstore_trace_query_by_trace (Some tid) True (h, t) = Some (e, r, h')
    \<and> trace_inv (h', t) \<and> values_of (h', t) = values_of (h, t)
    \<and> (e = ERR_NOT_FOUND \<longleftrightarrow> tid \<notin> (\<lambda>v. trace_id (fst v)) ` set (values_of (h, t)))
    \<and> (\<forall>ss. r = Some ss \<longrightarrow> map (span_val h') ss = filter (\<lambda>v. trace_id (fst v) = tid) (values_of (h, t)))
    \<and> (e = SUCCESS \<longleftrightarrow> r \<noteq> None)
    \<and> (\<exists>h''. heapstore_trace_free_spans r h' = Some h'' \<and> cells h'' = cells h)"
proof -
  have vals: "map (span_val h) (filter (span_match_trace tid) (spans_of t))
      = filter (\<lambda>v. trace_id (fst v) = tid) (values_of (h, t))"
    by (subst filter_values [where P = "\<lambda>s. trace_id s = tid"])
      (simp_all add: span_match_trace_def values_of_def o_def)
  have none: "filter (span_match_trace tid) (spans_of t) = [] \<longleftrightarrow>
      tid \<notin> (\<lambda>v. trace_id (fst v)) ` set (values_of (h, t))"
    by (auto simp: filter_empty_conv span_match_trace_def values_of_def span_val_def image_image)
  have eq: "heapstore_trace_query_by_trace (Some tid) True (h, t)
      = spans_collect (span_match_trace tid) (spans_of t) h"
    using ini by (simp add: heapstore_trace_query_by_trace_def)
  from spans_collect_round [OF inv, of "span_match_trace tid"] show ?thesis
    unfolding eq vals none by blast
qed

section \<open>Shutdown and flush\<close>

text \<open>
  Shutdown frees every attribute copy the buffer owns. A flush that stores the spans empties the
  buffer without freeing them: a shutdown afterwards frees nothing, and the copies stay allocated.
\<close>

theorem flush_leaks_attributes:
  assumes inv: "trace_inv (h, t)" and ini: "tr_initialized t" and full: "spans_of t \<noteq> []"
    and flush: "heapstore_trace_flush (w, t) = (SUCCESS, w', t')"
  shows "(\<exists>h2 t2. heapstore_trace_shutdown (h, t) = Some (h2, t2) \<and> \<not> heapstore_trace_is_healthy t2
      \<and> cells h2 = (cells h) |` (- set (ptrs (spans_of t))))
    \<and> (\<exists>t2. heapstore_trace_shutdown (h, t') = Some (h, t2)) \<and> spans_of t' = []"
proof -
  have "live h (spans_of t)" "distinct (ptrs (spans_of t))" "heap_ok h"
    using inv by (simp_all add: trace_inv_def)
  from free_attributes_live [OF this] obtain h2 where
    "free_attributes (spans_of t) h = Some h2" "cells h2 = (cells h) |` (- set (ptrs (spans_of t)))" by blast
  moreover have "spans_of t' = []" "tr_initialized t'"
    using flush ini full
    by (auto simp: heapstore_trace_flush_def spans_of_def split: option.splits prod.splits)
  ultimately show ?thesis
    using ini by (simp add: heapstore_trace_shutdown_def Let_def heapstore_trace_is_healthy_def)
qed

lemma fopen_w_result:
  assumes "fopen_w w p = (Some i, w')"
  shows "path_ino w' p = Some i \<and> content (inodes w' i) = [] \<and> clock w' = clock w
    \<and> strftime w' = strftime w \<and> io_error w' = io_error w
    \<and> (path_ino w p = Some i \<or> path_ino w p = None)"
  using assms
  by (auto simp: fopen_w_def fopen_a_def fresh_file_def path_ino_def map_add_def
      split: option.splits prod.splits if_splits)

text \<open>
  A successful flush of a non-empty buffer leaves, in the file named after the current second,
  exactly the JSON text of the buffered spans, whatever that file held before: a second flush
  within the same second replaces the spans of the first. When the disk refuses the write the
  flush still reports success and drops the spans.
\<close>

theorem flush_file_content:
  assumes "tr_initialized t" and "spans_of t \<noteq> []"
    and "heapstore_trace_flush (w, t) = (e, w', t')"
  shows "(e = ERR_FILE_OPEN_FAILED \<and> t' = t)
    \<or> (e = SUCCESS \<and> spans_of t' = [] \<and> (\<exists>i. path_ino w' (flush_path w t) = Some i
        \<and> content (inodes w' i) = (if io_error w i then [] else flush_json (spans_of t))))"
proof (cases "fst (fopen_w w (flush_path w t))")
  case None
  then show ?thesis
    using assms by (auto simp: heapstore_trace_flush_def split: prod.splits option.splits)
next
  case (Some i)
  then obtain w1 where open_ok: "fopen_w w (flush_path w t) = (Some i, w1)"
    by (metis prod.collapse)
  from fopen_w_result [OF this] assms open_ok show ?thesis
    by (auto simp: heapstore_trace_flush_def spans_of_def)
      (auto simp: fputs_def path_ino_def)
qed

section \<open>Properties of the export\<close>

fun escaped :: "string \<Rightarrow> string" where
  "escaped [] = []"
| "escaped (c # cs) = (if c = CHR 0x22 \<or> c = CHR 0x5C then [CHR 0x5C, c] else [c]) @ escaped cs"

lemma escape_loop_escaped:
  assumes "length cs + j \<le> 127" and "length acc \<le> 2 * j"
  shows "escape_loop cs j acc = acc @ escaped cs"
  using assms by (induction cs arbitrary: j acc) auto

lemma length_escaped: "length (escaped cs) \<le> 2 * length cs"
  by (induction cs) auto

text \<open>
  The escaping loop of the export never cuts a name that fits its field and never leaves its
  256-byte buffer: it yields the whole name, escaped, in at most 254 bytes.
\<close>

lemma escape_loop_complete:
  assumes "length (span_name s) \<le> 127"
  shows "escape_loop (span_name s) 0 [] = escaped (span_name s) \<and> length (escape_loop (span_name s) 0 []) \<le> 254"
  using escape_loop_escaped [of "span_name s" 0 "[]"] length_escaped [of "span_name s"] assms by simp

text \<open>The text the export is meant to produce, and the sizes of the fields of heapstore_span_t.\<close>

fun export_spans :: "bool \<Rightarrow> span list \<Rightarrow> string" where
  "export_spans ev [] = []"
| "export_spans ev (s # ss) = export_span ev (ss = []) s @ export_spans ev ss"

definition export_text :: "bool \<Rightarrow> span list \<Rightarrow> string" where
  "export_text ev ss = line ''['' @ export_spans ev ss @ '']''"

definition fields_fit :: "span \<Rightarrow> bool" where
  "fields_fit s \<longleftrightarrow> length (trace_id s) \<le> 63 \<and> length (span_id s) \<le> 31
     \<and> length (parent_span_id s) \<le> 31 \<and> length (span_name s) \<le> 127 \<and> length (status s) \<le> 31"

lemma escaped_plain: "CHR 0x22 \<notin> set cs \<Longrightarrow> CHR 0x5C \<notin> set cs \<Longrightarrow> escaped cs = cs"
  by (induction cs) auto

lemma length_line [simp]: "length (line s) = Suc (length s)"
  by (simp add: line_def)

lemma length_json_field [simp]: "length (json_field k v) = length k + length v + 4"
  by (simp add: json_field_def quoted_def)

lemma length_quoted [simp]: "length (quoted v) = length v + 2"
  by (simp add: quoted_def)

lemma export_span_fits:
  assumes "fields_fit s" and "CHR 0x22 \<notin> set (span_name s)" and "CHR 0x5C \<notin> set (span_name s)"
  shows "length (export_span False b s) \<le> 512"
proof -
  have "escape_loop (span_name s) 0 [] = span_name s"
    using escape_loop_complete [of s] escaped_plain assms by (simp add: fields_fit_def)
  then show ?thesis
    using assms(1) length_show_u64 [of "start_time_ns s"] length_show_u64 [of "end_time_ns s"]
      length_show_u64 [of "attribute_count s"]
    by (simp add: export_span_def fields_fit_def)
qed

text \<open>Room for one more object of 512 bytes and its NUL.\<close>

definition roomy :: "json_buf \<Rightarrow> bool" where
  "roomy b \<longleftrightarrow> \<not> hidden b \<and> pos b = length (visible b) \<and> pos b + 512 < estimated_size b
     \<and> 576 \<le> estimated_size b"

lemma json_put_roomy:
  assumes "roomy b" and "length s \<le> 512"
  shows "\<exists>b'. json_put s b = Some b' \<and> visible b' = visible b @ s \<and> \<not> hidden b'
    \<and> pos b' = length (visible b') \<and> pos b' < estimated_size b' \<and> estimated_size b' = estimated_size b"
  using assms by (auto simp: json_put_def roomy_def min_def)

lemma export_loop_complete:
  assumes "roomy b" and "\<forall>s\<in>set ss. \<forall>l. length (export_span ev l s) \<le> 512"
  shows "\<exists>r al'. export_loop ev ss b al = Some (r, al') \<and>
    (case r of
       None \<Rightarrow> \<exists>k\<ge>tick al. fails al k
     | Some b' \<Rightarrow> roomy b' \<and> visible b' = visible b @ export_spans ev ss)"
  using assms
proof (induction ss arbitrary: b al)
  case Nil
  then show ?case by simp
next
  case (Cons s ss)
  have "length (export_span ev (ss = []) s) \<le> 512" using Cons.prems(2) by simp
  from json_put_roomy [OF Cons.prems(1) this] obtain b1 where
    put: "json_put (export_span ev (ss = []) s) b = Some b1"
    and b1: "visible b1 = visible b @ export_span ev (ss = []) s" "\<not> hidden b1"
      "pos b1 = length (visible b1)" "pos b1 < estimated_size b1" "estimated_size b1 = estimated_size b" by blast
  have est: "576 \<le> estimated_size b1" using Cons.prems(1) b1(5) by (simp add: roomy_def)
  have small: "\<forall>s\<in>set ss. \<forall>l. length (export_span ev l s) \<le> 512" using Cons.prems(2) by simp
  show ?case
  proof (cases "estimated_size b1 - 512 \<le> pos b1")
    case False
    then have "roomy b1" using b1 est by (simp add: roomy_def)
    from Cons.IH [OF this small, of al] obtain r al' where
      rest: "export_loop ev ss b1 al = Some (r, al')"
      and post: "case r of None \<Rightarrow> \<exists>k\<ge>tick al. fails al k
        | Some b' \<Rightarrow> roomy b' \<and> visible b' = visible b1 @ export_spans ev ss" by blast
    have "export_loop ev (s # ss) b al = Some (r, al')"
      using put False rest by simp
    moreover have "case r of None \<Rightarrow> \<exists>k\<ge>tick al. fails al k
        | Some b' \<Rightarrow> roomy b' \<and> visible b' = visible b @ export_spans ev (s # ss)"
      using post b1(1) by (cases r) auto
    ultimately show ?thesis by blast
  next
    case True
    let ?b = "b1\<lparr>estimated_size := estimated_size b1 * 2\<rparr>"
    let ?al = "al\<lparr>tick := Suc (tick al)\<rparr>"
    show ?thesis
    proof (cases "fails al (tick al)")
      case oom: True
      with put True show ?thesis by (auto simp: airy_alloc_def)
    next
      case granted: False
      have "roomy ?b" using b1 est by (simp add: roomy_def)
      from Cons.IH [OF this small, of ?al] obtain r al' where
        rest: "export_loop ev ss ?b ?al = Some (r, al')"
        and post: "case r of None \<Rightarrow> \<exists>k\<ge>tick ?al. fails ?al k
          | Some b' \<Rightarrow> roomy b' \<and> visible b' = visible ?b @ export_spans ev ss" by blast
      have "export_loop ev (s # ss) b al = Some (r, al')"
        using put True granted rest by (simp add: airy_alloc_def)
      moreover have "case r of None \<Rightarrow> \<exists>k\<ge>tick al. fails al k
          | Some b' \<Rightarrow> roomy b' \<and> visible b' = visible b @ export_spans ev (s # ss)"
        using post b1(1) by (cases r) (auto intro: Suc_leD)
      ultimately show ?thesis by blast
    qed
  qed
qed


text \<open>
  A single span whose object needs more than 573 bytes, which a name full of quotes reaches with
  every field within its size, is cut: the export reports success, but the string it returns is a
  proper prefix of the JSON text that ends before the closing bracket.
\<close>

theorem export_truncates:
  assumes "tr_initialized t" and one: "spans_of t = [s]"
    and long: "573 < length (export_span False True s)" "length (export_span False True s) \<le> 1000"
    and mem: "\<forall>k\<ge>tick (allocs h). \<not> fails (allocs h) k"
  shows "\<exists>h'. heapstore_trace_export_to_json True False (h, t)
      = Some (SUCCESS, Some (take 575 (export_text False [s])), h')
    \<and> length (take 575 (export_text False [s])) < length (export_text False [s])"
proof -
  let ?x = "export_span False True s"
  have ok: "\<not> fails (allocs h) (tick (allocs h))" "\<not> fails (allocs h) (Suc (tick (allocs h)))"
    using mem by auto
  have full: "export_text False [s] = line ''['' @ ?x @ '']''" by (simp add: export_text_def)
  have "take 575 (export_text False [s]) = line ''['' @ take 573 ?x"
    using long(1) unfolding full by simp
  then show ?thesis
    using assms(1) one long ok unfolding full
    by (simp add: heapstore_trace_export_to_json_def airy_alloc_def Let_def json_put_def)
qed

section \<open>Witnesses\<close>

definition demo_mem :: mem where
  "demo_mem = \<lparr>allocs = \<lparr>tick = 2, fails = (\<lambda>_. False)\<rparr>, cells = [0 \<mapsto> ''k=v'', 1 \<mapsto> ''x'']\<rparr>"

definition demo_span :: "nat option \<Rightarrow> span" where
  "demo_span a = \<lparr>trace_id = ''t1'', span_id = ''s1'', parent_span_id = [], span_name = ''op'', kind = ''server'',
     start_time_ns = 5, end_time_ns = 9, service_name = ''svc'', status = ''ok'', attributes = a,
     attribute_count = 1\<rparr>"

definition demo_trace :: "span list \<Rightarrow> trace" where
  "demo_trace ss = \<lparr>tr_initialized = True, trace_path = ''/l'', span_buffer = Some ss,
     exporter = \<lparr>enabled = False, export_path = [], batch_size = 100, export_interval_sec = 30,
       export_format = ''json''\<rparr>\<rparr>"

lemma demo_trace_inv: "trace_inv (demo_mem, demo_trace [demo_span (Some 0)])"
  by (simp add: trace_inv_def demo_mem_def demo_trace_def demo_span_def spans_of_def live_def
      heap_ok_def TRACE_MAX_SPANS_def)

theorem batch_write_atomic_witness:
  "\<exists>h' t'. heapstore_trace_write_spans_batch (Some [demo_span (Some 1), demo_span None]) 2
       (demo_mem, demo_trace [demo_span (Some 0)]) = Some (SUCCESS, h', t')
     \<and> length (values_of (h', t')) = 3"
proof -
  let ?ss = "[demo_span (Some 1), demo_span None]" and ?t = "demo_trace [demo_span (Some 0)]"
  have live: "live demo_mem ?ss" by (simp add: live_def demo_span_def demo_mem_def)
  have count: "unat (2::size_t) \<le> length ?ss" "length ?ss < 2 ^ 63" by simp_all
  obtain e h' t' where run: "heapstore_trace_write_spans_batch (Some ?ss) 2 (demo_mem, ?t) = Some (e, h', t')"
    and vals: "if e = SUCCESS then values_of (h', t') = values_of (demo_mem, ?t)
        @ map (span_val demo_mem) (take (unat (2::size_t)) ?ss) else t' = ?t \<and> cells h' = cells demo_mem"
    and ok: "(\<forall>k\<ge>tick (allocs demo_mem). \<not> fails (allocs demo_mem) k) \<longrightarrow>
       (e = SUCCESS \<longleftrightarrow> tr_initialized ?t \<and> 0 < (2::size_t) \<and> length (spans_of ?t) + unat (2::size_t) \<le> TRACE_MAX_SPANS)"
    using batch_write_atomic [OF demo_trace_inv live count] by blast
  have e: "e = SUCCESS"
    using ok by (simp add: demo_mem_def demo_trace_def spans_of_def TRACE_MAX_SPANS_def)
  have "length (values_of (h', t')) = 3"
    using vals e by (simp add: values_of_def demo_trace_def spans_of_def)
  with run e show ?thesis by blast
qed

theorem query_by_trace_round_trip_witness:
  "\<exists>e r h' h''. heapstore_trace_query_by_trace (Some ''t1'') True (demo_mem, demo_trace [demo_span (Some 0)])
     = Some (e, r, h') \<and> e \<noteq> ERR_NOT_FOUND \<and> heapstore_trace_free_spans r h' = Some h'' \<and> cells h'' = cells demo_mem"
proof -
  have ini: "tr_initialized (demo_trace [demo_span (Some 0)])" by (simp add: demo_trace_def)
  have "''t1'' \<in> (\<lambda>v. trace_id (fst v)) ` set (values_of (demo_mem, demo_trace [demo_span (Some 0)]))"
    by (simp add: values_of_def demo_trace_def demo_span_def spans_of_def span_val_def)
  with query_by_trace_round_trip [OF demo_trace_inv ini, of "''t1''"] show ?thesis by blast
qed

lemma demo_flush:
  "\<exists>w'. heapstore_trace_flush (demo_os\<lparr>entries := entries demo_os @ [(''/l/spans'', 0)]\<rparr>, demo_trace [demo_span (Some 0)])
     = (SUCCESS, w', demo_trace [])"
  by (simp add: heapstore_trace_flush_def demo_trace_def spans_of_def fopen_w_def fopen_a_def flush_path_def
      demo_os_def path_ino_def dir_exists_def dirname_def snprintf_buf_def)

theorem flush_leaks_attributes_witness:
  "\<exists>t2. heapstore_trace_shutdown (demo_mem, demo_trace []) = Some (demo_mem, t2) \<and> cells demo_mem 0 = Some ''k=v''"
proof -
  obtain w' where flush: "heapstore_trace_flush (demo_os\<lparr>entries := entries demo_os @ [(''/l/spans'', 0)]\<rparr>,
      demo_trace [demo_span (Some 0)]) = (SUCCESS, w', demo_trace [])"
    using demo_flush by blast
  have "tr_initialized (demo_trace [demo_span (Some 0)])" "spans_of (demo_trace [demo_span (Some 0)]) \<noteq> []"
    by (simp_all add: demo_trace_def spans_of_def)
  from flush_leaks_attributes [OF demo_trace_inv this flush] show ?thesis
    by (simp add: demo_mem_def)
qed

theorem flush_file_content_witness:
  "\<exists>w' i. heapstore_trace_flush (demo_os\<lparr>entries := entries demo_os @ [(''/l/spans'', 0)]\<rparr>, demo_trace [demo_span (Some 0)])
     = (SUCCESS, w', demo_trace []) \<and> content (inodes w' i) = flush_json [demo_span (Some 0)]"
proof -
  let ?w = "demo_os\<lparr>entries := entries demo_os @ [(''/l/spans'', 0)]\<rparr>"
  obtain w' where flush: "heapstore_trace_flush (?w, demo_trace [demo_span (Some 0)]) = (SUCCESS, w', demo_trace [])"
    using demo_flush by blast
  have "tr_initialized (demo_trace [demo_span (Some 0)])" "spans_of (demo_trace [demo_span (Some 0)]) \<noteq> []"
    by (simp_all add: demo_trace_def spans_of_def)
  moreover have "SUCCESS \<noteq> ERR_FILE_OPEN_FAILED" by simp
  ultimately have
    "\<exists>i. content (inodes w' i) = (if io_error ?w i then [] else flush_json (spans_of (demo_trace [demo_span (Some 0)])))"
    using flush_file_content [OF _ _ flush] by blast
  moreover have "io_error ?w i = False" for i by (simp add: demo_os_def)
  moreover have "spans_of (demo_trace [demo_span (Some 0)]) = [demo_span (Some 0)]"
    by (simp add: demo_trace_def spans_of_def)
  ultimately show ?thesis using flush by auto
qed


text \<open>A span whose fields all fit, with a name of 127 quotes.\<close>

definition wide_span :: span where
  "wide_span = (demo_span None)\<lparr>trace_id := replicate 63 CHR ''t'', span_id := replicate 31 CHR ''s'',
     parent_span_id := replicate 31 CHR ''p'', span_name := replicate 127 CHR 0x22,
     status := replicate 31 CHR ''k''\<rparr>"

lemma escaped_quotes: "length (escaped (replicate n CHR 0x22)) = 2 * n"
  by (induction n) simp_all

theorem export_truncates_witness:
  "fields_fit wide_span \<and> (\<exists>h'. heapstore_trace_export_to_json True False (demo_mem, demo_trace [wide_span])
     = Some (SUCCESS, Some (take 575 (export_text False [wide_span])), h'))"
proof -
  have fit: "fields_fit wide_span" by (simp add: fields_fit_def wide_span_def demo_span_def)
  have name: "length (escape_loop (span_name wide_span) 0 []) = 254"
    using escape_loop_complete [of wide_span] fit
    by (simp add: fields_fit_def) (simp add: wide_span_def escaped_quotes)
  have len: "573 < length (export_span False True wide_span) \<and> length (export_span False True wide_span) \<le> 1000"
    using name length_show_u64 [of "start_time_ns wide_span"] length_show_u64 [of "end_time_ns wide_span"]
      length_show_u64 [of "attribute_count wide_span"]
    by (simp add: export_span_def) (simp add: wide_span_def demo_span_def)
  have "tr_initialized (demo_trace [wide_span])" "spans_of (demo_trace [wide_span]) = [wide_span]"
    by (simp_all add: demo_trace_def spans_of_def)
  from export_truncates [OF this, of demo_mem] len fit show ?thesis
    by (simp add: demo_mem_def)
qed

end
