(* ===== verification/HS_Log.thy ===== *)
theory HS_Log
  imports HS_Utils
begin

text \<open>
  The log subsystem of src/heapstore_log.c: the level filter, the main log and one log per service,
  rotation, retention, file information and statistics. A FILE pointer is the inode number of its
  open stream, so a stream survives the rename or the unlink of its path. The state is a record of
  the module's static variables.
\<close>

section \<open>Levels and state\<close>

type_synonym log_level = u32

definition LOG_DEBUG :: log_level where "LOG_DEBUG = 0"
definition LOG_INFO :: log_level where "LOG_INFO = 1"
definition LOG_WARN :: log_level where "LOG_WARN = 2"
definition LOG_ERROR :: log_level where "LOG_ERROR = 3"
definition LOG_FATAL :: log_level where "LOG_FATAL = 4"

lemmas log_levels = LOG_DEBUG_def LOG_INFO_def LOG_WARN_def LOG_ERROR_def LOG_FATAL_def

definition LOG_MAX_SERVICES :: nat where "LOG_MAX_SERVICES = 32"

record log =
  s_log_level :: log_level
  main_log_file :: "nat option"
  log_root_path :: string
  log_initialized :: bool
  current_date :: string
  service_logs :: "(string \<times> nat) list"

definition log0 :: log where
  "log0 = \<lparr>s_log_level = LOG_INFO, main_log_file = None, log_root_path = [], log_initialized = False,
     current_date = [], service_logs = []\<rparr>"

definition level_to_string :: "log_level \<Rightarrow> string" where
  "level_to_string level =
     (if level = LOG_ERROR then ''ERROR''
      else if level = LOG_WARN then ''WARN''
      else if level = LOG_INFO then ''INFO''
      else if level = LOG_DEBUG then ''DEBUG''
      else ''UNKNOWN'')"

section \<open>Paths and files\<close>

definition get_log_base_path :: "airy \<Rightarrow> string" where
  "get_log_base_path A =
     (case env_root A of
        Some env \<Rightarrow> if env \<noteq> [] then snprintf_buf 512 (env @ ''/logs'')
                    else snprintf_buf 512 (data_dir A @ ''/agentrt/heapstore/logs'')
      | None \<Rightarrow> snprintf_buf 512 (data_dir A @ ''/agentrt/heapstore/logs''))"

definition main_log_path :: "airy \<Rightarrow> string" where
  "main_log_path A = snprintf_buf 512 (get_log_base_path A @ ''/kernel/agentrt.log'')"

definition service_log_path :: "airy \<Rightarrow> string \<Rightarrow> string" where
  "service_log_path A safe_service =
     snprintf_buf 512 (get_log_base_path A @ ''/services/'' @ safe_service @ ''.log'')"

definition update_current_date :: "os \<Rightarrow> log \<Rightarrow> log" where
  "update_current_date w g = g\<lparr>current_date := snprintf_buf 16 (strftime w ''%Y-%m-%d'' (clock w))\<rparr>"

definition get_main_log_file :: "airy \<Rightarrow> os \<times> log \<Rightarrow> nat option \<times> os \<times> log" where
  "get_main_log_file A = (\<lambda>(w, g).
     if \<not> log_initialized g then (None, w, g)
     else
       let g1 = update_current_date w g in
       case main_log_file g1 of
         Some fp \<Rightarrow> (Some fp, w, g1)
       | None \<Rightarrow>
           let g2 = g1\<lparr>log_root_path := strncpy_term A (get_log_base_path A) 512\<rparr>;
               w1 = snd (heapstore_dir_ensure A (Some (snprintf_buf 512 (get_log_base_path A @ ''/kernel''))) w)
           in (case fopen_a w1 (main_log_path A) of
                 (fp, w2) \<Rightarrow> (fp, w2, g2\<lparr>main_log_file := fp\<rparr>)))"

text \<open>The search in the table and the opening of a new service log; None as table entry never occurs.\<close>

definition get_service_log_file :: "airy \<Rightarrow> string option \<Rightarrow> os \<times> log \<Rightarrow> nat option \<times> os \<times> log" where
  "get_service_log_file A service = (\<lambda>(w, g).
     case service of
       None \<Rightarrow> get_main_log_file A (w, g)
     | Some sv \<Rightarrow>
         if sv = [] then get_main_log_file A (w, g)
         else case heapstore_path_clean False (Some sv) 64 of
           None \<Rightarrow> (None, w, g)
         | Some safe_service \<Rightarrow>
             (case map_of (service_logs g) safe_service of
                Some fp \<Rightarrow> (Some fp, w, g)
              | None \<Rightarrow>
                  if length (service_logs g) < LOG_MAX_SERVICES
                  then
                    let w1 = snd (heapstore_dir_ensure A
                               (Some (snprintf_buf 512 (get_log_base_path A @ ''/services''))) w)
                    in (case fopen_a w1 (service_log_path A safe_service) of
                          (None, w2) \<Rightarrow> (None, w2, g)
                        | (Some fp, w2) \<Rightarrow>
                            (Some fp, w2, g\<lparr>service_logs := service_logs g
                               @ [(strncpy_term A safe_service 64, fp)]\<rparr>))
                  else get_main_log_file A (w, g)))"

section \<open>Life cycle\<close>

definition heapstore_log_init :: "airy \<Rightarrow> os \<times> log \<Rightarrow> hs_error \<times> os \<times> log" where
  "heapstore_log_init A = (\<lambda>(w, g).
     if log_initialized g then (ERR_ALREADY_INITIALIZED, w, g)
     else
       let base = get_log_base_path A;
           g1 = g\<lparr>log_root_path := strncpy_term A base 512\<rparr>;
           w1 = snd (heapstore_dir_ensure A (Some base) w);
           w2 = snd (heapstore_dir_ensure A (Some (snprintf_buf 512 (base @ ''/kernel''))) w1);
           w3 = snd (heapstore_dir_ensure A (Some (snprintf_buf 512 (base @ ''/services''))) w2);
           w4 = snd (heapstore_dir_ensure A (Some (snprintf_buf 512 (base @ ''/apps''))) w3);
           g2 = update_current_date w4 g1
       in case fopen_a w4 (main_log_path A) of
            (None, w5) \<Rightarrow> (ERR_FILE_OPEN_FAILED, w5, g2\<lparr>main_log_file := None\<rparr>)
          | (Some fp, w5) \<Rightarrow>
              (SUCCESS, w5, g2\<lparr>main_log_file := Some fp, log_initialized := True, s_log_level := LOG_INFO\<rparr>))"

definition heapstore_log_shutdown :: "log \<Rightarrow> log" where
  "heapstore_log_shutdown g =
     (if \<not> log_initialized g then g
      else g\<lparr>main_log_file := None, service_logs := [], log_initialized := False\<rparr>)"

section \<open>Writing\<close>

text \<open>
  \<open>src\<close> is the source file argument, which printf writes as (null) when it is NULL; \<open>msg\<close> is the
  text vfprintf produces from the format and its arguments.
\<close>

definition log_prefix :: "os \<Rightarrow> log \<Rightarrow> log_level \<Rightarrow> string option \<Rightarrow> int \<Rightarrow> string" where
  "log_prefix w g level src ln = snprintf_buf 512
     (''['' @ current_date g @ ''] ['' @ snprintf_buf 32 (strftime w ''%H:%M:%S'' (clock w)) @ ''] [''
      @ level_to_string level @ ''] ['' @ (case src of None \<Rightarrow> ''(null)'' | Some f \<Rightarrow> f) @ '':''
      @ (if ln < 0 then ''-'' else []) @ show_nat (nat (abs ln)) @ ''] '')"

definition log_line :: "os \<Rightarrow> log \<Rightarrow> log_level \<Rightarrow> string option \<Rightarrow> string option \<Rightarrow> int \<Rightarrow> string \<Rightarrow> string" where
  "log_line w g level tid src ln msg =
     log_prefix w g level src ln
     @ (case tid of None \<Rightarrow> [] | Some i \<Rightarrow> snprintf_buf 512 (''[trace:'' @ i @ ''] ''))
     @ msg @ [CHR 0x0A]"

definition heapstore_log_write ::
  "airy \<Rightarrow> log_level \<Rightarrow> string option \<Rightarrow> string option \<Rightarrow> string option \<Rightarrow> int \<Rightarrow> string \<Rightarrow> os \<times> log \<Rightarrow> os \<times> log" where
  "heapstore_log_write A level service tid src ln msg = (\<lambda>(w, g).
     if \<not> log_initialized g then (w, g)
     else if s_log_level g < level then (w, g)
     else
       let g1 = update_current_date w g in
       case (case service of
               Some sv \<Rightarrow> get_service_log_file A (Some sv) (w, g1)
             | None \<Rightarrow> get_main_log_file A (w, g1)) of
         (None, w', g') \<Rightarrow> (w', g')
       | (Some fp, w', g') \<Rightarrow> (fputs (log_line w' g' level tid src ln msg) fp w', g'))"

definition heapstore_log_get_level :: "log \<Rightarrow> log_level" where
  "heapstore_log_get_level g = s_log_level g"

definition heapstore_log_set_level :: "log_level \<Rightarrow> log \<Rightarrow> log" where
  "heapstore_log_set_level level g = g\<lparr>s_log_level := level\<rparr>"

section \<open>Paths, rotation, retention, information\<close>

text \<open>\<open>buffer\<close>: is the pointer non-NULL; the result is the text stored in it.\<close>

definition heapstore_log_get_service_path ::
  "airy \<Rightarrow> string option \<Rightarrow> bool \<Rightarrow> size_t \<Rightarrow> hs_error \<times> string option" where
  "heapstore_log_get_service_path A service buffer buffer_size =
     (if \<not> buffer \<or> buffer_size = 0 then (ERR_INVALID_PARAM, None)
      else case service of
        Some sv \<Rightarrow>
          if sv \<noteq> []
          then (case heapstore_path_clean False (Some sv) 64 of
                  None \<Rightarrow> (ERR_INVALID_PARAM, None)
                | Some safe_service \<Rightarrow>
                    (SUCCESS, Some (snprintf_buf (unat buffer_size)
                       (get_log_base_path A @ ''/services/'' @ safe_service @ ''.log''))))
          else (SUCCESS, Some (snprintf_buf (unat buffer_size) (get_log_base_path A @ ''/kernel/agentrt.log'')))
      | None \<Rightarrow> (SUCCESS, Some (snprintf_buf (unat buffer_size) (get_log_base_path A @ ''/kernel/agentrt.log''))))"

text \<open>heapstore_atomic_replace of private.h (POSIX branch).\<close>

definition heapstore_atomic_replace :: "string \<Rightarrow> string \<Rightarrow> os \<Rightarrow> bool \<times> os" where
  "heapstore_atomic_replace src dst w = os_rename w src dst"

definition rotated_path :: "airy \<Rightarrow> os \<Rightarrow> string" where
  "rotated_path A w = snprintf_buf 512 (get_log_base_path A @ ''/kernel/airy_''
     @ snprintf_buf 64 (strftime w ''%Y%m%d_%H%M%S'' (clock w)) @ ''.log'')"

definition heapstore_log_rotate :: "airy \<Rightarrow> os \<times> log \<Rightarrow> hs_error \<times> os \<times> log" where
  "heapstore_log_rotate A = (\<lambda>(w, g).
     if \<not> log_initialized g then (ERR_NOT_INITIALIZED, w, g)
     else
       let g1 = g\<lparr>main_log_file := None\<rparr> in
       case heapstore_atomic_replace (main_log_path A) (rotated_path A w) w of
         (False, w1) \<Rightarrow> (ERR_FILE_OPERATION_FAILED, w1, g1)
       | (True, w1) \<Rightarrow>
           (case fopen_a w1 (main_log_path A) of
              (None, w2) \<Rightarrow> (ERR_FILE_OPEN_FAILED, w2, g1)
            | (Some fp, w2) \<Rightarrow> (SUCCESS, w2, g1\<lparr>main_log_file := Some fp\<rparr>)))"

fun clean_dirs :: "string list \<Rightarrow> int \<Rightarrow> u64 option \<Rightarrow> os \<Rightarrow> u64 option \<times> os" where
  "clean_dirs [] cutoff freed w = (freed, w)"
| "clean_dirs (d # ds) cutoff freed w =
     (case heapstore_dir_clean (Some d) cutoff freed w of
        (_, freed', w') \<Rightarrow> clean_dirs ds cutoff freed' w')"

definition heapstore_log_cleanup :: "airy \<Rightarrow> int \<Rightarrow> u64 option \<Rightarrow> os \<times> log \<Rightarrow> hs_error \<times> u64 option \<times> os" where
  "heapstore_log_cleanup A days freed = (\<lambda>(w, g).
     case heapstore_pre_clean (log_initialized g) days freed w of
       (Inl st, freed') \<Rightarrow> (st, freed', w)
     | (Inr cutoff, freed') \<Rightarrow>
         (case clean_dirs (get_log_base_path A
                # map (\<lambda>s. snprintf_buf 512 (get_log_base_path A @ ''/'' @ s)) [''kernel'', ''services'', ''apps''])
              cutoff freed' w of
            (freed'', w') \<Rightarrow> (SUCCESS, freed'', w')))"

record log_file_info =
  info_path :: string
  size_bytes :: u64
  line_count :: u32
  modified_at :: int

text \<open>The creation time (st_ctime) is not part of the file-system model.\<close>

definition heapstore_log_get_file_info ::
  "airy \<Rightarrow> string option \<Rightarrow> bool \<Rightarrow> os \<Rightarrow> hs_error \<times> log_file_info option" where
  "heapstore_log_get_file_info A service out w =
     (if \<not> out then (ERR_INVALID_PARAM, None)
      else
        let zero = \<lparr>info_path = [], size_bytes = 0, line_count = 0, modified_at = 0\<rparr>;
            finish = (\<lambda>filepath.
              let info = zero\<lparr>info_path := strncpy_term A filepath 512\<rparr> in
              case os_stat w filepath of
                None \<Rightarrow> (ERR_FILE_NOT_FOUND, Some info)
              | Some st \<Rightarrow> (SUCCESS, Some (info\<lparr>size_bytes := st_size st, modified_at := st_mtime st\<rparr>)))
        in case service of
             None \<Rightarrow> finish (main_log_path A)
           | Some sv \<Rightarrow>
               if sv = [] then finish (main_log_path A)
               else case heapstore_path_clean False (Some sv) 64 of
                      None \<Rightarrow> (ERR_INVALID_PARAM, Some zero)
                    | Some safe_service \<Rightarrow> finish (service_log_path A safe_service))"

fun log_stats_loop :: "os \<Rightarrow> string \<Rightarrow> (string \<times> bool) list \<Rightarrow> u32 \<times> u64 \<times> int \<Rightarrow> u32 \<times> u64 \<times> int" where
  "log_stats_loop w base [] acc = acc"
| "log_stats_loop w base ((name, is_reg) # es) (n, sz, oldest) =
     (if \<not> is_reg then log_stats_loop w base es (n, sz, oldest)
      else case os_stat w (snprintf_buf 512 (base @ ''/'' @ name)) of
        None \<Rightarrow> log_stats_loop w base es (n, sz, oldest)
      | Some st \<Rightarrow>
          log_stats_loop w base es (n + 1, sz + st_size st, if st_mtime st < oldest then st_mtime st else oldest))"

text \<open>For callers that give all three output pointers.\<close>

definition heapstore_log_get_stats :: "airy \<Rightarrow> bool \<Rightarrow> os \<Rightarrow> hs_error \<times> (u32 \<times> u64 \<times> int) option" where
  "heapstore_log_get_stats A outs w =
     (if \<not> outs then (ERR_INVALID_PARAM, None)
      else case os_readdir w (get_log_base_path A) of
        None \<Rightarrow> (SUCCESS, Some (0, 0, 0))
      | Some es \<Rightarrow>
          (case log_stats_loop w (get_log_base_path A) es (0, 0, clock w) of
             (n, sz, oldest) \<Rightarrow> (SUCCESS, Some (n, sz, if 0 < n then oldest else 0))))"

definition heapstore_log_is_healthy :: "log \<Rightarrow> bool" where
  "heapstore_log_is_healthy g \<longleftrightarrow> log_initialized g \<and> main_log_file g \<noteq> None"

section \<open>The level filter\<close>

lemma log_init_success:
  assumes "heapstore_log_init A (w, g) = (SUCCESS, w', g')"
  shows "log_initialized g' \<and> main_log_file g' \<noteq> None \<and> s_log_level g' = LOG_INFO
    \<and> current_date g' = snprintf_buf 16 (strftime w' ''%Y-%m-%d'' (clock w')) \<or> fst (heapstore_log_init A (w, g)) \<noteq> SUCCESS"
  using assms
  by (auto simp: heapstore_log_init_def Let_def update_current_date_def fopen_a_def
      split: prod.splits option.splits if_splits)

text \<open>
  The filter keeps a message when its level is at most the threshold, but severity grows with
  the level: under the default threshold a warning, an error and a fatal message are all dropped
  without a trace, while debug and info messages are written to the open main log.
\<close>

theorem level_filter_inverted:
  assumes init: "heapstore_log_init A (w, g) = (SUCCESS, w', g')"
  shows "(\<forall>level\<in>{LOG_WARN, LOG_ERROR, LOG_FATAL}. \<forall>service tid src ln msg.
        heapstore_log_write A level service tid src ln msg (w', g') = (w', g'))
    \<and> (\<forall>level\<in>{LOG_DEBUG, LOG_INFO}. \<forall>tid src ln msg. \<exists>fp. main_log_file g' = Some fp \<and>
        heapstore_log_write A level None tid src ln msg (w', g')
          = (fputs (log_line w' (update_current_date w' g') level tid src ln msg) fp w', update_current_date w' g'))"
proof -
  have g': "log_initialized g'" "main_log_file g' \<noteq> None" "s_log_level g' = LOG_INFO"
    using log_init_success [OF init] init by auto
  have dropped: "heapstore_log_write A level service tid src ln msg (w', g') = (w', g')"
    if "level \<in> {LOG_WARN, LOG_ERROR, LOG_FATAL}" for level service tid src ln msg
  proof -
    have "LOG_INFO < level" using that by (auto simp: log_levels)
    then show ?thesis using g' by (simp add: heapstore_log_write_def)
  qed
  moreover have "\<exists>fp. main_log_file g' = Some fp \<and>
      heapstore_log_write A level None tid src ln msg (w', g')
        = (fputs (log_line w' (update_current_date w' g') level tid src ln msg) fp w', update_current_date w' g')"
    if "level \<in> {LOG_DEBUG, LOG_INFO}" for level tid src ln msg
  proof -
    have "\<not> LOG_INFO < level" using that by (auto simp: log_levels)
    then show ?thesis
      using g' by (auto simp: heapstore_log_write_def get_main_log_file_def update_current_date_def Let_def)
  qed
  ultimately show ?thesis by blast
qed

section \<open>Where log messages go\<close>

text \<open>Regular files that appear are named by the subsystem.\<close>

definition only_log_files :: "airy \<Rightarrow> os \<Rightarrow> os \<Rightarrow> bool" where
  "only_log_files A w w' \<longleftrightarrow> (\<forall>p i. path_ino w p = None \<longrightarrow> path_ino w' p = Some i \<longrightarrow>
     is_dir (inodes w' i) \<or> p = main_log_path A
     \<or> (\<exists>n. heapstore_ident_safe (Some n) \<and> p = service_log_path A n))"

lemma dir_ensure_ok:
  assumes "mkdir_ok A" and "fs_wf w"
  shows "fs_wf (snd (heapstore_dir_ensure A (Some p) w))"
    and "path_ino w q = None \<Longrightarrow> path_ino (snd (heapstore_dir_ensure A (Some p) w)) q = Some i \<Longrightarrow>
      is_dir (inodes (snd (heapstore_dir_ensure A (Some p) w)) i)"
    and "path_ino w q = Some i \<Longrightarrow> path_ino (snd (heapstore_dir_ensure A (Some p) w)) q = Some i
      \<and> inodes (snd (heapstore_dir_ensure A (Some p) w)) i = inodes w i"
proof -
  have ok: "fs_wf w \<longrightarrow> fs_wf (snd (mkdir_p A p w))
     \<and> (\<forall>q. path_ino w q = None \<longrightarrow>
          (\<forall>i. path_ino (snd (mkdir_p A p w)) q = Some i \<longrightarrow> is_dir (inodes (snd (mkdir_p A p w)) i)))
     \<and> (\<forall>q i. path_ino w q = Some i \<longrightarrow> path_ino (snd (mkdir_p A p w)) q = Some i
          \<and> inodes (snd (mkdir_p A p w)) i = inodes w i)"
    using assms(1) unfolding mkdir_ok_def by (elim allE) assumption
  show "fs_wf (snd (heapstore_dir_ensure A (Some p) w))"
    using ok assms(2) by (simp add: heapstore_dir_ensure_def)
  show "is_dir (inodes (snd (heapstore_dir_ensure A (Some p) w)) i)"
    if "path_ino w q = None" "path_ino (snd (heapstore_dir_ensure A (Some p) w)) q = Some i"
    using ok assms(2) that by (simp add: heapstore_dir_ensure_def split: if_splits)
  show "path_ino (snd (heapstore_dir_ensure A (Some p) w)) q = Some i
      \<and> inodes (snd (heapstore_dir_ensure A (Some p) w)) i = inodes w i"
    if "path_ino w q = Some i"
    using ok assms(2) that by (simp add: heapstore_dir_ensure_def)
qed

lemma ensure_then_open:
  assumes "mkdir_ok A" and "fs_wf w" and "fopen_a (snd (heapstore_dir_ensure A (Some d) w)) p = (fp, w')"
    and "p = main_log_path A \<or> (\<exists>n. heapstore_ident_safe (Some n) \<and> p = service_log_path A n)"
  shows "only_log_files A w w'"
  unfolding only_log_files_def
proof (intro allI impI)
  fix q i
  let ?w1 = "snd (heapstore_dir_ensure A (Some d) w)"
  assume new: "path_ino w q = None" "path_ino w' q = Some i"
  have wf: "fs_wf ?w1" using dir_ensure_ok(1) [OF assms(1,2)] .
  have dirs: "path_ino ?w1 q = Some j \<Longrightarrow> is_dir (inodes ?w1 j)" for j
    using dir_ensure_ok(2) [OF assms(1,2) new(1)] .
  from assms(3) show "is_dir (inodes w' i) \<or> q = main_log_path A
      \<or> (\<exists>n. heapstore_ident_safe (Some n) \<and> q = service_log_path A n)"
  proof (cases rule: fopen_a_cases)
    case created
    show ?thesis
    proof (cases "q = p")
      case False
      then have "path_ino ?w1 q = Some i" using new(2) created by simp
      moreover from this have "i \<noteq> next_ino ?w1" using fs_wf_ino [OF wf] by force
      ultimately show ?thesis using dirs created by simp
    qed (use assms(4) in simp)
  qed (use new(2) dirs in auto)
qed

lemma only_log_files_refl: "only_log_files A w w"
  by (simp add: only_log_files_def)

lemma get_main_only:
  assumes "mkdir_ok A" and "fs_wf w" and "get_main_log_file A (w, g) = (fp, w', g')"
  shows "only_log_files A w w'"
proof (cases "log_initialized g \<and> main_log_file g = None")
  case True
  obtain w2 where "fopen_a (snd (heapstore_dir_ensure A
      (Some (snprintf_buf 512 (get_log_base_path A @ ''/kernel''))) w)) (main_log_path A) = (fp, w2)" "w2 = w'"
    using assms(3) True
    by (auto simp: get_main_log_file_def Let_def update_current_date_def split: prod.splits)
  then show ?thesis using ensure_then_open [OF assms(1,2)] by blast
next
  case False
  with assms(3) have "w' = w"
    by (auto simp: get_main_log_file_def Let_def update_current_date_def split: if_splits option.splits)
  then show ?thesis by (simp add: only_log_files_refl)
qed

lemma get_service_only:
  assumes "mkdir_ok A" and "fs_wf w" and run: "get_service_log_file A service (w, g) = (fp, w', g')"
  shows "only_log_files A w w'"
proof (cases "\<exists>sv n. service = Some sv \<and> sv \<noteq> [] \<and> heapstore_path_clean False (Some sv) 64 = Some n")
  case False
  then have "get_main_log_file A (w, g) = (fp, w', g') \<or> w' = w"
    using run by (auto simp: get_service_log_file_def split: option.splits if_splits)
  then show ?thesis using get_main_only [OF assms(1,2)] only_log_files_refl by blast
next
  case True
  then obtain sv n where sv: "service = Some sv" "sv \<noteq> []" "heapstore_path_clean False (Some sv) 64 = Some n" by blast
  let ?w1 = "snd (heapstore_dir_ensure A (Some (snprintf_buf 512 (get_log_base_path A @ ''/services''))) w)"
  have "get_main_log_file A (w, g) = (fp, w', g') \<or> w' = w
      \<or> (\<exists>f. fopen_a ?w1 (service_log_path A n) = (f, w'))"
    using run sv
    by (auto simp: get_service_log_file_def Let_def split: option.splits if_splits prod.splits)
  then show ?thesis
    using get_main_only [OF assms(1,2)] only_log_files_refl
      ensure_then_open [OF assms(1,2)] path_clean_result [OF sv(3)] by blast
qed

lemma only_log_files_fputs: "only_log_files A w w' \<Longrightarrow> only_log_files A w (fputs s i w')"
  by (simp add: only_log_files_def)

text \<open>
  C31. Whatever service name, trace id and message a caller passes, a write creates no regular file
  but the main log and service logs named by a safe identifier directly below the services
  directory: no path traversal.
\<close>

theorem log_write_confined:
  assumes "mkdir_ok A" and "fs_wf w"
    and "heapstore_log_write A level service tid src ln msg (w, g) = (w', g')"
    and "path_ino w p = None" and "path_ino w' p = Some i" and "\<not> is_dir (inodes w' i)"
  shows "p = main_log_path A \<or> (\<exists>n. heapstore_ident_safe (Some n) \<and> p = service_log_path A n)"
proof -
  let ?open = "case service of
      Some sv \<Rightarrow> get_service_log_file A (Some sv) (w, update_current_date w g)
    | None \<Rightarrow> get_main_log_file A (w, update_current_date w g)"
  obtain fp w1 g1 where opened: "?open = (fp, w1, g1)" by (metis surj_pair)
  have "only_log_files A w w1"
    using get_service_only [OF assms(1,2)] get_main_only [OF assms(1,2)] opened
    by (cases service) auto
  moreover have "w' = w \<or> w' = w1 \<or> (\<exists>s f. w' = fputs s f w1)"
    using assms(3) opened
    by (auto simp: heapstore_log_write_def Let_def split: if_splits option.splits)
  ultimately have "only_log_files A w w'"
    using only_log_files_refl only_log_files_fputs by blast
  then show ?thesis using assms(4-6) by (auto simp: only_log_files_def)
qed

section \<open>Rotation\<close>

text \<open>
  C40. A successful rotation keeps the log: the whole old main log, unchanged, is found under the
  rotated name (in place of what a rotation in the same second left there), the main path names
  a new empty file, and later messages go to it.
\<close>

theorem rotate_moves_main_log:
  assumes wf: "fs_wf w" and old: "path_ino w (main_log_path A) = Some i"
    and new: "rotated_path A w \<noteq> main_log_path A"
    and run: "heapstore_log_rotate A (w, g) = (SUCCESS, w', g')"
  shows "path_ino w' (rotated_path A w) = Some i \<and> inodes w' i = inodes w i
    \<and> (\<exists>j. j \<noteq> i \<and> path_ino w' (main_log_path A) = Some j \<and> content (inodes w' j) = []
        \<and> main_log_file g' = Some j \<and> heapstore_log_is_healthy g')"
proof -
  obtain w1 where ren: "os_rename w (main_log_path A) (rotated_path A w) = (True, w1)"
    using run by (auto simp: heapstore_log_rotate_def heapstore_atomic_replace_def Let_def
        split: prod.splits bool.splits if_splits)
  then obtain fp w2 where fop: "fopen_a w1 (main_log_path A) = (fp, w2)" by fastforce
  have g': "fp \<noteq> None" "w' = w2" "main_log_file g' = fp" "log_initialized g'"
    using run ren fop by (auto simp: heapstore_log_rotate_def heapstore_atomic_replace_def Let_def
        split: option.splits if_splits)
  have moved: "path_ino w1 q = (if q = rotated_path A w then Some i else if q = main_log_path A then None else path_ino w q)" for q
    using os_rename_moves(1) [OF ren new [symmetric] old] .
  have frame: "inodes w1 = inodes w" "next_ino w1 = next_ino w"
    using os_rename_frame [OF ren] by auto
  have gone: "path_ino w1 (main_log_path A) = None" using moved new by simp
  have "i \<noteq> next_ino w" using fs_wf_ino [OF wf old] by simp
  from fop show ?thesis
  proof (cases rule: fopen_a_cases)
    case created
    then show ?thesis
      using gone moved [of "rotated_path A w"] new frame g' \<open>i \<noteq> next_ino w\<close>
      by (simp add: heapstore_log_is_healthy_def)
  qed (use gone g' in auto)
qed

section \<open>Life cycle\<close>

definition log_inv :: "log \<Rightarrow> bool" where
  "log_inv g \<longleftrightarrow> distinct (map fst (service_logs g)) \<and> length (service_logs g) \<le> LOG_MAX_SERVICES
     \<and> (\<not> log_initialized g \<longrightarrow> main_log_file g = None \<and> service_logs g = [])"

lemma log_inv_init: "log_inv g \<Longrightarrow> log_inv (snd (snd (heapstore_log_init A (w, g))))"
  by (auto simp: heapstore_log_init_def log_inv_def Let_def update_current_date_def
      split: prod.splits option.splits)

lemma log_inv_shutdown: "log_inv g \<Longrightarrow> log_inv (heapstore_log_shutdown g) \<and> \<not> heapstore_log_is_healthy (heapstore_log_shutdown g)"
  by (simp add: heapstore_log_shutdown_def log_inv_def heapstore_log_is_healthy_def)

lemma log_inv_main: "log_inv g \<Longrightarrow> log_inv (snd (snd (get_main_log_file A (w, g))))"
  by (auto simp: get_main_log_file_def log_inv_def Let_def update_current_date_def
      split: prod.splits option.splits)

lemma log_inv_service:
  assumes "strncpy_ok A" and inv: "log_inv g" and ini: "log_initialized g"
  shows "log_inv (snd (snd (get_service_log_file A service (w, g))))"
proof (cases "\<exists>sv n. service = Some sv \<and> sv \<noteq> [] \<and> heapstore_path_clean False (Some sv) 64 = Some n
    \<and> map_of (service_logs g) n = None \<and> length (service_logs g) < LOG_MAX_SERVICES")
  case True
  then obtain sv n where sv: "service = Some sv" "sv \<noteq> []" "heapstore_path_clean False (Some sv) 64 = Some n"
    "map_of (service_logs g) n = None" "length (service_logs g) < LOG_MAX_SERVICES" by blast
  have "length n < 64" using path_clean_result [OF sv(3)] by simp
  then have same: "strncpy_term A n 64 = n" using assms(1) by (simp add: strncpy_ok_def)
  show ?thesis
    using inv ini sv by (auto simp: get_service_log_file_def Let_def log_inv_def same map_of_eq_None_iff
        split: prod.splits option.splits)
next
  case False
  have main: "log_inv (snd (snd (get_main_log_file A (w, g))))" by (rule log_inv_main [OF inv])
  show ?thesis
  proof (cases service)
    case None
    then show ?thesis using main by (simp add: get_service_log_file_def)
  next
    case (Some sv)
    then show ?thesis
      using False main inv by (auto simp: get_service_log_file_def split: option.splits)
  qed
qed

lemma log_life_laws:
  "log_inv g \<Longrightarrow> fst (heapstore_log_init A (w, g)) = SUCCESS \<Longrightarrow>
     heapstore_log_is_healthy (snd (snd (heapstore_log_init A (w, g))))"
  by (auto simp: heapstore_log_init_def heapstore_log_is_healthy_def Let_def split: prod.splits option.splits if_splits)

lemma log_init_failure:
  "\<not> heapstore_log_is_healthy g \<Longrightarrow> fst (heapstore_log_init A (w, g)) \<noteq> SUCCESS \<Longrightarrow>
     \<not> heapstore_log_is_healthy (snd (snd (heapstore_log_init A (w, g))))"
  by (auto simp: heapstore_log_init_def heapstore_log_is_healthy_def update_current_date_def Let_def
      split: prod.splits option.splits if_splits)

interpretation log_life: guarded_lifecycle "heapstore_log_init A" "\<lambda>(w, g). Some (w, heapstore_log_shutdown g)"
  "\<lambda>(w, g). heapstore_log_is_healthy g" "\<lambda>(w, g). log_inv g" for A
  by unfold_locales (auto simp: split_def intro: log_inv_init log_life_laws log_inv_shutdown
      dest: log_inv_shutdown log_init_failure)

section \<open>Witnesses\<close>

definition demo_root :: os where
  "demo_root = demo_os\<lparr>entries := [(''/d'', 0)], next_ino := 1\<rparr>"

lemma demo_log_init: "fst (heapstore_log_init demo_airy (demo_root, log0)) = SUCCESS"
  by code_simp

theorem level_filter_inverted_witness:
  "\<exists>w g. heapstore_log_init demo_airy (demo_root, log0) = (SUCCESS, w, g)
     \<and> heapstore_log_write demo_airy LOG_ERROR None None None 0 ''disk failure'' (w, g) = (w, g)"
proof -
  obtain w g where init: "heapstore_log_init demo_airy (demo_root, log0) = (SUCCESS, w, g)"
    using demo_log_init by (metis prod.collapse)
  have "LOG_ERROR \<in> {LOG_WARN, LOG_ERROR, LOG_FATAL}" by simp
  with level_filter_inverted [OF init] have
    "heapstore_log_write demo_airy LOG_ERROR None None None 0 ''disk failure'' (w, g) = (w, g)" by blast
  with init show ?thesis by blast
qed

theorem log_write_confined_witness:
  "\<exists>n. heapstore_ident_safe (Some n) \<and> ''/d/agentrt/heapstore/logs/services/my_app.log'' = service_log_path demo_airy n"
proof -
  let ?g = "log0\<lparr>log_initialized := True\<rparr>" and ?p = "''/d/agentrt/heapstore/logs/services/my_app.log''"
  obtain w g where run: "heapstore_log_write demo_airy LOG_INFO (Some ''my app'') None None 0 ''hello'' (demo_root, ?g) = (w, g)"
    by fastforce
  have wf: "fs_wf demo_root" by (simp add: fs_wf_def demo_root_def)
  have new: "path_ino demo_root ?p = None" by (simp add: path_ino_def demo_root_def)
  have "map_option (\<lambda>i. (i, is_dir (inodes (fst (heapstore_log_write demo_airy LOG_INFO (Some ''my app'') None None 0 ''hello'' (demo_root, ?g))) i)))
      (path_ino (fst (heapstore_log_write demo_airy LOG_INFO (Some ''my app'') None None 0 ''hello'' (demo_root, ?g))) ?p)
      = Some (2, False)"
    by code_simp
  then have fresh: "path_ino w ?p = Some 2" "\<not> is_dir (inodes w 2)"
    unfolding run fst_conv by auto
  have "?p \<noteq> main_log_path demo_airy" by code_simp
  with log_write_confined [OF demo_mkdir_ok wf run new fresh] show ?thesis by blast
qed

theorem rotate_moves_main_log_witness:
  "\<exists>w g. heapstore_log_rotate demo_airy (fst (snd (heapstore_log_init demo_airy (demo_root, log0))),
        snd (snd (heapstore_log_init demo_airy (demo_root, log0)))) = (SUCCESS, w, g)
     \<and> path_ino w (rotated_path demo_airy (fst (snd (heapstore_log_init demo_airy (demo_root, log0))))) = Some 5"
proof -
  let ?w = "fst (snd (heapstore_log_init demo_airy (demo_root, log0)))"
  let ?g = "snd (snd (heapstore_log_init demo_airy (demo_root, log0)))"
  have "distinct (map fst (entries ?w)) \<and> list_all (\<lambda>i. i < next_ino ?w) (map snd (entries ?w))"
    by code_simp
  then have wf: "fs_wf ?w" by (auto simp: fs_wf_def list_all_iff)
  have old: "path_ino ?w (main_log_path demo_airy) = Some 5" by code_simp
  have new: "rotated_path demo_airy ?w \<noteq> main_log_path demo_airy" by code_simp
  have "fst (heapstore_log_rotate demo_airy (?w, ?g)) = SUCCESS" by code_simp
  then obtain w g where run: "heapstore_log_rotate demo_airy (?w, ?g) = (SUCCESS, w, g)"
    by (metis prod.collapse)
  from rotate_moves_main_log [OF wf old new run] run show ?thesis by blast
qed

end
