(* ===== verification/HS_Metrics.thy ===== *)
theory HS_Metrics
  imports HS_Prelude
begin

text \<open>
  The operation metrics of src/heapstore_core_metrics.c: eight atomic counters, updated by every
  write. \<open>heapstore_core_metrics_update\<close> is the update of one thread that runs alone;
  \<open>metrics_atomic\<close> is one atomic access of it, and \<open>metrics_run\<close> interleaves the accesses of any
  number of updates according to a schedule. Weak memory is not modelled: all accesses of the code
  are sequentially consistent.
\<close>

section \<open>Counters and operations\<close>

record metrics =
  total_operations :: u64
  failed_operations :: u64
  fast_path_operations :: u64
  slow_path_operations :: u64
  circuit_breaker_trips :: u64
  total_operation_time_ns :: u64
  peak_concurrent_ops :: u64
  current_concurrent_ops :: u32

definition heapstore_core_metrics_init :: metrics where
  "heapstore_core_metrics_init = \<lparr>total_operations = 0, failed_operations = 0, fast_path_operations = 0,
     slow_path_operations = 0, circuit_breaker_trips = 0, total_operation_time_ns = 0,
     peak_concurrent_ops = 0, current_concurrent_ops = 0\<rparr>"

text \<open>The update without interference: the compare-and-swap of the peak succeeds at once.\<close>

definition heapstore_core_metrics_update :: "u64 \<Rightarrow> bool \<Rightarrow> bool \<Rightarrow> metrics \<Rightarrow> metrics" where
  "heapstore_core_metrics_update elapsed_ns is_fast_path is_failed m =
     (let m1 = m\<lparr>total_operations := total_operations m + 1\<rparr>;
          m2 = m1\<lparr>total_operation_time_ns := total_operation_time_ns m1 + elapsed_ns\<rparr>;
          current_ops = current_concurrent_ops m2 + 1;
          m3 = m2\<lparr>current_concurrent_ops := current_ops\<rparr>;
          m4 = (if peak_concurrent_ops m3 < ucast current_ops
                then m3\<lparr>peak_concurrent_ops := ucast current_ops\<rparr> else m3);
          m5 = m4\<lparr>current_concurrent_ops := current_concurrent_ops m4 - 1\<rparr>;
          m6 = (if is_fast_path then m5\<lparr>fast_path_operations := fast_path_operations m5 + 1\<rparr>
                else m5\<lparr>slow_path_operations := slow_path_operations m5 + 1\<rparr>)
      in if is_failed then m6\<lparr>failed_operations := failed_operations m6 + 1\<rparr> else m6)"

definition heapstore_core_metrics_note_circuit_trip :: "metrics \<Rightarrow> metrics" where
  "heapstore_core_metrics_note_circuit_trip m =
     m\<lparr>circuit_breaker_trips := circuit_breaker_trips m + 1\<rparr>"

text \<open>
  The public snapshot. The average is a quotient of doubles; the model keeps its two operands,
  or None where the code stores 0.0.
\<close>

record metrics_snapshot =
  snap_total :: u64
  snap_failed :: u64
  snap_fast :: u64
  snap_slow :: u64
  snap_trips :: u64
  snap_avg :: "(u64 \<times> u64) option"
  snap_peak :: u64

definition heapstore_get_metrics :: "bool \<Rightarrow> bool \<Rightarrow> metrics \<Rightarrow> hs_error \<times> metrics_snapshot option" where
  "heapstore_get_metrics ready out m =
     (if \<not> ready then (ERR_NOT_INITIALIZED, None)
      else if \<not> out then (ERR_INVALID_PARAM, None)
      else (SUCCESS, Some \<lparr>snap_total = total_operations m, snap_failed = failed_operations m,
              snap_fast = fast_path_operations m, snap_slow = slow_path_operations m,
              snap_trips = circuit_breaker_trips m,
              snap_avg = (if 0 < total_operations m
                          then Some (total_operation_time_ns m, total_operations m) else None),
              snap_peak = peak_concurrent_ops m\<rparr>))"

text \<open>The reset leaves the number of running updates alone.\<close>

definition heapstore_reset_metrics :: "bool \<Rightarrow> metrics \<Rightarrow> hs_error \<times> metrics" where
  "heapstore_reset_metrics ready m =
     (if \<not> ready then (ERR_NOT_INITIALIZED, m)
      else (SUCCESS, m\<lparr>total_operations := 0, failed_operations := 0, fast_path_operations := 0,
              slow_path_operations := 0, circuit_breaker_trips := 0, total_operation_time_ns := 0,
              peak_concurrent_ops := 0\<rparr>))"

section \<open>Interleaved updates\<close>

text \<open>
  The arguments of one update and the points between its atomic accesses: \<open>At_load\<close> holds the
  value current_ops, \<open>At_cas\<close> also the peak last read.
\<close>

record metrics_op =
  op_ns :: u64
  op_fast :: bool
  op_failed :: bool

datatype metrics_pc =
    At_total
  | At_time
  | At_enter
  | At_load u32
  | At_cas u32 u64
  | At_leave
  | At_path
  | At_failed
  | Finished

fun metrics_atomic :: "metrics_op \<times> metrics_pc \<Rightarrow> metrics \<Rightarrow> (metrics_op \<times> metrics_pc) \<times> metrics" where
  "metrics_atomic (x, At_total) m =
     ((x, At_time), m\<lparr>total_operations := total_operations m + 1\<rparr>)"
| "metrics_atomic (x, At_time) m =
     ((x, At_enter), m\<lparr>total_operation_time_ns := total_operation_time_ns m + op_ns x\<rparr>)"
| "metrics_atomic (x, At_enter) m =
     ((x, At_load (current_concurrent_ops m + 1)),
      m\<lparr>current_concurrent_ops := current_concurrent_ops m + 1\<rparr>)"
| "metrics_atomic (x, At_load current_ops) m =
     ((x, At_cas current_ops (peak_concurrent_ops m)), m)"
| "metrics_atomic (x, At_cas current_ops peak) m =
     (if \<not> peak < ucast current_ops then ((x, At_leave), m)
      else if peak_concurrent_ops m = peak
           then ((x, At_leave), m\<lparr>peak_concurrent_ops := ucast current_ops\<rparr>)
           else ((x, At_cas current_ops (peak_concurrent_ops m)), m))"
| "metrics_atomic (x, At_leave) m =
     ((x, At_path), m\<lparr>current_concurrent_ops := current_concurrent_ops m - 1\<rparr>)"
| "metrics_atomic (x, At_path) m =
     ((x, At_failed),
      if op_fast x then m\<lparr>fast_path_operations := fast_path_operations m + 1\<rparr>
      else m\<lparr>slow_path_operations := slow_path_operations m + 1\<rparr>)"
| "metrics_atomic (x, At_failed) m =
     ((x, Finished), if op_failed x then m\<lparr>failed_operations := failed_operations m + 1\<rparr> else m)"
| "metrics_atomic (x, Finished) m = ((x, Finished), m)"

type_synonym metrics_state = "metrics \<times> (metrics_op \<times> metrics_pc) list"

text \<open>A schedule names the update that makes the next access.\<close>

definition metrics_sched :: "nat \<Rightarrow> metrics_state \<Rightarrow> metrics_state" where
  "metrics_sched i = (\<lambda>(m, ts).
     if i < length ts then (case metrics_atomic (ts ! i) m of (t, m') \<Rightarrow> (m', ts[i := t])) else (m, ts))"

definition metrics_run :: "nat list \<Rightarrow> metrics_state \<Rightarrow> metrics_state" where
  "metrics_run sched s = foldl (\<lambda>s i. metrics_sched i s) s sched"

definition metrics_start :: "metrics_op list \<Rightarrow> metrics_state" where
  "metrics_start xs = (heapstore_core_metrics_init, map (\<lambda>x. (x, At_total)) xs)"

text \<open>The largest number of updates that were inside at the same time at any point of a run.\<close>

fun most_at_once :: "nat list \<Rightarrow> metrics_state \<Rightarrow> u32" where
  "most_at_once [] s = current_concurrent_ops (fst s)"
| "most_at_once (i # sched) s = max (current_concurrent_ops (fst s)) (most_at_once sched (metrics_sched i s))"

lemma metrics_run_simps [simp]:
  "metrics_run [] s = s"
  "metrics_run (i # sched) s = metrics_run sched (metrics_sched i s)"
  by (simp_all add: metrics_run_def)

section \<open>The counters count\<close>

fun inside :: "metrics_op \<times> metrics_pc \<Rightarrow> bool" where
  "inside (x, At_load c) = True"
| "inside (x, At_cas c p) = True"
| "inside (x, At_leave) = True"
| "inside (x, pc) = False"

definition counted_total :: "metrics_op \<times> metrics_pc \<Rightarrow> u64" where
  "counted_total t = of_bool (snd t \<noteq> At_total)"

definition counted_time :: "metrics_op \<times> metrics_pc \<Rightarrow> u64" where
  "counted_time t = (if snd t = At_total \<or> snd t = At_time then 0 else op_ns (fst t))"

definition counted_path :: "bool \<Rightarrow> metrics_op \<times> metrics_pc \<Rightarrow> u64" where
  "counted_path b t = of_bool ((snd t = At_failed \<or> snd t = Finished) \<and> op_fast (fst t) = b)"

definition counted_failed :: "metrics_op \<times> metrics_pc \<Rightarrow> u64" where
  "counted_failed t = of_bool (snd t = Finished \<and> op_failed (fst t))"

definition counters_inv :: "metrics_state \<Rightarrow> bool" where
  "counters_inv = (\<lambda>(m, ts).
     total_operations m = (\<Sum>t\<leftarrow>ts. counted_total t)
     \<and> total_operation_time_ns m = (\<Sum>t\<leftarrow>ts. counted_time t)
     \<and> fast_path_operations m = (\<Sum>t\<leftarrow>ts. counted_path True t)
     \<and> slow_path_operations m = (\<Sum>t\<leftarrow>ts. counted_path False t)
     \<and> failed_operations m = (\<Sum>t\<leftarrow>ts. counted_failed t)
     \<and> current_concurrent_ops m = (\<Sum>t\<leftarrow>ts. of_bool (inside t)))"

lemma sum_list_replace:
  fixes f :: "'t \<Rightarrow> 'b::ab_group_add"
  assumes "i < length ts"
  shows "(\<Sum>t\<leftarrow>ts[i := u]. f t) = (\<Sum>t\<leftarrow>ts. f t) - f (ts ! i) + f u"
  using assms by (induction ts arbitrary: i) (auto simp: nth_Cons split: nat.splits)

lemma metrics_sched_counters:
  assumes "counters_inv s"
  shows "counters_inv (metrics_sched i s)"
proof (cases "i < length (snd s)")
  case True
  obtain m ts where s: "s = (m, ts)" by (cases s)
  obtain x pc where t: "ts ! i = (x, pc)" by (cases "ts ! i")
  show ?thesis
    using assms True
    by (cases pc) (auto simp: s counters_inv_def metrics_sched_def t sum_list_replace counted_total_def
        counted_time_def counted_path_def counted_failed_def)
qed (use assms in \<open>auto simp: metrics_sched_def split: prod.splits\<close>)

lemma metrics_run_counters: "counters_inv s \<Longrightarrow> counters_inv (metrics_run sched s)"
  by (induction sched arbitrary: s) (simp_all add: metrics_sched_counters)

lemma metrics_start_counters: "counters_inv (metrics_start xs)"
  by (simp add: counters_inv_def metrics_start_def heapstore_core_metrics_init_def counted_total_def
      counted_time_def counted_path_def counted_failed_def o_def)

lemma metrics_sched_ops: "map fst (snd (metrics_sched i s)) = map fst (snd s)"
proof (cases "i < length (snd s)")
  case True
  obtain m ts where s: "s = (m, ts)" by (cases s)
  obtain x pc where t: "ts ! i = (x, pc)" by (cases "ts ! i")
  have "fst (fst (metrics_atomic (x, pc) m)) = x"
    by (cases pc) simp_all
  then show ?thesis
    using True t by (simp add: s metrics_sched_def map_update split: prod.splits)
      (metis fst_conv list_update_id map_update)
qed (auto simp: metrics_sched_def split: prod.splits)

lemma metrics_run_ops: "map fst (snd (metrics_run sched s)) = map fst (snd s)"
  by (induction sched arbitrary: s) (simp_all add: metrics_sched_ops)

lemma metrics_run_length: "length (snd (metrics_run sched s)) = length (snd s)"
  using metrics_run_ops [of sched s] by (metis length_map)

section \<open>The peak\<close>

fun pending :: "metrics_pc \<Rightarrow> u32 option" where
  "pending (At_load c) = Some c"
| "pending (At_cas c p) = Some c"
| "pending pc = None"

definition thread_ok :: "u32 \<Rightarrow> u64 \<Rightarrow> metrics_op \<times> metrics_pc \<Rightarrow> bool" where
  "thread_ok h peak t \<longleftrightarrow> (\<forall>c. pending (snd t) = Some c \<longrightarrow> c \<le> h)
     \<and> (\<forall>c p. snd t = At_cas c p \<longrightarrow> p \<le> peak)"

text \<open>
  \<open>h\<close> is the largest number of updates seen inside so far: the peak has reached it, or an update
  still carries it towards its compare-and-swap.
\<close>

definition peak_inv :: "u32 \<Rightarrow> metrics_state \<Rightarrow> bool" where
  "peak_inv h = (\<lambda>(m, ts).
     current_concurrent_ops m \<le> h \<and> peak_concurrent_ops m \<le> ucast h
     \<and> (\<forall>t\<in>set ts. thread_ok h (peak_concurrent_ops m) t)
     \<and> (ucast h \<le> peak_concurrent_ops m \<or> (\<exists>t\<in>set ts. pending (snd t) = Some h)))"

lemma unat_ucast_u32 [word_counts]: "unat (ucast a :: u64) = unat a" for a :: u32
proof -
  have "unat a < 2 ^ 64" using unsigned_less [of a, where ?'a = nat] by simp
  then show ?thesis by (simp add: unsigned_ucast_eq take_bit_nat_eq_self_iff)
qed

lemma ucast_u32_le: "(ucast a :: u64) \<le> ucast b \<longleftrightarrow> a \<le> b" for a b :: u32
  by (simp add: word_le_nat_alt unat_ucast_u32)

lemma peak_inv_step:
  assumes "peak_inv h (m, ts)" and "i < length ts"
    and "current_concurrent_ops m' \<le> h'" and "h \<le> h'"
    and "peak_concurrent_ops m \<le> peak_concurrent_ops m'" and "peak_concurrent_ops m' \<le> ucast h'"
    and "thread_ok h' (peak_concurrent_ops m') t"
    and "ucast h' \<le> peak_concurrent_ops m' \<or> pending (snd t) = Some h'
      \<or> (h' = h \<and> pending (snd (ts ! i)) \<noteq> Some h)"
  shows "peak_inv h' (m', ts[i := t])"
proof -
  have ok: "thread_ok h' (peak_concurrent_ops m') u" if "u \<in> set (ts[i := t])" for u
    using that assms set_update_subset_insert [of ts i t]
    by (auto simp: peak_inv_def thread_ok_def dest!: subsetD)
  have kept: "u = ts ! i \<or> u \<in> set (ts[i := t])" if "u \<in> set ts" for u
    using that assms(2) by (metis in_set_conv_nth length_list_update nth_list_update_neq)
  have "t \<in> set (ts[i := t])" using assms(2) by (rule set_update_memI)
  then have "ucast h' \<le> peak_concurrent_ops m' \<or> (\<exists>u\<in>set (ts[i := t]). pending (snd u) = Some h')"
    using assms(1,5,8) kept unfolding peak_inv_def by (smt (verit) case_prodD order_trans)
  with ok assms(3,6) show ?thesis by (simp add: peak_inv_def)
qed

lemma metrics_sched_peak:
  assumes peak: "peak_inv h s"
    and leave: "\<And>x m ts. s = (m, ts) \<Longrightarrow> i < length ts \<Longrightarrow> ts ! i = (x, At_leave) \<Longrightarrow>
      current_concurrent_ops m \<noteq> 0"
  shows "peak_inv (max h (current_concurrent_ops (fst (metrics_sched i s)))) (metrics_sched i s)"
proof (cases "i < length (snd s)")
  case True
  obtain m ts where s: "s = (m, ts)" by (cases s)
  obtain x pc where t: "ts ! i = (x, pc)" by (cases "ts ! i")
  have i: "i < length ts" using True by (simp add: s)
  have cur: "current_concurrent_ops m \<le> h" and pk: "peak_concurrent_ops m \<le> ucast h"
    and all: "\<forall>t\<in>set ts. thread_ok h (peak_concurrent_ops m) t"
    using peak by (auto simp: s peak_inv_def)
  have ok: "thread_ok h (peak_concurrent_ops m) (x, pc)"
    using all i t by (metis nth_mem)
  note step = peak_inv_step [OF peak [unfolded s] i]
  have quiet: "peak_inv h (m', ts[i := t'])"
    if "current_concurrent_ops m' \<le> h" "peak_concurrent_ops m' = peak_concurrent_ops m"
      "pending (snd t') = pending pc" "\<And>c p. snd t' = At_cas c p \<Longrightarrow> p \<le> peak_concurrent_ops m" for m' t'
    using that pk ok by (intro step) (auto simp: thread_ok_def t)
  have le_max: "ucast h \<le> (ucast (max h c) :: u64)" for c
    by (simp add: ucast_u32_le)
  show ?thesis
  proof (cases pc)
    case At_enter
    let ?c = "current_concurrent_ops m + 1"
    have "max h ?c = ?c \<or> max h ?c = h" by (simp add: max_def)
    then show ?thesis
      using At_enter i t order_trans [OF pk le_max [of ?c]]
      by (simp add: s metrics_sched_def) (rule step, auto simp: thread_ok_def)
  next
    case (At_cas c p)
    have "c \<le> h" "p \<le> peak_concurrent_ops m" using ok At_cas by (auto simp: thread_ok_def)
    then show ?thesis
      using At_cas i t cur pk
      by (simp add: s metrics_sched_def max_absorb1)
        (intro conjI impI step, auto simp: thread_ok_def ucast_u32_le)
  next
    case At_leave
    have "current_concurrent_ops m \<noteq> 0" using leave s i t At_leave by blast
    then have "current_concurrent_ops m - 1 \<le> h"
      using cur by (simp add: word_le_nat_alt unat_minus_one)
    then show ?thesis
      using At_leave i t pk
      by (simp add: s metrics_sched_def max_absorb1) (rule step, auto simp: thread_ok_def)
  qed (use i t cur in \<open>auto simp: s metrics_sched_def max_absorb1 intro!: quiet\<close>)
next
  case False
  then have "metrics_sched i s = s" by (auto simp: metrics_sched_def split: prod.splits)
  moreover have "current_concurrent_ops (fst s) \<le> h" using peak by (auto simp: peak_inv_def)
  ultimately show ?thesis using peak by (simp add: max_absorb1)
qed

lemma counted_inside:
  "(\<Sum>t\<leftarrow>ts. of_bool (P t)) = (of_nat (length (filter P ts)) :: 'a::semiring_1)"
  by (induction ts) simp_all

lemma inside_not_zero:
  assumes "counters_inv (m, ts)" and "length ts < 2 ^ 32" and "i < length ts" and "inside (ts ! i)"
  shows "current_concurrent_ops m \<noteq> 0"
proof
  assume "current_concurrent_ops m = 0"
  then have "of_nat (length (filter inside ts)) = (0 :: u32)"
    using assms(1) by (simp add: counters_inv_def counted_inside)
  then have "2 ^ 32 dvd length (filter inside ts)"
    by (simp add: word_of_nat_eq_0_iff)
  moreover have "0 < length (filter inside ts)"
    using assms(3,4) by (metis filter_empty_conv length_greater_0_conv nth_mem)
  moreover have "length (filter inside ts) < 2 ^ 32"
    using assms(2) length_filter_le order_le_less_trans by blast
  ultimately show False using nat_dvd_not_less by blast
qed

lemma metrics_run_peak:
  assumes "peak_inv h s" and "counters_inv s" and "length (snd s) < 2 ^ 32"
  shows "peak_inv (max h (most_at_once sched s)) (metrics_run sched s)"
  using assms
proof (induction sched arbitrary: h s)
  case Nil
  then have "current_concurrent_ops (fst s) \<le> h" by (auto simp: peak_inv_def)
  with Nil show ?case by (simp add: max_absorb1)
next
  case (Cons i sched)
  let ?s = "metrics_sched i s" and ?h = "max h (current_concurrent_ops (fst (metrics_sched i s)))"
  have "peak_inv ?h ?s"
  proof (rule metrics_sched_peak [OF Cons.prems(1)])
    fix x m ts
    assume "s = (m, ts)" "i < length ts" "ts ! i = (x, At_leave)"
    then show "current_concurrent_ops m \<noteq> 0"
      using Cons.prems(2,3) inside_not_zero [of m ts i] by simp
  qed
  moreover have "counters_inv ?s" "length (snd ?s) < 2 ^ 32"
    using Cons.prems metrics_sched_ops [of i s] by (auto simp: metrics_sched_counters dest: map_eq_imp_length_eq)
  ultimately have "peak_inv (max ?h (most_at_once sched ?s)) (metrics_run sched ?s)"
    by (rule Cons.IH)
  moreover have "max ?h (most_at_once sched ?s) = max h (most_at_once (i # sched) s)"
  proof -
    have "current_concurrent_ops (fst s) \<le> h"
      using Cons.prems(1) by (auto simp: peak_inv_def)
    moreover have "current_concurrent_ops (fst ?s) \<le> most_at_once sched ?s"
      by (cases sched) auto
    ultimately have "max (current_concurrent_ops (fst ?s)) (most_at_once sched ?s) = most_at_once sched ?s"
      "max h (current_concurrent_ops (fst s)) = h"
      by (simp_all add: max_absorb1 max_absorb2)
    then show ?thesis by (simp add: max.assoc) (simp add: max.assoc [symmetric])
  qed
  ultimately show ?case by simp
qed

text \<open>
  C14. Any number of concurrent updates, in any interleaving of their atomic accesses: when all
  have returned, no count is lost (total, fast, slow, failed, time), none is left inside, and the
  peak is the largest number that was inside at the same time.
\<close>

theorem concurrent_updates_exact:
  assumes run: "metrics_run sched (metrics_start xs) = (m, ts)" and fin: "\<forall>t\<in>set ts. snd t = Finished"
    and few: "length xs < 2 ^ 32"
  shows "total_operations m = of_nat (length xs)
    \<and> fast_path_operations m = of_nat (length (filter op_fast xs))
    \<and> slow_path_operations m = of_nat (length (filter (\<lambda>x. \<not> op_fast x) xs))
    \<and> failed_operations m = of_nat (length (filter op_failed xs))
    \<and> total_operation_time_ns m = (\<Sum>x\<leftarrow>xs. op_ns x)
    \<and> current_concurrent_ops m = 0
    \<and> peak_concurrent_ops m = ucast (most_at_once sched (metrics_start xs))"
proof -
  have "map fst ts = xs"
    using metrics_run_ops [of sched "metrics_start xs"] run by (simp add: metrics_start_def o_def)
  moreover have "ts = map (\<lambda>t. (fst t, Finished)) ts"
    using fin by (induction ts) auto
  ultimately have ts: "ts = map (\<lambda>x. (x, Finished)) xs"
    by (metis (no_types, lifting) list.map_comp comp_apply map_eq_conv)
  have "counters_inv (m, ts)"
    using metrics_run_counters [OF metrics_start_counters, of sched xs] run by simp
  then have counts: "total_operations m = of_nat (length xs)
    \<and> fast_path_operations m = of_nat (length (filter op_fast xs))
    \<and> slow_path_operations m = of_nat (length (filter (\<lambda>x. \<not> op_fast x) xs))
    \<and> failed_operations m = of_nat (length (filter op_failed xs))
    \<and> total_operation_time_ns m = (\<Sum>x\<leftarrow>xs. op_ns x) \<and> current_concurrent_ops m = 0"
    by (simp add: counters_inv_def ts o_def counted_total_def counted_time_def counted_path_def
        counted_failed_def counted_inside)
  have "peak_inv 0 (metrics_start xs)"
    by (simp add: peak_inv_def metrics_start_def heapstore_core_metrics_init_def thread_ok_def)
  from metrics_run_peak [OF this metrics_start_counters, of sched] few run
  have "peak_inv (most_at_once sched (metrics_start xs)) (m, ts)"
    by (simp add: metrics_start_def max.absorb2)
  then have "peak_concurrent_ops m = ucast (most_at_once sched (metrics_start xs))"
    by (auto simp: peak_inv_def ts)
  with counts show ?thesis by blast
qed

theorem concurrent_updates_exact_witness:
  "\<exists>m ts. metrics_run [0, 1, 0, 1, 0, 1, 0, 1, 0, 1, 1, 0, 1, 0, 1, 0, 1, 0]
       (metrics_start [\<lparr>op_ns = 5, op_fast = True, op_failed = False\<rparr>, \<lparr>op_ns = 7, op_fast = False, op_failed = True\<rparr>])
     = (m, ts) \<and> total_operations m = 2 \<and> total_operation_time_ns m = 12 \<and> failed_operations m = 1"
proof -
  let ?xs = "[\<lparr>op_ns = 5, op_fast = True, op_failed = False\<rparr>, \<lparr>op_ns = 7, op_fast = False, op_failed = True\<rparr>]"
  let ?sched = "[0, 1, 0, 1, 0, 1, 0, 1, 0, 1, 1, 0, 1, 0, 1, 0, 1, 0]"
  obtain m ts where run: "metrics_run ?sched (metrics_start ?xs) = (m, ts)"
    by (cases "metrics_run ?sched (metrics_start ?xs)")
  have "list_all (\<lambda>t. snd t = Finished) (snd (metrics_run ?sched (metrics_start ?xs)))"
    by code_simp
  then have "\<forall>t\<in>set ts. snd t = Finished"
    unfolding run by (simp add: list_all_iff)
  moreover have "length ?xs < 2 ^ 32" by simp
  ultimately have "total_operations m = of_nat (length ?xs)" "total_operation_time_ns m = (\<Sum>x\<leftarrow>?xs. op_ns x)"
    "failed_operations m = of_nat (length (filter op_failed ?xs))"
    using concurrent_updates_exact [OF run] by blast+
  then have "total_operations m = 2 \<and> total_operation_time_ns m = 12 \<and> failed_operations m = 1"
    by simp
  with run show ?thesis by blast
qed

section \<open>Progress\<close>

text \<open>
  The accesses an update has left, when there are n of them: the load and the compare-and-swap can
  be repeated as often as others raise the peak, which ends when it reaches the own value.
\<close>

fun steps_left :: "nat \<Rightarrow> metrics_pc \<Rightarrow> nat" where
  "steps_left n At_total = n + 8"
| "steps_left n At_time = n + 7"
| "steps_left n At_enter = n + 6"
| "steps_left n (At_load c) = unat c + 5"
| "steps_left n (At_cas c p) = (unat c - unat p) + 4"
| "steps_left n At_leave = 3"
| "steps_left n At_path = 2"
| "steps_left n At_failed = 1"
| "steps_left n Finished = 0"

definition metrics_ok :: "metrics_state \<Rightarrow> bool" where
  "metrics_ok s \<longleftrightarrow> (\<exists>h. peak_inv h s) \<and> counters_inv s \<and> length (snd s) < 2 ^ 32"

lemma metrics_ok_sched:
  assumes "metrics_ok s"
  shows "metrics_ok (metrics_sched i s)"
proof -
  obtain h where peak: "peak_inv h s" using assms by (auto simp: metrics_ok_def)
  have "current_concurrent_ops m \<noteq> 0" if "s = (m, ts)" "i < length ts" "ts ! i = (x, At_leave)" for x m ts
    using inside_not_zero [of m ts i] that assms by (simp add: metrics_ok_def)
  then have "\<exists>h. peak_inv h (metrics_sched i s)" using metrics_sched_peak [OF peak] by blast
  moreover have "length (snd (metrics_sched i s)) = length (snd s)"
    using metrics_sched_ops [of i s] by (rule map_eq_imp_length_eq)
  ultimately show ?thesis using assms by (simp add: metrics_ok_def metrics_sched_counters)
qed

lemma entrant_count:
  assumes "counters_inv (m, ts)" and "length ts < 2 ^ 32" and "i < length ts" and "\<not> inside (ts ! i)"
  shows "unat (current_concurrent_ops m + 1) \<le> length ts"
proof -
  have less: "length (filter inside ts) < length ts"
    using assms(3,4) by (metis length_filter_less nth_mem)
  have "current_concurrent_ops m + 1 = of_nat (Suc (length (filter inside ts)))"
    using assms(1) by (simp add: counters_inv_def counted_inside)
  then show ?thesis using less assms(2) by (simp only: unat_of_nat) (simp add: take_bit_nat_eq_self)
qed

lemma own_access_advances:
  assumes ok: "metrics_ok (m, ts)" and i: "i < length ts" and t: "ts ! i = (x, pc)"
    and run: "metrics_atomic (x, pc) m = ((x', pc'), m')"
  shows "steps_left (length ts) pc' \<le> steps_left (length ts) pc - 1"
proof (cases pc)
  case At_enter
  then show ?thesis using entrant_count [of m ts i] ok i t run by (auto simp: metrics_ok_def)
next
  case (At_cas c p)
  obtain h where "peak_inv h (m, ts)" using ok by (auto simp: metrics_ok_def)
  then have "p \<le> peak_concurrent_ops m"
    using i t At_cas by (auto simp: peak_inv_def thread_ok_def dest: nth_mem)
  then have later: "unat p < unat (peak_concurrent_ops m)" if "peak_concurrent_ops m \<noteq> p"
    using that by (simp add: word_less_nat_alt [symmetric])
  have below: "unat p < unat c" if "p < ucast c" using that by (simp add: word_less_nat_alt unat_ucast_u32)
  consider "\<not> p < ucast c" | "p < ucast c" "peak_concurrent_ops m = p" | "p < ucast c" "peak_concurrent_ops m \<noteq> p" by blast
  then show ?thesis
  proof cases
    case 3
    have "steps_left (length ts) pc' = unat c - unat (peak_concurrent_ops m) + 4" using At_cas run 3 by auto
    then show ?thesis using At_cas later [OF 3(2)] below [OF 3(1)] by simp
  qed (use At_cas run in simp_all)
qed (use run in auto)

lemma sched_advances:
  assumes ok: "metrics_ok s" and i: "i < length (snd s)"
  shows "steps_left (length (snd s)) (snd (snd (metrics_sched j s) ! i))
    \<le> steps_left (length (snd s)) (snd (snd s ! i)) - of_bool (j = i)"
proof -
  obtain m ts where s: "s = (m, ts)" by (cases s)
  obtain x pc where t: "ts ! i = (x, pc)" by (cases "ts ! i")
  obtain x' pc' m' where run: "metrics_atomic (x, pc) m = ((x', pc'), m')" by (metis surj_pair)
  show ?thesis
    using own_access_advances [OF ok [unfolded s] _ t run] i t run
    by (cases "j = i") (auto simp: s metrics_sched_def split: prod.splits)
qed

lemma run_advances:
  assumes "metrics_ok s" and "i < length (snd s)"
  shows "steps_left (length (snd s)) (snd (snd (metrics_run sched s) ! i))
    \<le> steps_left (length (snd s)) (snd (snd s ! i)) - count_list sched i"
  using assms
proof (induction sched arbitrary: s)
  case (Cons j sched)
  have len: "length (snd (metrics_sched j s)) = length (snd s)"
    using metrics_sched_ops [of j s] by (rule map_eq_imp_length_eq)
  from Cons.IH [OF metrics_ok_sched [OF Cons.prems(1)], of j] Cons.prems(2) len
    sched_advances [OF Cons.prems, of j]
  show ?case by auto
qed simp

text \<open>
  C15. The update is wait-free: with n updates running, whatever the others do, each of them has
  returned after n + 8 of its own accesses. Its compare-and-swap fails only when another update has
  raised the peak, and never once the peak has reached its own value.
\<close>

theorem updates_wait_free:
  assumes "i < length xs" and "length xs < 2 ^ 32" and "length xs + 8 \<le> count_list sched i"
  shows "snd (metrics_run sched (metrics_start xs)) ! i = (xs ! i, Finished)"
proof -
  let ?s = "metrics_start xs" and ?t = "snd (metrics_run sched (metrics_start xs)) ! i"
  have "peak_inv 0 ?s"
    by (simp add: peak_inv_def metrics_start_def heapstore_core_metrics_init_def thread_ok_def)
  then have "metrics_ok ?s" using assms(2) metrics_start_counters by (auto simp: metrics_ok_def metrics_start_def)
  from run_advances [OF this, of i sched] assms(1,3)
  have "steps_left (length xs) (snd ?t) = 0" by (simp add: metrics_start_def)
  then have "snd ?t = Finished" by (cases "snd ?t") auto
  moreover have "fst ?t = xs ! i"
    using metrics_run_ops [of sched ?s] metrics_run_length [of sched ?s] assms(1)
    by (metis (no_types, lifting) length_map metrics_start_def nth_map snd_conv fst_conv)
  ultimately show ?thesis by (metis prod.collapse)
qed

theorem updates_wait_free_witness:
  "snd (metrics_run (concat (replicate 10 [0, 1]))
       (metrics_start [\<lparr>op_ns = 5, op_fast = True, op_failed = False\<rparr>, \<lparr>op_ns = 7, op_fast = False, op_failed = True\<rparr>])) ! 1
     = (\<lparr>op_ns = 7, op_fast = False, op_failed = True\<rparr>, Finished)"
proof -
  let ?xs = "[\<lparr>op_ns = 5, op_fast = True, op_failed = False\<rparr>, \<lparr>op_ns = 7, op_fast = False, op_failed = True\<rparr>]"
  have "count_list (concat (replicate 10 [0, 1])) (1::nat) = 10" by code_simp
  then show ?thesis using updates_wait_free [of 1 ?xs "concat (replicate 10 [0, 1])"] by simp
qed

text \<open>
  The sequential update is the run of its atomic accesses without interference, with the eight
  accesses it makes when it raises the peak or finds it high enough.
\<close>

theorem update_is_uninterrupted_run:
  "metrics_run (replicate 8 0) (m, [(x, At_total)])
     = (heapstore_core_metrics_update (op_ns x) (op_fast x) (op_failed x) m, [(x, Finished)])"
proof -
  have alone: "metrics_sched 0 (m, [t]) = (case metrics_atomic t m of (t', m') \<Rightarrow> (m', [t']))" for m t
    by (simp add: metrics_sched_def split: prod.splits)
  have eight: "replicate 8 0 = [0, 0, 0, 0, 0, 0, 0, 0::nat]"
    by (simp add: numeral_eq_Suc)
  show ?thesis
  proof (cases m)
    case (fields tot failed fast slow trips time peak cur)
    show ?thesis
    proof (cases "peak < ucast (cur + 1)")
      case True
      then show ?thesis
        unfolding eight fields
        by (simp add: alone heapstore_core_metrics_update_def Let_def cong: let_weak_cong)
    next
      case False
      then show ?thesis
        unfolding eight fields
        by (simp add: alone heapstore_core_metrics_update_def Let_def cong: let_weak_cong)
    qed
  qed
qed

end
