(* ===== verification/HS_Circuit.thy ===== *)
theory HS_Circuit
  imports HS_Metrics
begin

text \<open>
  The circuit-breaker adapter of src/heapstore_core_circuit.c. The breaker itself is the commons
  library circuit_breaker.h, which is not part of this repository: it is the parameter \<open>cb_lib\<close>, a
  record of its entry points over a state of its own, and what the adapter relies on is stated
  as \<open>handles_ok\<close> (life and death of handles) and \<open>counts_failures\<close> (when a breaker opens). The
  adapter lock is held inside every operation and released on every path, so an operation is one
  step.
\<close>

section \<open>The commons library and the adapter state\<close>

datatype cb_state = CB_STATE_CLOSED | CB_STATE_OPEN | CB_STATE_HALF_OPEN

record cb_config =
  failure_threshold :: u32
  success_threshold :: u32
  timeout_ms :: u32
  half_open_max_calls :: u32
  failure_rate_threshold :: u32
  enable_slow_call_detection :: bool

text \<open>The entry points; a handle is a number, None is NULL. The statistics are the consecutive failures and the time of the last.\<close>

record 'w cb_lib =
  cb_create_default_config :: cb_config
  cb_manager_create :: "'w \<Rightarrow> nat option \<times> 'w"
  cb_manager_destroy :: "nat \<Rightarrow> 'w \<Rightarrow> 'w"
  cb_create :: "nat \<Rightarrow> cb_config \<Rightarrow> 'w \<Rightarrow> nat option \<times> 'w"
  cb_destroy :: "nat \<Rightarrow> 'w \<Rightarrow> 'w"
  cb_get_state :: "nat \<Rightarrow> 'w \<Rightarrow> cb_state"
  cb_record_success :: "nat \<Rightarrow> 'w \<Rightarrow> 'w"
  cb_record_failure :: "nat \<Rightarrow> 'w \<Rightarrow> 'w"
  cb_allow_request :: "nat \<Rightarrow> 'w \<Rightarrow> bool \<times> 'w"
  cb_get_stats :: "nat \<Rightarrow> 'w \<Rightarrow> (u32 \<times> u64) option"
  cb_reset :: "nat \<Rightarrow> 'w \<Rightarrow> 'w"

record circuit =
  s_cb_mgr :: "nat option"
  s_cb :: "nat option"
  s_cb_lock_ready :: bool
  s_cb_threshold :: u32
  s_cb_timeout_sec :: u32

definition circuit0 :: circuit where
  "circuit0 = \<lparr>s_cb_mgr = None, s_cb = None, s_cb_lock_ready = False, s_cb_threshold = 5, s_cb_timeout_sec = 30\<rparr>"

section \<open>Operations\<close>

definition cb_config_build :: "'w cb_lib \<Rightarrow> circuit \<Rightarrow> cb_config" where
  "cb_config_build L c = (cb_create_default_config L)
     \<lparr>failure_threshold := s_cb_threshold c, success_threshold := 1,
      timeout_ms := s_cb_timeout_sec c * 1000, half_open_max_calls := 1,
      failure_rate_threshold := 0, enable_slow_call_detection := False\<rparr>"

definition cb_arm :: "'w cb_lib \<Rightarrow> 'w \<times> circuit \<Rightarrow> bool \<times> 'w \<times> circuit" where
  "cb_arm L = (\<lambda>(w, c).
     case (case s_cb_mgr c of
             Some m \<Rightarrow> (Some m, w)
           | None \<Rightarrow> cb_manager_create L w) of
       (None, w1) \<Rightarrow> (False, w1, c\<lparr>s_cb_mgr := None\<rparr>)
     | (Some m, w1) \<Rightarrow>
         let w2 = (case s_cb c of None \<Rightarrow> w1 | Some h \<Rightarrow> cb_destroy L h w1)
         in case cb_create L m (cb_config_build L c) w2 of
              (h', w3) \<Rightarrow> (h' \<noteq> None, w3, c\<lparr>s_cb_mgr := Some m, s_cb := h'\<rparr>))"

text \<open>cb_enter: the handle of a live breaker, if there is one.\<close>

definition cb_enter :: "circuit \<Rightarrow> nat option" where
  "cb_enter c = (if \<not> s_cb_lock_ready c then None else s_cb c)"

text \<open>\<open>mtx_ok\<close>: does airy_mtx_init succeed.\<close>

definition heapstore_core_circuit_init :: "'w cb_lib \<Rightarrow> bool \<Rightarrow> 'w \<times> circuit \<Rightarrow> 'w \<times> circuit" where
  "heapstore_core_circuit_init L mtx_ok = (\<lambda>(w, c).
     if \<not> s_cb_lock_ready c \<and> \<not> mtx_ok then (w, c)
     else snd (cb_arm L (w, c\<lparr>s_cb_lock_ready := True\<rparr>)))"

definition heapstore_circ_stop :: "'w cb_lib \<Rightarrow> 'w \<times> circuit \<Rightarrow> 'w \<times> circuit" where
  "heapstore_circ_stop L = (\<lambda>(w, c).
     if \<not> s_cb_lock_ready c then (w, c)
     else
       let w1 = (case s_cb c of None \<Rightarrow> w | Some h \<Rightarrow> cb_destroy L h w);
           w2 = (case s_cb_mgr c of None \<Rightarrow> w1 | Some m \<Rightarrow> cb_manager_destroy L m w1)
       in (w2, c\<lparr>s_cb := None, s_cb_mgr := None, s_cb_lock_ready := False\<rparr>))"

definition heapstore_core_circuit_record_success :: "'w cb_lib \<Rightarrow> 'w \<times> circuit \<Rightarrow> 'w \<times> circuit" where
  "heapstore_core_circuit_record_success L = (\<lambda>(w, c).
     case cb_enter c of
       None \<Rightarrow> (w, c)
     | Some h \<Rightarrow> (cb_record_success L h w, c))"

definition heapstore_core_circuit_record_failure ::
  "'w cb_lib \<Rightarrow> ('w \<times> circuit) \<times> metrics \<Rightarrow> ('w \<times> circuit) \<times> metrics" where
  "heapstore_core_circuit_record_failure L = (\<lambda>((w, c), m).
     case cb_enter c of
       None \<Rightarrow> ((w, c), m)
     | Some h \<Rightarrow>
         let before = cb_get_state L h w;
             w' = cb_record_failure L h w
         in ((w', c),
             if before \<noteq> CB_STATE_OPEN \<and> cb_get_state L h w' = CB_STATE_OPEN
             then heapstore_core_metrics_note_circuit_trip m else m))"

definition heapstore_circuit_open :: "'w cb_lib \<Rightarrow> 'w \<times> circuit \<Rightarrow> bool \<times> 'w \<times> circuit" where
  "heapstore_circuit_open L = (\<lambda>(w, c).
     case cb_enter c of
       None \<Rightarrow> (False, w, c)
     | Some h \<Rightarrow>
         if cb_get_state L h w = CB_STATE_OPEN
         then (case cb_allow_request L h w of (ok, w') \<Rightarrow> (\<not> ok, w', c))
         else (False, w, c))"

definition heapstore_core_circuit_apply_config ::
  "'w cb_lib \<Rightarrow> u32 \<Rightarrow> u32 \<Rightarrow> 'w \<times> circuit \<Rightarrow> 'w \<times> circuit" where
  "heapstore_core_circuit_apply_config L threshold timeout_sec = (\<lambda>(w, c).
     let th = (if 0 < threshold then threshold else s_cb_threshold c);
         to = (if 0 < timeout_sec then timeout_sec else s_cb_timeout_sec c)
     in if \<not> s_cb_lock_ready c then (w, c\<lparr>s_cb_threshold := th, s_cb_timeout_sec := to\<rparr>)
        else if th \<noteq> s_cb_threshold c \<or> to \<noteq> s_cb_timeout_sec c
        then snd (cb_arm L (w, c\<lparr>s_cb_threshold := th, s_cb_timeout_sec := to\<rparr>))
        else (w, c))"

record circuit_info =
  info_state :: cb_state
  info_failure_count :: u32
  info_last_failure_time :: u64
  info_threshold :: u32
  info_timeout_sec :: u32

definition heapstore_get_circuit_state ::
  "'w cb_lib \<Rightarrow> bool \<Rightarrow> bool \<Rightarrow> 'w \<times> circuit \<Rightarrow> hs_error \<times> circuit_info option" where
  "heapstore_get_circuit_state L ready out = (\<lambda>(w, c).
     if \<not> ready then (ERR_NOT_INITIALIZED, None)
     else if \<not> out then (ERR_INVALID_PARAM, None)
     else
       let info = \<lparr>info_state = CB_STATE_CLOSED, info_failure_count = 0, info_last_failure_time = 0,
             info_threshold = s_cb_threshold c, info_timeout_sec = s_cb_timeout_sec c\<rparr>
       in case cb_enter c of
            None \<Rightarrow> (SUCCESS, Some info)
          | Some h \<Rightarrow>
              let info1 = info\<lparr>info_state := cb_get_state L h w\<rparr>
              in (SUCCESS, Some (case cb_get_stats L h w of
                    Some (n, t) \<Rightarrow>
                      if 0 < n then info1\<lparr>info_failure_count := n, info_last_failure_time := t\<rparr> else info1
                  | None \<Rightarrow> info1)))"

definition heapstore_reset_circuit :: "'w cb_lib \<Rightarrow> bool \<Rightarrow> 'w \<times> circuit \<Rightarrow> hs_error \<times> 'w \<times> circuit" where
  "heapstore_reset_circuit L ready = (\<lambda>(w, c).
     if \<not> ready then (ERR_NOT_INITIALIZED, w, c)
     else case cb_enter c of
            None \<Rightarrow> (SUCCESS, w, c)
          | Some h \<Rightarrow> (SUCCESS, cb_reset L h w, c))"

section \<open>Handles\<close>

text \<open>
  What a library of handles promises: creation returns a fresh handle, destruction ends it, the
  other calls leave the handles alone, and nothing goes wrong (\<open>fine\<close>) as long as every handle
  passed in is live. \<open>bl\<close> and \<open>ml\<close> are the live breakers and managers.
\<close>

definition manager_create_ok :: "'w cb_lib \<Rightarrow> ('w \<Rightarrow> nat set) \<Rightarrow> ('w \<Rightarrow> nat set) \<Rightarrow> ('w \<Rightarrow> bool) \<Rightarrow> bool" where
  "manager_create_ok L bl ml fine \<longleftrightarrow> (\<forall>w h w'. cb_manager_create L w = (h, w') \<longrightarrow>
     bl w' = bl w \<and> ml w' = ml w \<union> set_option h \<and> ml w \<inter> set_option h = {} \<and> fine w' = fine w)"

definition manager_destroy_ok :: "'w cb_lib \<Rightarrow> ('w \<Rightarrow> nat set) \<Rightarrow> ('w \<Rightarrow> nat set) \<Rightarrow> ('w \<Rightarrow> bool) \<Rightarrow> bool" where
  "manager_destroy_ok L bl ml fine \<longleftrightarrow> (\<forall>w m w'. m \<in> ml w \<longrightarrow> bl w = {} \<longrightarrow> w' = cb_manager_destroy L m w \<longrightarrow>
     bl w' = {} \<and> ml w' = ml w - {m} \<and> fine w' = fine w)"

definition create_ok :: "'w cb_lib \<Rightarrow> ('w \<Rightarrow> nat set) \<Rightarrow> ('w \<Rightarrow> nat set) \<Rightarrow> ('w \<Rightarrow> bool) \<Rightarrow> bool" where
  "create_ok L bl ml fine \<longleftrightarrow> (\<forall>w m cfg h w'. m \<in> ml w \<longrightarrow> cb_create L m cfg w = (h, w') \<longrightarrow>
     bl w' = bl w \<union> set_option h \<and> bl w \<inter> set_option h = {} \<and> ml w' = ml w \<and> fine w' = fine w)"

definition destroy_ok :: "'w cb_lib \<Rightarrow> ('w \<Rightarrow> nat set) \<Rightarrow> ('w \<Rightarrow> nat set) \<Rightarrow> ('w \<Rightarrow> bool) \<Rightarrow> bool" where
  "destroy_ok L bl ml fine \<longleftrightarrow> (\<forall>w h w'. h \<in> bl w \<longrightarrow> w' = cb_destroy L h w \<longrightarrow>
     bl w' = bl w - {h} \<and> ml w' = ml w \<and> fine w' = fine w)"

definition use_ok :: "'w cb_lib \<Rightarrow> ('w \<Rightarrow> nat set) \<Rightarrow> ('w \<Rightarrow> nat set) \<Rightarrow> ('w \<Rightarrow> bool) \<Rightarrow> bool" where
  "use_ok L bl ml fine \<longleftrightarrow> (\<forall>w h w'. h \<in> bl w \<longrightarrow>
     w' \<in> {cb_record_success L h w, cb_record_failure L h w, cb_reset L h w, snd (cb_allow_request L h w)} \<longrightarrow>
     bl w' = bl w \<and> ml w' = ml w \<and> fine w' = fine w)"

definition handles_ok :: "'w cb_lib \<Rightarrow> ('w \<Rightarrow> nat set) \<Rightarrow> ('w \<Rightarrow> nat set) \<Rightarrow> ('w \<Rightarrow> bool) \<Rightarrow> bool" where
  "handles_ok L bl ml fine \<longleftrightarrow> manager_create_ok L bl ml fine \<and> manager_destroy_ok L bl ml fine
     \<and> create_ok L bl ml fine \<and> destroy_ok L bl ml fine \<and> use_ok L bl ml fine"

datatype circuit_call =
    CInit bool
  | CStop
  | CSuccess
  | CFailure
  | COpen
  | CApply u32 u32
  | CReset bool

fun circuit_step :: "'w cb_lib \<Rightarrow> circuit_call \<Rightarrow> ('w \<times> circuit) \<times> metrics \<Rightarrow> ('w \<times> circuit) \<times> metrics" where
  "circuit_step L (CInit ok) (s, m) = (heapstore_core_circuit_init L ok s, m)"
| "circuit_step L CStop (s, m) = (heapstore_circ_stop L s, m)"
| "circuit_step L CSuccess (s, m) = (heapstore_core_circuit_record_success L s, m)"
| "circuit_step L CFailure s = heapstore_core_circuit_record_failure L s"
| "circuit_step L COpen (s, m) = (snd (heapstore_circuit_open L s), m)"
| "circuit_step L (CApply t to) (s, m) = (heapstore_core_circuit_apply_config L t to s, m)"
| "circuit_step L (CReset ready) (s, m) = (snd (heapstore_reset_circuit L ready s), m)"

definition circuit_run ::
  "'w cb_lib \<Rightarrow> circuit_call list \<Rightarrow> ('w \<times> circuit) \<times> metrics \<Rightarrow> ('w \<times> circuit) \<times> metrics" where
  "circuit_run L cs s = foldl (\<lambda>s c. circuit_step L c s) s cs"

text \<open>The adapter owns exactly the handles it remembers.\<close>

definition circuit_inv :: "('w \<Rightarrow> nat set) \<Rightarrow> ('w \<Rightarrow> nat set) \<Rightarrow> ('w \<Rightarrow> bool) \<Rightarrow> 'w \<times> circuit \<Rightarrow> bool" where
  "circuit_inv bl ml fine = (\<lambda>(w, c).
     bl w = set_option (s_cb c) \<and> ml w = set_option (s_cb_mgr c) \<and> fine w
     \<and> (s_cb c \<noteq> None \<longrightarrow> s_cb_mgr c \<noteq> None) \<and> (s_cb_mgr c \<noteq> None \<longrightarrow> s_cb_lock_ready c))"

lemma handles_manager_create:
  "handles_ok L bl ml fine \<Longrightarrow> cb_manager_create L w = (h, w') \<Longrightarrow>
     bl w' = bl w \<and> ml w' = ml w \<union> set_option h \<and> fine w' = fine w"
  by (drule handles_ok_def [THEN iffD1, THEN conjunct1]) (simp only: manager_create_ok_def)

lemma handles_manager_destroy:
  "handles_ok L bl ml fine \<Longrightarrow> m \<in> ml w \<Longrightarrow> bl w = {} \<Longrightarrow>
     bl (cb_manager_destroy L m w) = {} \<and> ml (cb_manager_destroy L m w) = ml w - {m}
     \<and> fine (cb_manager_destroy L m w) = fine w"
  by (simp add: handles_ok_def manager_destroy_ok_def)

lemma handles_create:
  "handles_ok L bl ml fine \<Longrightarrow> m \<in> ml w \<Longrightarrow> cb_create L m cfg w = (h, w') \<Longrightarrow>
     bl w' = bl w \<union> set_option h \<and> ml w' = ml w \<and> fine w' = fine w"
  by (drule handles_ok_def [THEN iffD1, THEN conjunct2, THEN conjunct2, THEN conjunct1]) (simp only: create_ok_def)

lemma handles_destroy:
  "handles_ok L bl ml fine \<Longrightarrow> h \<in> bl w \<Longrightarrow>
     bl (cb_destroy L h w) = bl w - {h} \<and> ml (cb_destroy L h w) = ml w \<and> fine (cb_destroy L h w) = fine w"
  by (simp add: handles_ok_def destroy_ok_def)

lemma handles_use:
  assumes "handles_ok L bl ml fine" and "h \<in> bl w"
    and "w' \<in> {cb_record_success L h w, cb_record_failure L h w, cb_reset L h w, snd (cb_allow_request L h w)}"
  shows "bl w' = bl w \<and> ml w' = ml w \<and> fine w' = fine w"
proof -
  have "use_ok L bl ml fine" using assms(1) by (simp only: handles_ok_def)
  then show ?thesis using assms(2,3) unfolding use_ok_def by (elim allE impE) assumption+
qed

lemma cb_arm_inv:
  assumes L: "handles_ok L bl ml fine" and inv: "circuit_inv bl ml fine (w, c)" and ready: "s_cb_lock_ready c"
  shows "circuit_inv bl ml fine (snd (cb_arm L (w, c)))"
proof -
  have own: "bl w = set_option (s_cb c)" "ml w = set_option (s_cb_mgr c)" "fine w"
    and lk: "s_cb c \<noteq> None \<longrightarrow> s_cb_mgr c \<noteq> None"
    using inv by (simp_all add: circuit_inv_def)
  obtain mgr w1 where mgr: "(case s_cb_mgr c of Some m \<Rightarrow> (Some m, w) | None \<Rightarrow> cb_manager_create L w) = (mgr, w1)"
    by fastforce
  have w1: "bl w1 = bl w \<and> ml w1 = set_option mgr \<and> fine w1 = fine w"
    using mgr handles_manager_create [OF L, of w mgr w1] own by (cases "s_cb_mgr c") auto
  show ?thesis
  proof (cases mgr)
    case None
    then have "s_cb_mgr c = None" using mgr by (auto split: option.splits)
    with None w1 own lk ready mgr show ?thesis by (simp add: cb_arm_def circuit_inv_def)
  next
    case (Some m)
    let ?w2 = "case s_cb c of None \<Rightarrow> w1 | Some h \<Rightarrow> cb_destroy L h w1"
    have w2: "bl ?w2 = {} \<and> ml ?w2 = {m} \<and> fine ?w2"
      using w1 own Some handles_destroy [OF L, of "the (s_cb c)" w1] by (cases "s_cb c") auto
    obtain h' w3 where new: "cb_create L m (cb_config_build L c) ?w2 = (h', w3)" by fastforce
    have "bl w3 = set_option h' \<and> ml w3 = {m} \<and> fine w3"
      using handles_create [OF L _ new] w2 by simp
    with new Some mgr ready show ?thesis by (simp add: cb_arm_def circuit_inv_def Let_def)
  qed
qed

lemma circuit_stop_inv:
  assumes L: "handles_ok L bl ml fine" and inv: "circuit_inv bl ml fine (w, c)"
  shows "circuit_inv bl ml fine (heapstore_circ_stop L (w, c))"
proof (cases "s_cb_lock_ready c")
  case True
  have own: "bl w = set_option (s_cb c)" "ml w = set_option (s_cb_mgr c)" "fine w"
    using inv by (simp_all add: circuit_inv_def)
  let ?w1 = "case s_cb c of None \<Rightarrow> w | Some h \<Rightarrow> cb_destroy L h w"
  have w1: "bl ?w1 = {} \<and> ml ?w1 = set_option (s_cb_mgr c) \<and> fine ?w1"
    using own handles_destroy [OF L, of "the (s_cb c)" w] by (cases "s_cb c") auto
  let ?w2 = "case s_cb_mgr c of None \<Rightarrow> ?w1 | Some m \<Rightarrow> cb_manager_destroy L m ?w1"
  have "bl ?w2 = {} \<and> ml ?w2 = {} \<and> fine ?w2"
    using w1 handles_manager_destroy [OF L, of "the (s_cb_mgr c)" ?w1] by (cases "s_cb_mgr c") auto
  with True show ?thesis by (simp add: heapstore_circ_stop_def circuit_inv_def Let_def)
qed (use inv in \<open>simp add: heapstore_circ_stop_def\<close>)

lemma circuit_inv_enter:
  assumes "circuit_inv bl ml fine (w, c)" and "cb_enter c = Some h"
  shows "h \<in> bl w"
  using assms by (auto simp: circuit_inv_def cb_enter_def split: if_splits)

lemma circuit_inv_use:
  assumes L: "handles_ok L bl ml fine" and inv: "circuit_inv bl ml fine (w, c)" and h: "cb_enter c = Some h"
    and "w' \<in> {cb_record_success L h w, cb_record_failure L h w, cb_reset L h w, snd (cb_allow_request L h w)}"
  shows "circuit_inv bl ml fine (w', c)"
  using handles_use [OF L circuit_inv_enter [OF inv h] assms(4)] inv by (simp add: circuit_inv_def)

lemma circuit_step_inv:
  assumes L: "handles_ok L bl ml fine" and inv: "circuit_inv bl ml fine (fst s)"
  shows "circuit_inv bl ml fine (fst (circuit_step L call s))"
proof -
  obtain w c m where s: "s = ((w, c), m)" by (metis surj_pair)
  have inv': "circuit_inv bl ml fine (w, c)" using inv by (simp add: s)
  note use = circuit_inv_use [OF L inv']
  show ?thesis
  proof (cases call)
    case (CInit ok)
    have "circuit_inv bl ml fine (w, c\<lparr>s_cb_lock_ready := True\<rparr>)"
      using inv' by (simp add: circuit_inv_def)
    from cb_arm_inv [OF L this] inv' CInit show ?thesis
      by (simp add: s heapstore_core_circuit_init_def)
  next
    case CStop
    then show ?thesis using circuit_stop_inv [OF L inv'] by (simp add: s)
  next
    case (CApply t u)
    have *: "circuit_inv bl ml fine (w, c\<lparr>s_cb_threshold := a, s_cb_timeout_sec := b\<rparr>)" for a b
      using inv' by (simp add: circuit_inv_def)
    show ?thesis
      using cb_arm_inv [OF L *] * inv' CApply
      by (simp add: s heapstore_core_circuit_apply_config_def Let_def)
  qed (auto simp: s heapstore_core_circuit_record_success_def heapstore_core_circuit_record_failure_def
      heapstore_circuit_open_def heapstore_reset_circuit_def Let_def inv' split: option.splits prod.splits
      intro!: use)
qed

lemma circuit_run_inv:
  assumes "handles_ok L bl ml fine" and "circuit_inv bl ml fine (fst s)"
  shows "circuit_inv bl ml fine (fst (circuit_run L cs s))"
  using assms(2)
  by (induction cs arbitrary: s) (simp_all add: circuit_run_def circuit_step_inv [OF assms(1)])

text \<open>
  C12. Whatever sequence of adapter calls is made from process start on, the adapter never passes a
  dead handle to the library, and the live breakers and managers are exactly the ones it still
  remembers: none is destroyed twice and none leaks.
\<close>

theorem circuit_handles_sound:
  assumes "handles_ok L bl ml fine" and "bl w = {}" and "ml w = {}" and "fine w"
    and "circuit_run L cs ((w, circuit0), m) = ((w', c'), m')"
  shows "fine w' \<and> bl w' = set_option (s_cb c') \<and> ml w' = set_option (s_cb_mgr c')
    \<and> (s_cb_lock_ready c' \<or> bl w' = {} \<and> ml w' = {})"
proof -
  have "circuit_inv bl ml fine (w, circuit0)"
    using assms(2-4) by (simp add: circuit_inv_def circuit0_def)
  then have "circuit_inv bl ml fine (w', c')"
    using circuit_run_inv [OF assms(1), of "((w, circuit0), m)" cs] assms(5) by simp
  then show ?thesis by (auto simp: circuit_inv_def)
qed

section \<open>Opening\<close>

text \<open>
  The documented counting of the commons breaker: a new one is closed with no failures, a failure
  of a closed one counts, and at the threshold it opens. \<open>view\<close> gives state, count and threshold.
\<close>

definition counts_failures :: "'w cb_lib \<Rightarrow> ('w \<Rightarrow> nat \<Rightarrow> cb_state \<times> nat \<times> u32) \<Rightarrow> bool" where
  "counts_failures L view \<longleftrightarrow>
     (\<forall>w h. cb_get_state L h w = fst (view w h))
     \<and> (\<forall>w m cfg h w'. cb_create L m cfg w = (Some h, w') \<longrightarrow>
          view w' h = (CB_STATE_CLOSED, 0, failure_threshold cfg))
     \<and> (\<forall>w h n t. view w h = (CB_STATE_CLOSED, n, t) \<longrightarrow>
          view (cb_record_failure L h w) h =
            (if unat t \<le> n + 1 then CB_STATE_OPEN else CB_STATE_CLOSED, n + 1, t))"

lemma cb_arm_view:
  assumes "counts_failures L view" and "cb_arm L (w, c) = (True, w', c')"
  shows "\<exists>h. s_cb c' = Some h \<and> view w' h = (CB_STATE_CLOSED, 0, s_cb_threshold c)
    \<and> s_cb_lock_ready c' = s_cb_lock_ready c"
  using assms
  by (auto simp: cb_arm_def counts_failures_def cb_config_build_def Let_def split: option.splits prod.splits)

lemma failures_counted:
  assumes L: "counts_failures L view" and h: "cb_enter c = Some h"
    and start: "view w h = (CB_STATE_CLOSED, 0, t)" and "k \<le> unat t" and "0 < t"
  shows "\<exists>w' m'. circuit_run L (replicate k CFailure) ((w, c), m) = ((w', c), m')
    \<and> view w' h = (if k = unat t then CB_STATE_OPEN else CB_STATE_CLOSED, k, t)
    \<and> m' = (if k = unat t then heapstore_core_metrics_note_circuit_trip m else m)"
  using assms(4)
proof (induction k)
  case 0
  have "unat t \<noteq> 0" using assms(5) by (simp add: word_less_nat_alt)
  then show ?case using start by (simp add: circuit_run_def)
next
  case (Suc k)
  then obtain w1 where run: "circuit_run L (replicate k CFailure) ((w, c), m) = ((w1, c), m)"
    and view: "view w1 h = (CB_STATE_CLOSED, k, t)"
    by auto
  have snoc: "circuit_run L (replicate (Suc k) CFailure) ((w, c), m) = circuit_step L CFailure ((w1, c), m)"
    using run by (simp add: circuit_run_def flip: replicate_append_same)
  have next_view: "view (cb_record_failure L h w1) h =
      (if unat t \<le> k + 1 then CB_STATE_OPEN else CB_STATE_CLOSED, k + 1, t)"
    using L view by (simp add: counts_failures_def)
  have state: "cb_get_state L h u = fst (view u h)" for u
    using L by (simp add: counts_failures_def)
  show ?case
    using Suc.prems unfolding snoc
    by (auto simp: heapstore_core_circuit_record_failure_def h Let_def state view next_view)
qed

text \<open>
  C37. After the breaker is armed with threshold t, the first t - 1 failures in a row keep it closed
  and count no trip; failure number t opens it and counts exactly one trip, and from then on
  a write is blocked exactly when the breaker refuses the probe.
\<close>

theorem threshold_failures_trip_once:
  assumes L: "counts_failures L view" and "0 < s_cb_threshold c"
    and armed: "cb_arm L (w, c\<lparr>s_cb_lock_ready := True\<rparr>) = (True, w', c')"
    and k: "k \<le> unat (s_cb_threshold c)"
  shows "\<exists>h w2 m2. heapstore_core_circuit_init L True (w, c) = (w', c') \<and> cb_enter c' = Some h
    \<and> circuit_run L (replicate k CFailure) ((w', c'), m) = ((w2, c'), m2)
    \<and> (cb_get_state L h w2 = CB_STATE_OPEN \<longleftrightarrow> k = unat (s_cb_threshold c))
    \<and> circuit_breaker_trips m2 = circuit_breaker_trips m + of_bool (k = unat (s_cb_threshold c))
    \<and> fst (heapstore_circuit_open L (w2, c')) =
        (k = unat (s_cb_threshold c) \<and> \<not> fst (cb_allow_request L h w2))"
proof -
  obtain h where h: "s_cb c' = Some h" "view w' h = (CB_STATE_CLOSED, 0, s_cb_threshold c)"
    "s_cb_lock_ready c'"
    using cb_arm_view [OF L armed] by auto
  then have enter: "cb_enter c' = Some h" by (simp add: cb_enter_def)
  obtain w2 m2 where run: "circuit_run L (replicate k CFailure) ((w', c'), m) = ((w2, c'), m2)"
    and view: "view w2 h = (if k = unat (s_cb_threshold c) then CB_STATE_OPEN else CB_STATE_CLOSED, k, s_cb_threshold c)"
    and m2: "m2 = (if k = unat (s_cb_threshold c) then heapstore_core_metrics_note_circuit_trip m else m)"
    using failures_counted [OF L enter h(2) k assms(2)] by blast
  have init: "heapstore_core_circuit_init L True (w, c) = (w', c')"
    using armed by (simp add: heapstore_core_circuit_init_def)
  have state: "cb_get_state L h w2 = (if k = unat (s_cb_threshold c) then CB_STATE_OPEN else CB_STATE_CLOSED)"
    using L view by (simp add: counts_failures_def)
  have "circuit_breaker_trips m2 = circuit_breaker_trips m + of_bool (k = unat (s_cb_threshold c))"
    by (simp add: m2 heapstore_core_metrics_note_circuit_trip_def)
  moreover have "fst (heapstore_circuit_open L (w2, c')) =
      (k = unat (s_cb_threshold c) \<and> \<not> fst (cb_allow_request L h w2))"
    by (simp add: heapstore_circuit_open_def enter state split: prod.splits)
  moreover have "cb_get_state L h w2 = CB_STATE_OPEN \<longleftrightarrow> k = unat (s_cb_threshold c)"
    by (simp add: state)
  ultimately show ?thesis using init enter run by blast
qed

text \<open>
  The timeout handed to the breaker is the configured one only up to 4294967 seconds: beyond
  that the 32-bit product wraps, and the breaker re-opens the path too early.
\<close>

theorem timeout_ms_wraps:
  "unat (timeout_ms (cb_config_build L c)) = (1000 * unat (s_cb_timeout_sec c)) mod 2 ^ 32
   \<and> (unat (timeout_ms (cb_config_build L c)) = 1000 * unat (s_cb_timeout_sec c)
        \<longleftrightarrow> unat (s_cb_timeout_sec c) \<le> 4294967)
   \<and> timeout_ms (cb_config_build L (c\<lparr>s_cb_timeout_sec := 4294968\<rparr>)) = 704"
proof -
  have "unat (timeout_ms (cb_config_build L c)) = (1000 * unat (s_cb_timeout_sec c)) mod 2 ^ 32"
    by (simp add: cb_config_build_def unat_word_ariths mult.commute)
  moreover have "(1000 * n) mod 2 ^ 32 = 1000 * n \<longleftrightarrow> n \<le> 4294967" for n :: nat
  proof
    assume "(1000 * n) mod 2 ^ 32 = 1000 * n"
    moreover have "(1000 * n) mod 2 ^ 32 < 2 ^ 32" by simp
    ultimately show "n \<le> 4294967" by simp
  qed simp
  moreover have "timeout_ms (cb_config_build L (c\<lparr>s_cb_timeout_sec := 4294968\<rparr>)) = 704"
    by (simp add: cb_config_build_def)
  ultimately show ?thesis by metis
qed

section \<open>A breaker library for the witnesses\<close>

text \<open>
  A small consecutive-failure breaker: its state is the next handle, the breakers with state, count
  and threshold, the live managers, and whether only live handles were passed so far.
\<close>

record demo_cb =
  dnext :: nat
  dbreakers :: "nat \<Rightarrow> (cb_state \<times> nat \<times> u32) option"
  dmgrs :: "nat \<Rightarrow> bool"
  dfine :: bool

definition demo_touch :: "nat \<Rightarrow> (cb_state \<times> nat \<times> u32 \<Rightarrow> cb_state \<times> nat \<times> u32) \<Rightarrow> demo_cb \<Rightarrow> demo_cb" where
  "demo_touch h f w = (case dbreakers w h of
     None \<Rightarrow> w\<lparr>dfine := False\<rparr>
   | Some b \<Rightarrow> w\<lparr>dbreakers := (dbreakers w)(h \<mapsto> f b)\<rparr>)"

definition demo_lib :: "demo_cb cb_lib" where
  "demo_lib = \<lparr>
     cb_create_default_config = \<lparr>failure_threshold = 5, success_threshold = 3, timeout_ms = 30000,
       half_open_max_calls = 3, failure_rate_threshold = 50, enable_slow_call_detection = True\<rparr>,
     cb_manager_create = (\<lambda>w. if dmgrs w (dnext w) then (None, w)
       else (Some (dnext w), w\<lparr>dnext := Suc (dnext w), dmgrs := (dmgrs w)(dnext w := True)\<rparr>)),
     cb_manager_destroy = (\<lambda>m w. if dmgrs w m then w\<lparr>dmgrs := (dmgrs w)(m := False)\<rparr> else w\<lparr>dfine := False\<rparr>),
     cb_create = (\<lambda>m cfg w. if \<not> dmgrs w m then (None, w\<lparr>dfine := False\<rparr>)
       else if dbreakers w (dnext w) \<noteq> None then (None, w)
       else (Some (dnext w), w\<lparr>dnext := Suc (dnext w),
              dbreakers := (dbreakers w)(dnext w \<mapsto> (CB_STATE_CLOSED, 0, failure_threshold cfg))\<rparr>)),
     cb_destroy = (\<lambda>h w. if dbreakers w h = None then w\<lparr>dfine := False\<rparr>
       else w\<lparr>dbreakers := (dbreakers w)(h := None)\<rparr>),
     cb_get_state = (\<lambda>h w. case dbreakers w h of Some (st, _) \<Rightarrow> st | None \<Rightarrow> CB_STATE_OPEN),
     cb_record_success = (\<lambda>h. demo_touch h (\<lambda>(st, n, t). (CB_STATE_CLOSED, 0, t))),
     cb_record_failure = (\<lambda>h. demo_touch h (\<lambda>(st, n, t). (if unat t \<le> n + 1 then CB_STATE_OPEN else st, n + 1, t))),
     cb_allow_request = (\<lambda>h w. (False, demo_touch h (\<lambda>b. b) w)),
     cb_get_stats = (\<lambda>h w. map_option (\<lambda>(st, n, t). (of_nat n, 0)) (dbreakers w h)),
     cb_reset = (\<lambda>h. demo_touch h (\<lambda>(st, n, t). (CB_STATE_CLOSED, 0, t)))\<rparr>"

definition demo_view :: "demo_cb \<Rightarrow> nat \<Rightarrow> cb_state \<times> nat \<times> u32" where
  "demo_view w h = (case dbreakers w h of Some b \<Rightarrow> b | None \<Rightarrow> (CB_STATE_OPEN, 0, 0))"

definition demo_cb0 :: demo_cb where
  "demo_cb0 = \<lparr>dnext = 0, dbreakers = Map.empty, dmgrs = (\<lambda>_. False), dfine = True\<rparr>"

lemma demo_touch_handles:
  assumes "h \<in> dom (dbreakers w)"
  shows "dom (dbreakers (demo_touch h f w)) = dom (dbreakers w)
     \<and> dmgrs (demo_touch h f w) = dmgrs w \<and> dfine (demo_touch h f w) = dfine w"
proof -
  from assms obtain b where "dbreakers w h = Some b" by blast
  with assms show ?thesis by (simp add: demo_touch_def insert_absorb)
qed

lemma demo_handles_ok: "handles_ok demo_lib (\<lambda>w. dom (dbreakers w)) (\<lambda>w. Collect (dmgrs w)) dfine"
proof -
  have "manager_create_ok demo_lib (\<lambda>w. dom (dbreakers w)) (\<lambda>w. Collect (dmgrs w)) dfine"
    by (auto simp: manager_create_ok_def demo_lib_def split: if_splits)
  moreover have "manager_destroy_ok demo_lib (\<lambda>w. dom (dbreakers w)) (\<lambda>w. Collect (dmgrs w)) dfine"
    by (auto simp: manager_destroy_ok_def demo_lib_def split: if_splits)
  moreover have "create_ok demo_lib (\<lambda>w. dom (dbreakers w)) (\<lambda>w. Collect (dmgrs w)) dfine"
    by (auto simp: create_ok_def demo_lib_def split: if_splits)
  moreover have "destroy_ok demo_lib (\<lambda>w. dom (dbreakers w)) (\<lambda>w. Collect (dmgrs w)) dfine"
    by (auto simp: destroy_ok_def demo_lib_def split: if_splits)
  moreover have "use_ok demo_lib (\<lambda>w. dom (dbreakers w)) (\<lambda>w. Collect (dmgrs w)) dfine"
    using demo_touch_handles by (auto simp: use_ok_def demo_lib_def)
  ultimately show ?thesis by (simp add: handles_ok_def)
qed

lemma demo_counts: "counts_failures demo_lib demo_view"
  by (auto simp: counts_failures_def demo_lib_def demo_view_def demo_touch_def split: option.splits if_splits)

theorem circuit_handles_sound_witness:
  "\<exists>w c m. circuit_run demo_lib [CInit True, CFailure, CApply 2 10, CStop] ((demo_cb0, circuit0), heapstore_core_metrics_init)
     = ((w, c), m) \<and> dfine w \<and> dom (dbreakers w) = set_option (s_cb c)"
proof -
  obtain w c m where run: "circuit_run demo_lib [CInit True, CFailure, CApply 2 10, CStop]
      ((demo_cb0, circuit0), heapstore_core_metrics_init) = ((w, c), m)"
    by (metis surj_pair)
  have "dom (dbreakers demo_cb0) = {}" "Collect (dmgrs demo_cb0) = {}" "dfine demo_cb0"
    by (simp_all add: demo_cb0_def)
  from circuit_handles_sound [OF demo_handles_ok this run] run show ?thesis by blast
qed

theorem threshold_failures_trip_once_witness:
  "\<exists>w c h w2 m2. heapstore_core_circuit_init demo_lib True (demo_cb0, circuit0) = (w, c) \<and> cb_enter c = Some h
     \<and> circuit_run demo_lib (replicate 5 CFailure) ((w, c), heapstore_core_metrics_init) = ((w2, c), m2)
     \<and> cb_get_state demo_lib h w2 = CB_STATE_OPEN \<and> circuit_breaker_trips m2 = 1
     \<and> fst (heapstore_circuit_open demo_lib (w2, c))"
proof -
  let ?c = "circuit0\<lparr>s_cb_lock_ready := True\<rparr>"
  obtain w c where armed: "cb_arm demo_lib (demo_cb0, ?c) = (True, w, c)"
    by (simp add: cb_arm_def demo_lib_def demo_cb0_def circuit0_def)
  have "0 < s_cb_threshold circuit0" "5 \<le> unat (s_cb_threshold circuit0)"
    "5 = unat (s_cb_threshold circuit0)"
    by (simp_all add: circuit0_def)
  moreover have "fst (cb_allow_request demo_lib h w2) = False" for h w2
    by (simp add: demo_lib_def)
  moreover have "circuit_breaker_trips heapstore_core_metrics_init = 0"
    by (simp add: heapstore_core_metrics_init_def)
  ultimately show ?thesis
    using threshold_failures_trip_once [OF demo_counts _ armed, of 5 heapstore_core_metrics_init]
    by auto
qed

end
