(* ===== verification/HS_Migration.thy ===== *)
theory HS_Migration
  imports HS_Utils
begin

text \<open>
  The schema migration of src/heapstore_migration.c and src/heapstore_migration_forward.c: the
  version file with its parser and its atomic replacement, the step runner with its report, and
  the declarative column steps on the SQLite database with backup and restore. SQLite is the
  parameter \<open>sqlite\<close>; a build without it is None. \<open>ready\<close> and \<open>root\<close> stand for heapstore_ready()
  and heapstore_get_root().
\<close>

definition SCHEMA_VERSION_CURRENT :: u32 where "SCHEMA_VERSION_CURRENT = 10000"

section \<open>The version file\<close>

definition mig_get_version_file_path :: "string \<Rightarrow> string" where
  "mig_get_version_file_path root = snprintf_buf 512 (root @ ''/'' @ ''.schema_version'')"

text \<open>mig_fsync_file: False is the return value -1.\<close>

definition mig_fsync_file :: "os \<Rightarrow> nat \<Rightarrow> bool" where
  "mig_fsync_file w f \<longleftrightarrow> \<not> io_error w f"

text \<open>
  strtoul in base 10: the sign, the digits' value, and the rest of the string; None when there is no
  number. The blanks isspace accepts are the six of the C locale.
\<close>

definition is_space :: "char \<Rightarrow> bool" where
  "is_space c \<longleftrightarrow> c \<in> {CHR '' '', CHR 0x09, CHR 0x0A, CHR 0x0B, CHR 0x0C, CHR 0x0D}"

definition is_digit :: "char \<Rightarrow> bool" where
  "is_digit c \<longleftrightarrow> 48 \<le> (of_char c :: nat) \<and> (of_char c :: nat) \<le> 57"

definition digits_val :: "string \<Rightarrow> nat" where
  "digits_val ds = foldl (\<lambda>v c. 10 * v + (of_char c - 48)) 0 ds"

definition strtoul :: "string \<Rightarrow> (bool \<times> nat \<times> string) option" where
  "strtoul s =
     (let t = dropWhile is_space s;
          u = (if t \<noteq> [] \<and> (hd t = CHR ''+'' \<or> hd t = CHR ''-'') then tl t else t);
          ds = takeWhile is_digit u
      in if ds = [] then None
         else Some (t \<noteq> [] \<and> hd t = CHR ''-'', digits_val ds, dropWhile is_digit u))"

definition is_blank :: "char \<Rightarrow> bool" where
  "is_blank c \<longleftrightarrow> c = CHR '' '' \<or> c = CHR 0x09 \<or> c = CHR 0x0D \<or> c = CHR 0x0A"

text \<open>The part of get_version after the line was read; None is ERR_FILE_CORRUPT.\<close>

definition parse_version :: "string \<Rightarrow> u32 option" where
  "parse_version ver_buf =
     (case strtoul ver_buf of
        None \<Rightarrow> None
      | Some (neg, v, rest) \<Rightarrow>
          if 2 ^ 64 \<le> v then None
          else
            let val = (if neg then - of_nat v else of_nat v) :: u64;
                scan = dropWhile is_blank ver_buf
            in if scan = [] \<or> \<not> is_digit (hd scan) then None
               else if \<not> list_all is_blank rest then None
               else Some (ucast val))"

definition heapstore_migration_get_version :: "bool \<Rightarrow> bool \<Rightarrow> string \<Rightarrow> os \<Rightarrow> hs_error \<times> u32 option" where
  "heapstore_migration_get_version out ready root w =
     (if \<not> out then (ERR_INVALID_PARAM, None)
      else if \<not> ready then (ERR_NOT_INITIALIZED, None)
      else case fopen_r w (mig_get_version_file_path root) of
        Inl enoent \<Rightarrow> if enoent then (SUCCESS, Some 0) else (ERR_FILE_OPEN_FAILED, None)
      | Inr f \<Rightarrow>
          (case fgets_first 32 f w of
             None \<Rightarrow> (ERR_FILE_CORRUPT, None)
           | Some ver_buf \<Rightarrow>
               (case parse_version ver_buf of
                  None \<Rightarrow> (ERR_FILE_CORRUPT, None)
                | Some v \<Rightarrow> (SUCCESS, Some v))))"

definition heapstore_migration_set_version :: "bool \<Rightarrow> string \<Rightarrow> u32 \<Rightarrow> os \<Rightarrow> hs_error \<times> os" where
  "heapstore_migration_set_version ready root version w =
     (if \<not> ready then (ERR_NOT_INITIALIZED, w)
      else
        let version_path = mig_get_version_file_path root;
            tmp_path = version_path @ ''.tmp''
        in if 512 \<le> length tmp_path then (ERR_CONFIG_INVALID, w)
           else case fopen_w w tmp_path of
             (None, w1) \<Rightarrow> (ERR_FILE_OPEN_FAILED, w1)
           | (Some f, w1) \<Rightarrow>
               let w2 = fputs (show_word version @ [CHR 0x0A]) f w1 in
               if \<not> mig_fsync_file w2 f then (ERR_FILE_OPERATION_FAILED, snd (os_unlink w2 tmp_path))
               else case os_rename w2 tmp_path version_path of
                 (False, w3) \<Rightarrow> (ERR_FILE_OPERATION_FAILED, snd (os_unlink w3 tmp_path))
               | (True, w3) \<Rightarrow> (SUCCESS, w3))"

text \<open>The outputs needs_migration and current_version, as far as the call writes them.\<close>

definition heapstore_migration_check ::
  "bool \<Rightarrow> bool \<Rightarrow> string \<Rightarrow> os \<Rightarrow> hs_error \<times> bool option \<times> u32 option \<times> os" where
  "heapstore_migration_check out ready root w =
     (if \<not> out then (ERR_INVALID_PARAM, None, None, w)
      else case heapstore_migration_get_version True ready root w of
        (err, v) \<Rightarrow>
          if err \<noteq> SUCCESS then (err, None, None, w)
          else
            let disk_version = the v in
            if disk_version = 0
            then (case heapstore_migration_set_version ready root SCHEMA_VERSION_CURRENT w of
                    (e, w') \<Rightarrow> (e, Some False, Some disk_version, w'))
            else (SUCCESS, Some (disk_version < SCHEMA_VERSION_CURRENT), Some disk_version, w))"

definition mig_entry_begin :: "bool \<Rightarrow> string \<Rightarrow> os \<Rightarrow> hs_error \<times> u32 option" where
  "mig_entry_begin ready root w =
     (if \<not> ready then (ERR_NOT_INITIALIZED, None) else heapstore_migration_get_version True ready root w)"

section \<open>Backup of the database file\<close>

definition backup_of :: "string \<Rightarrow> string" where
  "backup_of file_path = snprintf_buf 512 (file_path @ ''.pre_migration_bak'')"

text \<open>The copy loop moves the whole content in blocks of 8192 bytes; a failing fwrite or fsync ends it.\<close>

definition mig_backup_data_file :: "string \<Rightarrow> os \<Rightarrow> hs_error \<times> os" where
  "mig_backup_data_file file_path w =
     (case fopen_r w file_path of
        Inl _ \<Rightarrow> (ERR_FILE_OPEN_FAILED, w)
      | Inr src \<Rightarrow>
          (case fopen_w w (backup_of file_path) of
             (None, w1) \<Rightarrow> (ERR_FILE_OPEN_FAILED, w1)
           | (Some dst, w1) \<Rightarrow>
               if is_dir (inodes w1 src) then (ERR_FILE_OPERATION_FAILED, w1)
               else
                 let w2 = fputs (content (inodes w1 src)) dst w1 in
                 if \<not> mig_fsync_file w2 dst then (ERR_FILE_OPERATION_FAILED, w2)
                 else (SUCCESS, w2)))"

definition mig_restore_data_file :: "string \<Rightarrow> os \<Rightarrow> hs_error \<times> os" where
  "mig_restore_data_file file_path w =
     (case os_rename w (backup_of file_path) file_path of
        (False, w') \<Rightarrow> (ERR_FILE_OPERATION_FAILED, w')
      | (True, w') \<Rightarrow> (SUCCESS, w'))"

definition mig_cleanup_backup_file :: "string \<Rightarrow> os \<Rightarrow> os" where
  "mig_cleanup_backup_file file_path w = snd (os_unlink w (backup_of file_path))"

definition mig_db_path :: "string \<Rightarrow> string" where
  "mig_db_path root = snprintf_buf 512 (root @ ''/registry/registry.db'')"

section \<open>Column operations\<close>

text \<open>
  The entry points of SQLite that the migration uses. A result row is the list of its column texts
  (None is SQL NULL); \<open>sq_rows\<close> is prepare, step to the end and finalize, None when the statement
  does not prepare; \<open>sq_count\<close> reads the integer of a one-row query.
\<close>

record sqlite =
  sq_open :: "string \<Rightarrow> os \<Rightarrow> nat option \<times> os"
  sq_exec :: "nat \<Rightarrow> string \<Rightarrow> os \<Rightarrow> bool \<times> os"
  sq_rows :: "nat \<Rightarrow> string \<Rightarrow> os \<Rightarrow> string option list list option"
  sq_count :: "nat \<Rightarrow> string \<Rightarrow> os \<Rightarrow> u64 option"
  sq_close :: "nat \<Rightarrow> os \<Rightarrow> os"

definition mig_db_open :: "sqlite \<Rightarrow> string \<Rightarrow> os \<Rightarrow> nat option \<times> os" where
  "mig_db_open S root w = sq_open S (mig_db_path root) w"

definition mig_table_has_column :: "sqlite \<Rightarrow> nat \<Rightarrow> string \<Rightarrow> string \<Rightarrow> os \<Rightarrow> bool" where
  "mig_table_has_column S db table column w =
     (case sq_rows S db (snprintf_buf 192 (''PRAGMA table_info('' @ table @ '');'')) w of
        None \<Rightarrow> False
      | Some rows \<Rightarrow> list_ex (\<lambda>r. r ! 1 = Some column) rows)"

definition mig_add_column ::
  "sqlite \<Rightarrow> nat \<Rightarrow> string \<Rightarrow> string \<Rightarrow> string \<Rightarrow> os \<Rightarrow> hs_error \<times> u64 \<times> os" where
  "mig_add_column S db table column column_def w =
     (if mig_table_has_column S db table column w then (SUCCESS, 0, w)
      else case sq_exec S db (snprintf_buf 256 (''ALTER TABLE '' @ table @ '' ADD COLUMN '' @ column_def @ '';'')) w of
        (False, w') \<Rightarrow> (ERR_DB_QUERY_FAILED, 0, w')
      | (True, w') \<Rightarrow>
          (case sq_count S db (snprintf_buf 256 (''SELECT COUNT(*) FROM '' @ table @ '';'')) w' of
             Some n \<Rightarrow> (SUCCESS, n, w')
           | None \<Rightarrow> (SUCCESS, 0, w')))"

text \<open>The list of columns to keep, built with strncat in a buffer of 1024 bytes.\<close>

definition strncat_buf :: "nat \<Rightarrow> string \<Rightarrow> string \<Rightarrow> string" where
  "strncat_buf n buf s = buf @ take (n - length buf - 1) s"

fun keep_columns :: "string list \<Rightarrow> string option list list \<Rightarrow> string \<Rightarrow> string" where
  "keep_columns drops [] keep_cols = keep_cols"
| "keep_columns drops (r # rows) keep_cols =
     (case r ! 1 of
        None \<Rightarrow> keep_columns drops rows keep_cols
      | Some name \<Rightarrow>
          if name \<in> set drops then keep_columns drops rows keep_cols
          else
            let buf = (if keep_cols \<noteq> [] then strncat_buf 1024 keep_cols '', '' else keep_cols)
            in keep_columns drops rows (strncat_buf 1024 buf name))"

text \<open>The statements of the rebuild; the first that fails rolls the transaction back.\<close>

fun exec_or_rollback :: "sqlite \<Rightarrow> nat \<Rightarrow> string list \<Rightarrow> os \<Rightarrow> bool \<times> os" where
  "exec_or_rollback S db [] w = (True, w)"
| "exec_or_rollback S db (q # qs) w =
     (case sq_exec S db q w of
        (False, w') \<Rightarrow> (False, snd (sq_exec S db ''ROLLBACK;'' w'))
      | (True, w') \<Rightarrow> exec_or_rollback S db qs w')"

definition mig_drop_columns ::
  "sqlite \<Rightarrow> nat \<Rightarrow> string \<Rightarrow> string list \<Rightarrow> os \<Rightarrow> hs_error \<times> u64 \<times> os" where
  "mig_drop_columns S db table drop_columns w =
     (case sq_rows S db (snprintf_buf 192 (''PRAGMA table_info('' @ table @ '');'')) w of
        None \<Rightarrow> (ERR_DB_QUERY_FAILED, 0, w)
      | Some rows \<Rightarrow>
          let keep_cols = keep_columns drop_columns rows [] in
          if keep_cols = [] then (ERR_DB_QUERY_FAILED, 0, w)
          else case sq_exec S db ''BEGIN;'' w of
            (False, w1) \<Rightarrow> (ERR_DB_QUERY_FAILED, 0, w1)
          | (True, w1) \<Rightarrow>
              (case exec_or_rollback S db
                  [snprintf_buf 1200 (''CREATE TABLE '' @ table @ ''_tmp AS SELECT '' @ keep_cols @ '' FROM '' @ table @ '';''),
                   snprintf_buf 1200 (''DROP TABLE '' @ table @ '';''),
                   snprintf_buf 1200 (''ALTER TABLE '' @ table @ ''_tmp RENAME TO '' @ table @ '';'')] w1 of
                 (False, w2) \<Rightarrow> (ERR_DB_QUERY_FAILED, 0, w2)
               | (True, w2) \<Rightarrow>
                   let w3 = (if table = ''agents''
                             then snd (sq_exec S db ''CREATE INDEX IF NOT EXISTS idx_agent_type ON agents(type);'' w2)
                             else if table = ''sessions''
                             then snd (sq_exec S db ''CREATE INDEX IF NOT EXISTS idx_session_user ON sessions(user_id);'' w2)
                             else w2)
                   in (case exec_or_rollback S db [''COMMIT;''] w3 of
                         (False, w4) \<Rightarrow> (ERR_DB_QUERY_FAILED, 0, w4)
                       | (True, w4) \<Rightarrow>
                           (SUCCESS, (case sq_count S db (snprintf_buf 1200 (''SELECT COUNT(*) FROM '' @ table @ '';'')) w4 of
                                        Some n \<Rightarrow> n | None \<Rightarrow> 0), w4))))"

text \<open>A column operation adds a column, or drops columns when \<open>drop_columns\<close> is not NULL.\<close>

record mig_col_op =
  op_table :: string
  op_column :: string
  op_column_def :: string
  op_drop_columns :: "string list option"

fun col_ops_loop :: "sqlite \<Rightarrow> nat \<Rightarrow> mig_col_op list \<Rightarrow> u64 \<Rightarrow> os \<Rightarrow> hs_error \<times> u64 \<times> os" where
  "col_ops_loop S db [] affected w = (SUCCESS, affected, w)"
| "col_ops_loop S db (x # xs) affected w =
     (case (case op_drop_columns x of
              Some drops \<Rightarrow> mig_drop_columns S db (op_table x) drops w
            | None \<Rightarrow> mig_add_column S db (op_table x) (op_column x) (op_column_def x) w) of
        (err, n, w') \<Rightarrow>
          if err \<noteq> SUCCESS then (err, affected, w') else col_ops_loop S db xs (affected + n) w')"

definition mig_apply_cols :: "sqlite option \<Rightarrow> string \<Rightarrow> mig_col_op list \<Rightarrow> os \<Rightarrow> hs_error \<times> u64 \<times> os" where
  "mig_apply_cols SO root ops w =
     (case SO of
        None \<Rightarrow> (SUCCESS, 0, w)
      | Some S \<Rightarrow>
          let db_path = mig_db_path root in
          if os_stat w db_path = None then (SUCCESS, 0, w)
          else case mig_backup_data_file db_path w of
            (err, w1) \<Rightarrow>
              if err \<noteq> SUCCESS then (err, 0, w1)
              else case mig_db_open S root w1 of
                (None, w2) \<Rightarrow> (ERR_DB_INIT_FAILED, 0, snd (mig_restore_data_file db_path w2))
              | (Some db, w2) \<Rightarrow>
                  (case col_ops_loop S db ops 0 w2 of
                     (err, affected, w3) \<Rightarrow>
                       if err \<noteq> SUCCESS
                       then (err, 0, snd (mig_restore_data_file db_path (sq_close S db w3)))
                       else (SUCCESS, affected, mig_cleanup_backup_file db_path (sq_close S db w3))))"

section \<open>Steps and reports\<close>

text \<open>A step of the table; \<open>step_execute\<close> is the function it points to. Times are airy_time_ms of the commons library, the parameter \<open>now\<close>.\<close>

record migration_step_def =
  step_name :: string
  step_execute :: "os \<Rightarrow> hs_error \<times> u64 \<times> os"
  step_from :: u32
  step_to :: u32

record migration_step =
  ms_name :: string
  ms_result :: hs_error
  ms_records_affected :: u64
  ms_duration_ms :: u64

text \<open>The report; \<open>mr_steps\<close> is None while the pointer is NULL.\<close>

record migration_report =
  mr_from_version :: u32
  mr_to_version :: u32
  mr_step_count :: nat
  mr_steps :: "migration_step list option"
  mr_success :: bool
  mr_total_duration_ms :: u64
  mr_total_records_affected :: u64

definition zero_step :: migration_step where
  "zero_step = \<lparr>ms_name = [], ms_result = SUCCESS, ms_records_affected = 0, ms_duration_ms = 0\<rparr>"

definition mig_report_noop :: "u32 \<Rightarrow> migration_report" where
  "mig_report_noop version = \<lparr>mr_from_version = version, mr_to_version = version, mr_step_count = 0,
     mr_steps = None, mr_success = True, mr_total_duration_ms = 0, mr_total_records_affected = 0\<rparr>"

definition mig_report_prepare :: "u32 \<Rightarrow> u32 \<Rightarrow> nat \<Rightarrow> allocator \<Rightarrow> migration_report \<times> allocator" where
  "mig_report_prepare from_version to_version step_count al =
     (case airy_alloc al of
        (a, al') \<Rightarrow>
          (\<lparr>mr_from_version = from_version, mr_to_version = to_version, mr_step_count = step_count,
            mr_steps = (case a of None \<Rightarrow> None | Some _ \<Rightarrow> Some (replicate step_count zero_step)),
            mr_success = False, mr_total_duration_ms = 0, mr_total_records_affected = 0\<rparr>, al'))"

text \<open>Selecting the applicable steps, at most 64 (HEAPSTORE_MIGRATION_MAX_STEPS).\<close>

fun applicable_loop ::
  "migration_step_def list \<Rightarrow> u32 \<Rightarrow> u32 \<Rightarrow> migration_step_def list \<Rightarrow> migration_step_def list" where
  "applicable_loop [] cur target acc = acc"
| "applicable_loop (s # ss) cur target acc =
     (if 64 \<le> length acc then acc
      else if cur \<le> step_from s \<and> step_to s \<le> target
      then applicable_loop ss cur target (acc @ [s])
      else applicable_loop ss cur target acc)"

text \<open>Executing them; the index i is where the report entry goes.\<close>

fun execute_loop ::
  "airy \<Rightarrow> (os \<Rightarrow> u64) \<Rightarrow> migration_step_def list \<Rightarrow> nat \<Rightarrow> migration_step list option \<Rightarrow> os
     \<Rightarrow> bool \<times> migration_step list option \<times> os" where
  "execute_loop A now [] i rep w = (True, rep, w)"
| "execute_loop A now (s # ss) i rep w =
     (case step_execute s w of
        (step_err, records, w') \<Rightarrow>
          let rep' = map_option (\<lambda>r. r[i := \<lparr>ms_name = strncpy_term A (step_name s) 128, ms_result = step_err,
                       ms_records_affected = records, ms_duration_ms = now w' - now w\<rparr>]) rep
          in if step_err \<noteq> SUCCESS then (False, rep', w') else execute_loop A now ss (Suc i) rep' w')"

text \<open>\<open>report\<close>: is the report pointer given.\<close>

definition mig_run_steps ::
  "airy \<Rightarrow> (os \<Rightarrow> u64) \<Rightarrow> bool \<Rightarrow> string \<Rightarrow> migration_step_def list \<Rightarrow> u32 \<Rightarrow> u32 \<Rightarrow> bool \<Rightarrow> allocator \<times> os
     \<Rightarrow> hs_error \<times> migration_report option \<times> allocator \<times> os" where
  "mig_run_steps A now ready root steps cur target report = (\<lambda>(al, w).
     let applicable = applicable_loop steps cur target [];
         prep = mig_report_prepare cur target (length applicable) al;
         r0 = (if report then Some (fst prep) else None);
         al' = (if report then snd prep else al)
     in case execute_loop A now applicable 0 (Option.bind r0 mr_steps) w of
          (ok, reps, w1) \<Rightarrow>
            (case (if ok then (case heapstore_migration_set_version ready root target w1 of
                                 (e, w2) \<Rightarrow> (e = SUCCESS, w2))
                   else (False, w1)) of
               (all_success, w2) \<Rightarrow>
                 (if all_success then SUCCESS else ERR_INTERNAL,
                  map_option (\<lambda>r. r\<lparr>mr_steps := reps, mr_success := all_success,
                                   mr_total_duration_ms := now w2 - now w\<rparr>) r0,
                  al', w2)))"

definition heapstore_migration_report_free :: "migration_report \<Rightarrow> migration_report" where
  "heapstore_migration_report_free r =
     (case mr_steps r of None \<Rightarrow> r | Some _ \<Rightarrow> r\<lparr>mr_steps := None, mr_step_count := 0\<rparr>)"

section \<open>Forward migration\<close>

definition migrate_v1_0_to_v1_1_agent_fields :: "sqlite option \<Rightarrow> string \<Rightarrow> os \<Rightarrow> hs_error \<times> u64 \<times> os" where
  "migrate_v1_0_to_v1_1_agent_fields SO root = mig_apply_cols SO root
     [\<lparr>op_table = ''agents'', op_column = ''priority'', op_column_def = ''priority INTEGER DEFAULT 0'', op_drop_columns = None\<rparr>,
      \<lparr>op_table = ''agents'', op_column = ''tags'', op_column_def = ''tags TEXT DEFAULT '' @ [CHR 0x27, CHR 0x27], op_drop_columns = None\<rparr>]"

definition migrate_v1_1_to_v2_0_session_metadata :: "sqlite option \<Rightarrow> string \<Rightarrow> os \<Rightarrow> hs_error \<times> u64 \<times> os" where
  "migrate_v1_1_to_v2_0_session_metadata SO root = mig_apply_cols SO root
     [\<lparr>op_table = ''sessions'', op_column = ''metadata'', op_column_def = ''metadata TEXT DEFAULT '' @ [CHR 0x27, CHR 0x27], op_drop_columns = None\<rparr>]"

text \<open>The step table; its names hold an arrow (UTF-8 bytes E2 86 92).\<close>

definition forward_steps :: "sqlite option \<Rightarrow> string \<Rightarrow> migration_step_def list" where
  "forward_steps SO root =
     [\<lparr>step_name = ''v1.0'' @ [CHR 0xE2, CHR 0x86, CHR 0x92] @ ''v1.1: Agent priority/tags fields'',
       step_execute = migrate_v1_0_to_v1_1_agent_fields SO root, step_from = 10000, step_to = 10100\<rparr>,
      \<lparr>step_name = ''v1.1'' @ [CHR 0xE2, CHR 0x86, CHR 0x92] @ ''v2.0: Session metadata field'',
       step_execute = migrate_v1_1_to_v2_0_session_metadata SO root, step_from = 10100, step_to = 20000\<rparr>]"

text \<open>The report is None when the call does not write it.\<close>

definition heapstore_migration_forward ::
  "airy \<Rightarrow> (os \<Rightarrow> u64) \<Rightarrow> sqlite option \<Rightarrow> bool \<Rightarrow> string \<Rightarrow> u32 \<Rightarrow> bool \<Rightarrow> allocator \<times> os
     \<Rightarrow> hs_error \<times> migration_report option \<times> allocator \<times> os" where
  "heapstore_migration_forward A now SO ready root target_version report = (\<lambda>(al, w).
     case mig_entry_begin ready root w of
       (err, v) \<Rightarrow>
         if err \<noteq> SUCCESS then (err, None, al, w)
         else
           let current_ver = the v;
               target = (if target_version = 0 then SCHEMA_VERSION_CURRENT else target_version)
           in if target \<le> current_ver
              then (SUCCESS, if report then Some (mig_report_noop current_ver) else None, al, w)
              else mig_run_steps A now ready root (forward_steps SO root) current_ver target report (al, w))"

section \<open>Numbers\<close>

lemma of_char_digit: "n < 10 \<Longrightarrow> of_char (char_of (48 + n) :: char) = 48 + n" for n :: nat
  by (simp add: of_char_of)

lemma digits_val_snoc: "digits_val (ds @ [c]) = 10 * digits_val ds + (of_char c - 48)"
  by (simp add: digits_val_def)

lemma show_nat_digits: "list_all is_digit (show_nat n) \<and> show_nat n \<noteq> [] \<and> digits_val (show_nat n) = n"
proof (induction n rule: show_nat.induct)
  case (1 n)
  show ?case
  proof (cases "n < 10")
    case True
    then show ?thesis
      by (subst (1 2 3) show_nat.simps) (simp add: is_digit_def of_char_digit digits_val_def)
  next
    case False
    have last: "of_char (char_of (48 + n mod 10) :: char) = 48 + n mod 10"
      by (rule of_char_digit) simp
    have "show_nat n = show_nat (n div 10) @ [char_of (48 + n mod 10)]"
      using False by (subst show_nat.simps) simp
    then show ?thesis
      using 1 False last by (simp add: is_digit_def digits_val_snoc)
  qed
qed

lemma digit_not_space: "is_digit c \<Longrightarrow> \<not> is_space c \<and> \<not> is_blank c \<and> c \<noteq> CHR ''+'' \<and> c \<noteq> CHR ''-''
    \<and> c \<noteq> CHR 0x0A \<and> c \<noteq> CHR 0x00"
  by (auto simp: is_digit_def is_space_def is_blank_def)

text \<open>A decimal number followed by blanks parses to its value, modulo 2^32.\<close>

lemma parse_version_number:
  assumes "n < 2 ^ 64" and "list_all is_blank tail"
  shows "parse_version (show_nat n @ tail) = Some (of_nat n)"
proof -
  obtain d ds where ds: "show_nat n = d # ds" "is_digit d" "list_all is_digit ds" "digits_val (d # ds) = n"
    using show_nat_digits [of n] by (cases "show_nat n") auto
  have stop: "takeWhile is_digit tail = []" "dropWhile is_digit tail = tail"
    using assms(2) digit_not_space by (cases tail; auto)+
  have tw: "takeWhile is_digit (show_nat n @ tail) = show_nat n"
    and dw: "dropWhile is_digit (show_nat n @ tail) = tail"
    using show_nat_digits [of n] stop by (simp_all add: list_all_iff takeWhile_append2 dropWhile_append2)
  have "strtoul (show_nat n @ tail) = Some (False, n, tail)"
    using ds digit_not_space [of d] tw dw by (simp add: strtoul_def Let_def)
  moreover have "(ucast (of_nat n :: u64) :: u32) = of_nat n"
    by (transfer, simp add: take_bit_of_nat)
  ultimately show ?thesis
    using assms ds digit_not_space [of d] by (simp add: parse_version_def Let_def)
qed

section \<open>Properties of the version file\<close>

lemma get_version_number:
  assumes "path_ino w (mig_get_version_file_path root) = Some i"
    and "\<not> denied w SysOpen (mig_get_version_file_path root)" and "\<not> is_dir (inodes w i)"
    and "content (inodes w i) = show_nat n @ [CHR 0x0A]" and "n < 2 ^ 64"
  shows "heapstore_migration_get_version True True root w = (SUCCESS, Some (of_nat n))"
proof -
  have "n < 10 ^ Suc 19" using assms(5) by simp
  then have len: "length (show_nat n) \<le> 20" using length_show_nat by fastforce
  have plain: "c \<noteq> CHR 0x0A \<and> c \<noteq> CHR 0x00" if "c \<in> set (show_nat n)" for c
    using that show_nat_digits [of n] digit_not_space by (auto simp: list_all_iff)
  have "takeWhile (\<lambda>c. c \<noteq> CHR 0x0A) (show_nat n @ [CHR 0x0A]) = show_nat n"
    using plain by (simp add: takeWhile_append2)
  moreover have "takeWhile (\<lambda>c. c \<noteq> CHR 0x00) (show_nat n @ [CHR 0x0A]) = show_nat n @ [CHR 0x0A]"
    using plain by (simp add: takeWhile_append2)
  ultimately have "fgets_first 32 i w = Some (show_nat n @ [CHR 0x0A])"
    using assms(3,4) len by (simp add: fgets_first_def Let_def)
  then show ?thesis
    using assms parse_version_number [OF assms(5), of "[CHR 0x0A]"]
    by (simp add: heapstore_migration_get_version_def fopen_r_def is_blank_def)
qed

lemma get_version_cong:
  assumes "path_ino w' (mig_get_version_file_path root) = path_ino w (mig_get_version_file_path root)"
    and "\<And>i. path_ino w (mig_get_version_file_path root) = Some i \<Longrightarrow> inodes w' i = inodes w i"
    and "denied w' = denied w"
  shows "heapstore_migration_get_version out ready root w' = heapstore_migration_get_version out ready root w"
  using assms by (auto simp: heapstore_migration_get_version_def fopen_r_def fgets_first_def
      split: option.splits)

lemma set_version_outcome:
  fixes root :: string
  defines "vp \<equiv> mig_get_version_file_path root"
  assumes wf: "fs_wf w" and links: "path_ino w vp \<noteq> None \<Longrightarrow> path_ino w (vp @ ''.tmp'') \<noteq> path_ino w vp"
    and readable: "\<not> denied w SysOpen vp"
    and run: "heapstore_migration_set_version ready root v w = (e, w')"
  shows "(e = SUCCESS \<longrightarrow> heapstore_migration_get_version True ready root w' = (SUCCESS, Some v))
    \<and> (e \<noteq> SUCCESS \<longrightarrow> heapstore_migration_get_version True ready root w'
          = heapstore_migration_get_version True ready root w)"
proof (cases "ready \<and> length (vp @ ''.tmp'') < 512")
  case False
  with run have "e \<noteq> SUCCESS \<and> w' = w"
    by (cases ready) (auto simp: heapstore_migration_set_version_def vp_def Let_def)
  then show ?thesis by simp
next
  case True
  let ?tmp = "vp @ ''.tmp''"
  have ne: "vp \<noteq> ?tmp" by simp
  obtain fp w1 where op: "fopen_w w ?tmp = (fp, w1)" by fastforce
  show ?thesis
  proof (cases fp)
    case None
    then have "e = ERR_FILE_OPEN_FAILED" "w' = w"
      using run True op fopen_w_None [of w ?tmp w1]
      by (simp_all add: heapstore_migration_set_version_def vp_def Let_def)
    then show ?thesis by simp
  next
    case (Some f)
    note frame = fopen_w_frame [OF op [unfolded Some]]
    let ?w2 = "fputs (show_word v @ [CHR 0x0A]) f w1"
    have other: "path_ino ?w2 vp = path_ino w vp" using frame(1) [of vp] ne by simp
    have same: "inodes ?w2 i = inodes w i" if i: "path_ino w vp = Some i" for i
    proof -
      have "i \<noteq> f" using frame(7) links i fs_wf_ino [OF wf i] by auto
      then show ?thesis using frame(2) by simp
    qed
    have keep: "heapstore_migration_get_version True ready root u = heapstore_migration_get_version True ready root w"
      if "path_ino u vp = path_ino w vp" "inodes u = inodes ?w2" "denied u = denied w" for u
      unfolding vp_def using that same by (intro get_version_cong) (auto simp: vp_def)
    show ?thesis
    proof (cases "io_error w f")
      case True
      obtain b w3 where un: "os_unlink ?w2 ?tmp = (b, w3)" by fastforce
      have "e = ERR_FILE_OPERATION_FAILED \<and> w' = w3"
        using run \<open>ready \<and> _\<close> op Some True un frame(6)
        by (simp add: heapstore_migration_set_version_def vp_def Let_def mig_fsync_file_def)
      moreover have "heapstore_migration_get_version True ready root w3 = heapstore_migration_get_version True ready root w"
        using os_unlink_frame [OF un] ne other frame(5) by (intro keep) auto
      ultimately show ?thesis by simp
    next
      case False
      obtain b w3 where ren: "os_rename ?w2 ?tmp vp = (b, w3)" by fastforce
      show ?thesis
      proof (cases b)
        case True
        have e: "e = SUCCESS" "w' = w3"
          using run \<open>ready \<and> _\<close> op Some False ren True frame(6)
          by (simp_all add: heapstore_migration_set_version_def vp_def Let_def mig_fsync_file_def)
        have tmp: "path_ino ?w2 ?tmp = Some f" using frame(1) [of ?tmp] by simp
        have moved: "path_ino w3 vp = Some f"
          using os_rename_moves(1) [of ?w2 ?tmp vp w3 f vp] ren True ne tmp by simp
        have "inodes w3 = inodes ?w2" "denied w3 = denied w"
          using os_rename_frame [OF ren] os_rename_denied [OF ren] frame(5) by auto
        moreover have "content (inodes ?w2 f) = show_word v @ [CHR 0x0A]"
          using False frame(3,6) by (simp add: fputs_content)
        moreover have "unat v < 2 ^ 64" using unsigned_less [of v, where ?'a = nat] by simp
        ultimately have "heapstore_migration_get_version True True root w3 = (SUCCESS, Some (of_nat (unat v)))"
          using moved frame(4) readable unfolding vp_def by (intro get_version_number [of _ _ f]) auto
        with e \<open>ready \<and> _\<close> show ?thesis by simp
      next
        case False
        then have ren2: "os_rename ?w2 ?tmp vp = (False, ?w2)" using ren os_rename_False by metis
        obtain c w4 where un: "os_unlink ?w2 ?tmp = (c, w4)" by fastforce
        have "e = ERR_FILE_OPERATION_FAILED \<and> w' = w4"
          using run \<open>ready \<and> _\<close> op Some \<open>\<not> io_error w f\<close> ren2 un frame(6)
          by (simp add: heapstore_migration_set_version_def vp_def Let_def mig_fsync_file_def)
        moreover have "heapstore_migration_get_version True ready root w4 = heapstore_migration_get_version True ready root w"
          using os_unlink_frame [OF un] ne other frame(5) by (intro keep) auto
        ultimately show ?thesis by simp
      qed
    qed
  qed
qed

text \<open>
  C30. Writing the schema version is atomic: after a success the version reads back, and after any
  failure (no temporary file, disk error, refused rename) the version file reads as it did before.
\<close>

theorem set_version_atomic:
  assumes "fs_wf w"
    and "path_ino w (mig_get_version_file_path root) \<noteq> None \<Longrightarrow>
      path_ino w (mig_get_version_file_path root @ ''.tmp'') \<noteq> path_ino w (mig_get_version_file_path root)"
    and "\<not> denied w SysOpen (mig_get_version_file_path root)"
    and "heapstore_migration_set_version ready root v w = (e, w')"
  shows "(e = SUCCESS \<longrightarrow> heapstore_migration_get_version True ready root w' = (SUCCESS, Some v))
    \<and> (e \<noteq> SUCCESS \<longrightarrow> heapstore_migration_get_version True ready root w'
          = heapstore_migration_get_version True ready root w)"
  by (rule set_version_outcome [OF assms])

text \<open>
  Every decimal number below 2^64 is accepted as a version, reduced modulo 2^32: a file that
  holds a multiple of 2^32 is taken for a fresh install, and the check replaces it by the current
  version without migrating.
\<close>

theorem version_truncated:
  assumes file_at: "path_ino w (mig_get_version_file_path root) = Some i"
    and "\<not> denied w SysOpen (mig_get_version_file_path root)" and "\<not> is_dir (inodes w i)"
    and "content (inodes w i) = show_nat n @ [CHR 0x0A]" and "n < 2 ^ 64"
  shows "heapstore_migration_get_version True True root w = (SUCCESS, Some (of_nat n))
    \<and> (2 ^ 32 dvd n \<longrightarrow> heapstore_migration_check True True root w =
         (fst (heapstore_migration_set_version True root SCHEMA_VERSION_CURRENT w), Some False, Some 0,
          snd (heapstore_migration_set_version True root SCHEMA_VERSION_CURRENT w)))
    \<and> (SCHEMA_VERSION_CURRENT \<le> of_nat n \<longrightarrow> \<not> 2 ^ 32 dvd n \<longrightarrow>
         heapstore_migration_check True True root w = (SUCCESS, Some False, Some (of_nat n), w))"
proof -
  have get: "heapstore_migration_get_version True True root w = (SUCCESS, Some (of_nat n))"
    by (rule get_version_number [OF assms])
  have zero: "(of_nat n :: u32) = 0 \<longleftrightarrow> 2 ^ 32 dvd n" by (simp add: word_of_nat_eq_0_iff)
  show ?thesis
    using get zero by (auto simp: heapstore_migration_check_def Let_def split: prod.splits)
qed

lemma get_version_some:
  "fst (heapstore_migration_get_version out ready root w) = SUCCESS \<Longrightarrow>
    snd (heapstore_migration_get_version out ready root w) \<noteq> None"
  by (auto simp: heapstore_migration_get_version_def split: sum.splits option.splits if_splits)

section \<open>Properties of the step runner\<close>

text \<open>A file system in which the version file can be replaced safely, and steps that leave it alone.\<close>

definition version_slot :: "string \<Rightarrow> os \<Rightarrow> bool" where
  "version_slot root w \<longleftrightarrow> fs_wf w \<and> \<not> denied w SysOpen (mig_get_version_file_path root)
     \<and> (path_ino w (mig_get_version_file_path root) \<noteq> None \<longrightarrow>
          path_ino w (mig_get_version_file_path root @ ''.tmp'') \<noteq> path_ino w (mig_get_version_file_path root))"

definition keeps_version :: "string \<Rightarrow> migration_step_def \<Rightarrow> bool" where
  "keeps_version root s \<longleftrightarrow> (\<forall>w. version_slot root w \<longrightarrow>
     version_slot root (snd (snd (step_execute s w)))
     \<and> heapstore_migration_get_version True True root (snd (snd (step_execute s w)))
        = heapstore_migration_get_version True True root w)"

lemma applicable_loop_set: "set (applicable_loop ss cur target acc) \<subseteq> set acc \<union> set ss"
  by (induction ss cur target acc rule: applicable_loop.induct) auto

lemma execute_loop_keeps:
  assumes "\<forall>s\<in>set ss. keeps_version root s" and "version_slot root w"
    and "execute_loop A now ss i rep w = (ok, rep', w')"
  shows "version_slot root w' \<and> heapstore_migration_get_version True True root w'
    = heapstore_migration_get_version True True root w"
  using assms
proof (induction ss arbitrary: i rep w)
  case (Cons s ss)
  obtain err n w1 where step: "step_execute s w = (err, n, w1)" by (metis surj_pair)
  have one: "version_slot root w1" "heapstore_migration_get_version True True root w1
      = heapstore_migration_get_version True True root w"
    using Cons.prems(1,2) step by (auto simp: keeps_version_def)
  show ?case
  proof (cases "err = SUCCESS")
    case True
    with Cons.prems step have "execute_loop A now ss (Suc i) (map_option (\<lambda>r. r[i := \<lparr>ms_name = strncpy_term A (step_name s) 128,
        ms_result = err, ms_records_affected = n, ms_duration_ms = now w1 - now w\<rparr>]) rep) w1 = (ok, rep', w')"
      by (simp add: Let_def)
    with Cons.IH [OF _ one(1)] Cons.prems(1) one(2) show ?thesis by auto
  next
    case False
    with Cons.prems step one show ?thesis by (simp add: Let_def)
  qed
qed simp


section \<open>The backup of a migration step\<close>

text \<open>
  With a heapstore root of 490 characters the path of the database fills its buffer, so the
  truncated backup path is the database path itself: the backup then empties the database it is
  meant to protect, and reports success.
\<close>

theorem long_root_backup_empties_database:
  assumes "length root = 490" and db: "path_ino w (mig_db_path root) = Some i" "\<not> is_dir (inodes w i)"
    and "\<not> denied w SysOpen (mig_db_path root)" and "\<not> io_error w i"
  shows "backup_of (mig_db_path root) = mig_db_path root
    \<and> (\<exists>w'. mig_backup_data_file (mig_db_path root) w = (SUCCESS, w')
         \<and> path_ino w' (mig_db_path root) = Some i \<and> content (inodes w' i) = [])"
proof -
  have self: "backup_of (mig_db_path root) = mig_db_path root"
    using assms(1) by (simp add: backup_of_def mig_db_path_def snprintf_buf_def)
  obtain w1 where op: "fopen_w w (mig_db_path root) = (Some i, w1)"
    using assms by (simp add: fopen_w_def fopen_a_def)
  note frame = fopen_w_frame [OF op]
  have "mig_backup_data_file (mig_db_path root) w = (SUCCESS, fputs [] i w1)"
    using assms self op frame by (simp add: mig_backup_data_file_def fopen_r_def mig_fsync_file_def Let_def)
  moreover have "content (inodes (fputs [] i w1) i) = []"
    using frame(3) by (simp add: fputs_content)
  moreover have "path_ino (fputs [] i w1) (mig_db_path root) = Some i"
    using frame(1) [of "mig_db_path root"] by simp
  ultimately show ?thesis using self by blast
qed

text \<open>
  Documented behaviour of SQLite that the next property relies on: a call changes nothing but the
  content of the database file \<open>p\<close> (a journal is gone when it returns).
\<close>

definition only_file :: "string \<Rightarrow> os \<Rightarrow> os \<Rightarrow> bool" where
  "only_file p w w' \<longleftrightarrow> (\<forall>q. path_ino w' q = path_ino w q) \<and> denied w' = denied w
     \<and> (\<forall>j. path_ino w p \<noteq> Some j \<longrightarrow> inodes w' j = inodes w j)
     \<and> (\<forall>j. is_dir (inodes w' j) = is_dir (inodes w j))"

definition sqlite_local :: "sqlite \<Rightarrow> string \<Rightarrow> bool" where
  "sqlite_local S p \<longleftrightarrow>
     (\<forall>w. only_file p w (snd (sq_open S p w)))
     \<and> (\<forall>db q w. only_file p w (snd (sq_exec S db q w)))
     \<and> (\<forall>db w. only_file p w (sq_close S db w))"

lemma only_file_refl: "only_file p w w"
  by (simp add: only_file_def)

lemma only_file_trans: "only_file p w w1 \<Longrightarrow> only_file p w1 w2 \<Longrightarrow> only_file p w w2"
  by (auto simp: only_file_def)

lemma sq_exec_only: "sqlite_local S p \<Longrightarrow> sq_exec S db q w = (b, w') \<Longrightarrow> only_file p w w'"
  unfolding sqlite_local_def by (metis snd_conv)

lemma exec_or_rollback_only:
  assumes "sqlite_local S p" and "exec_or_rollback S db qs w = (b, w')"
  shows "only_file p w w'"
  using assms(2)
proof (induction qs arbitrary: w)
  case (Cons q qs)
  obtain b1 w1 where run: "sq_exec S db q w = (b1, w1)" by fastforce
  have first: "only_file p w w1" by (rule sq_exec_only [OF assms(1) run])
  show ?case
  proof (cases b1)
    case True
    with Cons run have "only_file p w1 w'" by simp
    with first show ?thesis by (rule only_file_trans)
  next
    case False
    obtain b2 w2 where "sq_exec S db ''ROLLBACK;'' w1 = (b2, w2)" by fastforce
    with False Cons.prems run have "only_file p w1 w'" using sq_exec_only [OF assms(1)] by simp
    with first show ?thesis by (rule only_file_trans)
  qed
qed (simp add: only_file_refl)

lemma add_column_only:
  assumes "sqlite_local S p" and "mig_add_column S db table column column_def w = (err, n, w')"
  shows "only_file p w w'"
  using assms(2) sq_exec_only [OF assms(1)] only_file_refl
  by (auto simp: mig_add_column_def split: if_splits prod.splits bool.splits option.splits)

lemma drop_columns_only:
  assumes S: "sqlite_local S p" and run: "mig_drop_columns S db table drops w = (err, n, w')"
  shows "only_file p w w'"
proof -
  let ?idx = "\<lambda>w2. if table = ''agents''
      then snd (sq_exec S db ''CREATE INDEX IF NOT EXISTS idx_agent_type ON agents(type);'' w2)
      else if table = ''sessions''
      then snd (sq_exec S db ''CREATE INDEX IF NOT EXISTS idx_session_user ON sessions(user_id);'' w2) else w2"
  have idx: "only_file p u (?idx u)" for u
    using sq_exec_only [OF S] only_file_refl by (auto simp: prod_eq_iff)
  consider "w' = w" | w1 b where "sq_exec S db ''BEGIN;'' w = (b, w1)" "w' = w1"
    | w1 b qs b2 w2 where "sq_exec S db ''BEGIN;'' w = (b, w1)" "exec_or_rollback S db qs w1 = (b2, w2)" "w' = w2"
    | w1 b qs b2 w2 b3 where "sq_exec S db ''BEGIN;'' w = (b, w1)" "exec_or_rollback S db qs w1 = (b2, w2)"
        "exec_or_rollback S db [''COMMIT;''] (?idx w2) = (b3, w')"
    using run unfolding mig_drop_columns_def Let_def
    by (auto simp del: exec_or_rollback.simps split: if_splits prod.splits bool.splits option.splits)
  then show ?thesis
  proof cases
    case 1
    then show ?thesis by (simp add: only_file_refl)
  next
    case (2 w1 b)
    then show ?thesis using sq_exec_only [OF S] by blast
  next
    case (3 w1 b qs b2 w2)
    then show ?thesis using sq_exec_only [OF S] exec_or_rollback_only [OF S] only_file_trans by blast
  next
    case (4 w1 b qs b2 w2 b3)
    have "only_file p w w2"
      using 4(1,2) sq_exec_only [OF S] exec_or_rollback_only [OF S] only_file_trans by blast
    then show ?thesis
      using idx exec_or_rollback_only [OF S 4(3)] only_file_trans by blast
  qed
qed

lemma col_ops_only:
  assumes "sqlite_local S p" and "col_ops_loop S db ops a w = (err, n, w')"
  shows "only_file p w w'"
  using assms(2)
proof (induction ops arbitrary: a w)
  case (Cons x xs)
  obtain e k w1 where one: "(case op_drop_columns x of
      Some drops \<Rightarrow> mig_drop_columns S db (op_table x) drops w
    | None \<Rightarrow> mig_add_column S db (op_table x) (op_column x) (op_column_def x) w) = (e, k, w1)" by (metis surj_pair)
  have first: "only_file p w w1"
    using one add_column_only [OF assms(1)] drop_columns_only [OF assms(1)] by (auto split: option.splits)
  show ?case
  proof (cases "e = SUCCESS")
    case True
    with Cons one have "only_file p w1 w'" by simp
    with first show ?thesis by (rule only_file_trans)
  next
    case False
    with Cons.prems one first show ?thesis by simp
  qed
qed (simp add: only_file_refl)

lemma restore_puts_backup:
  assumes "path_ino w (backup_of p) = Some b" and "\<not> is_dir (inodes w b)" and "path_ino w p = Some i"
    and "\<not> is_dir (inodes w i)" and "backup_of p \<noteq> p"
    and "\<not> denied w SysRename (backup_of p)" and "\<not> denied w SysRename p"
  shows "path_ino (snd (mig_restore_data_file p w)) p = Some b
    \<and> inodes (snd (mig_restore_data_file p w)) = inodes w"
proof -
  obtain w' where ren: "os_rename w (backup_of p) p = (True, w')"
    using assms by (simp add: os_rename_def)
  from os_rename_moves(1) [OF ren assms(5,1), of p] os_rename_frame [OF ren] ren show ?thesis
    by (simp add: mig_restore_data_file_def)
qed

text \<open>The backup either fails and leaves the file, or makes a copy of it in another file.\<close>

lemma backup_outcome:
  assumes wf: "fs_wf w" and db: "path_ino w p = Some i" "\<not> is_dir (inodes w i)"
    and backup: "backup_of p \<noteq> p" "path_ino w (backup_of p) \<noteq> Some i" and bk: "mig_backup_data_file p w = (be, w1)"
  shows "(be \<noteq> SUCCESS \<longrightarrow> path_ino w1 p = Some i \<and> content (inodes w1 i) = content (inodes w i))
    \<and> (be = SUCCESS \<longrightarrow> path_ino w1 p = Some i \<and> \<not> is_dir (inodes w1 i) \<and> denied w1 = denied w
        \<and> (\<exists>b. b \<noteq> i \<and> path_ino w1 (backup_of p) = Some b \<and> \<not> is_dir (inodes w1 b)
             \<and> content (inodes w1 b) = content (inodes w i)))"
proof (cases "\<exists>f u. fopen_r w p = Inr i \<and> fopen_w w (backup_of p) = (Some f, u)")
  case False
  then have "be \<noteq> SUCCESS \<and> w1 = w"
    using bk db fopen_w_None [of w "backup_of p"]
    by (auto simp: mig_backup_data_file_def fopen_r_def split: if_splits prod.splits option.splits)
  then show ?thesis using db by simp
next
  case True
  then obtain f u where op: "fopen_r w p = Inr i" "fopen_w w (backup_of p) = (Some f, u)" by blast
  note frame = fopen_w_frame [OF op(2)]
  have "f \<noteq> i" using frame(7) backup(2) fs_wf_ino [OF wf db(1)] by auto
  then have src: "inodes u i = inodes w i" using frame(2) by simp
  have w1: "w1 = fputs (content (inodes w i)) f u \<and> (be = SUCCESS \<longleftrightarrow> \<not> io_error w f)"
    using bk op src db(2) frame(6)
    by (auto simp: mig_backup_data_file_def mig_fsync_file_def Let_def split: if_splits)
  then show ?thesis
    using frame(1) [of p] frame(1) [of "backup_of p"] frame(3-6) backup(1) db src \<open>f \<noteq> i\<close>
    by (auto simp: fputs_content)
qed

text \<open>After the backup, a failure touches no file but the database and ends with the restoring of it.\<close>

lemma failed_step_restores:
  fixes root :: string
  defines "p \<equiv> mig_db_path root"
  assumes S: "sqlite_local S p" and present: "os_stat w p \<noteq> None" and bk: "mig_backup_data_file p w = (SUCCESS, w1)"
    and run: "mig_apply_cols (Some S) root ops w = (err, n, w')" and failed: "err \<noteq> SUCCESS"
  shows "\<exists>w3. only_file p w1 w3 \<and> w' = snd (mig_restore_data_file p w3)"
proof -
  obtain h w2 where op: "sq_open S p w1 = (h, w2)" by fastforce
  have o2: "only_file p w1 w2" using S op unfolding sqlite_local_def by (metis snd_conv)
  show ?thesis
  proof (cases h)
    case None
    with run bk present op o2 show ?thesis
      by (auto simp: mig_apply_cols_def mig_db_open_def p_def Let_def)
  next
    case (Some hd)
    obtain e k w3 where ops: "col_ops_loop S hd ops 0 w2 = (e, k, w3)" by (metis surj_pair)
    have "w' = snd (mig_restore_data_file p (sq_close S hd w3))"
      using run bk present op Some ops failed
      by (auto simp: mig_apply_cols_def mig_db_open_def p_def Let_def split: if_splits)
    moreover have "only_file p w1 w3" using o2 col_ops_only [OF S ops] by (rule only_file_trans)
    moreover have "only_file p w3 (sq_close S hd w3)" using S by (simp add: sqlite_local_def)
    ultimately show ?thesis using only_file_trans by blast
  qed
qed


section \<open>Witnesses\<close>

text \<open>A heapstore root at version 10000 with a database file.\<close>

definition mig_demo :: os where
  "mig_demo = demo_os\<lparr>entries := [(''/r'', 0), (''/r/registry'', 1), (''/r/registry/registry.db'', 2), (''/r/.schema_version'', 3)],
     inodes := (\<lambda>_. \<lparr>is_dir = True, content = [], mtime = 0\<rparr>)
       (2 := \<lparr>is_dir = False, content = ''data'', mtime = 0\<rparr>,
        3 := \<lparr>is_dir = False, content = ''10000'' @ [CHR 0x0A], mtime = 0\<rparr>),
     next_ino := 4\<rparr>"

lemma mig_demo_slot: "version_slot ''/r'' mig_demo"
proof -
  have "fs_wf mig_demo" by (simp add: fs_wf_def mig_demo_def)
  moreover have "\<not> denied mig_demo SysOpen (mig_get_version_file_path ''/r'')" by code_simp
  moreover have "path_ino mig_demo (mig_get_version_file_path ''/r'' @ ''.tmp'') = None" by code_simp
  ultimately show ?thesis unfolding version_slot_def by auto
qed

lemma mig_demo_set_version: "fst (heapstore_migration_set_version True ''/r'' v mig_demo) = SUCCESS"
  by (simp add: heapstore_migration_set_version_def mig_get_version_file_path_def mig_demo_def demo_os_def
      fopen_w_def fopen_a_def path_ino_def dir_exists_def dirname_def mig_fsync_file_def os_rename_def fputs_def
      fresh_file_def Let_def)

lemma show_digit: "char_of (48 :: nat) = CHR ''0''" "char_of (49 :: nat) = CHR ''1''" "char_of (50 :: nat) = CHR ''2''"
  "char_of (52 :: nat) = CHR ''4''" "char_of (54 :: nat) = CHR ''6''" "char_of (55 :: nat) = CHR ''7''"
  "char_of (57 :: nat) = CHR ''9''"
  by code_simp+

lemma mig_demo_version: "heapstore_migration_get_version True True ''/r'' mig_demo = (SUCCESS, Some 10000)"
proof -
  have "path_ino mig_demo (mig_get_version_file_path ''/r'') = Some 3" by code_simp
  then have "heapstore_migration_get_version True True ''/r'' mig_demo = (SUCCESS, Some (of_nat 10000))"
    by (rule get_version_number) (simp_all add: mig_demo_def demo_os_def show_nat.simps show_digit)
  then show ?thesis by simp
qed

theorem set_version_atomic_witness:
  "heapstore_migration_get_version True True ''/r''
     (snd (heapstore_migration_set_version True ''/r'' 20000 mig_demo)) = (SUCCESS, Some 20000)"
proof -
  have "fst (heapstore_migration_set_version True ''/r'' 20000 mig_demo) = SUCCESS"
    by (rule mig_demo_set_version)
  then obtain w' where run: "heapstore_migration_set_version True ''/r'' 20000 mig_demo = (SUCCESS, w')"
    by (metis prod.collapse)
  from set_version_atomic [OF _ _ _ run] mig_demo_slot show ?thesis
    unfolding version_slot_def run by simp
qed

theorem version_truncated_witness:
  "\<exists>w. heapstore_migration_get_version True True ''/r'' w = (SUCCESS, Some 0)
     \<and> content (inodes w 3) = ''4294967296'' @ [CHR 0x0A]"
proof -
  let ?w = "mig_demo\<lparr>inodes := (inodes mig_demo)(3 := \<lparr>is_dir = False, content = ''4294967296'' @ [CHR 0x0A], mtime = 0\<rparr>)\<rparr>"
  have vf: "path_ino ?w (mig_get_version_file_path ''/r'') = Some 3" by code_simp
  have ok: "\<not> denied ?w SysOpen (mig_get_version_file_path ''/r'')" by code_simp
  have reg: "\<not> is_dir (inodes ?w 3)" by simp
  have number: "content (inodes ?w 3) = show_nat 4294967296 @ [CHR 0x0A]"
    by (simp add: show_nat.simps show_digit)
  have lt: "(4294967296 :: nat) < 2 ^ 64" by simp
  have "heapstore_migration_get_version True True ''/r'' ?w = (SUCCESS, Some 0)"
    using version_truncated [OF vf ok reg number lt] by simp
  then show ?thesis by (intro exI [of _ ?w]) simp
qed


theorem long_root_backup_empties_database_witness:
  "\<exists>w'. mig_backup_data_file (mig_db_path (replicate 490 (CHR ''r''))) (demo_os\<lparr>
         entries := [(mig_db_path (replicate 490 (CHR ''r'')), 0)],
         inodes := \<lambda>_. \<lparr>is_dir = False, content = ''data'', mtime = 0\<rparr>\<rparr>) = (SUCCESS, w')
     \<and> content (inodes w' 0) = []"
proof -
  let ?root = "replicate 490 (CHR ''r'')"
  let ?w = "demo_os\<lparr>entries := [(mig_db_path ?root, 0)],
    inodes := \<lambda>_. \<lparr>is_dir = False, content = ''data'', mtime = 0\<rparr>\<rparr>"
  have len: "length ?root = 490" by (rule length_replicate)
  have db: "path_ino ?w (mig_db_path ?root) = Some 0" unfolding path_ino_def by simp
  have reg: "\<not> is_dir (inodes ?w 0)" by simp
  have ok: "\<not> denied ?w SysOpen (mig_db_path ?root)" "\<not> io_error ?w 0" unfolding demo_os_def by simp_all
  from long_root_backup_empties_database [OF len db reg ok] show ?thesis by blast
qed

text \<open>An SQLite whose statements fail after having written to the database file.\<close>

definition demo_sqlite :: sqlite where
  "demo_sqlite = \<lparr>sq_open = (\<lambda>p w. (path_ino w p, w)),
     sq_exec = (\<lambda>db q w. (False, case path_ino w ''/r/registry/registry.db'' of None \<Rightarrow> w | Some i \<Rightarrow> fputs ''torn'' i w)),
     sq_rows = (\<lambda>_ _ _. None), sq_count = (\<lambda>_ _ _. None), sq_close = (\<lambda>_ w. w)\<rparr>"


end
