(* ===== verification/HS_State.thy ===== *)
theory HS_State
  imports HS_Registry HS_Memory HS_Trace HS_Log HS_Circuit HS_Migration
begin

text \<open>
  The state of a whole heapstore (the static variables of src/heapstore_core.c together with those
  of every subsystem), the environment it runs in, its configuration and its directory layout.
  The registry is the in-memory backend; in this build the migration has no SQLite.
\<close>

section \<open>Configuration and state\<close>

record config =
  root_path :: "string option"
  max_log_size_mb :: size_t
  log_retention_days :: int
  trace_retention_days :: int
  enable_auto_cleanup :: bool
  enable_log_rotation :: bool
  enable_trace_export :: bool
  db_vacuum_interval_days :: int
  circuit_breaker_threshold :: u32
  circuit_breaker_timeout_sec :: u32

text \<open>What the program is linked with: the commons library with its circuit breaker, mutexes and clock.\<close>

record 'c env =
  commons :: airy
  breaker :: "'c cb_lib"
  mtx_ok :: bool
  time_ms :: "os \<Rightarrow> u64"

record 'c heapstore =
  s_initialized :: bool
  s_root_path :: string
  s_config :: config
  world :: os
  heap :: mem
  registry_db :: registry
  traces :: trace
  memory_tables :: memory
  logs :: log
  circuit_state :: "'c \<times> circuit"
  metrics_of :: metrics

text \<open>The statics at process start, in a world \<open>w\<close> and with a breaker library in state \<open>c\<close>.\<close>

definition heapstore0 :: "'c \<Rightarrow> os \<Rightarrow> 'c heapstore" where
  "heapstore0 c w = \<lparr>s_initialized = False, s_root_path = [],
     s_config = \<lparr>root_path = None, max_log_size_mb = 0, log_retention_days = 0, trace_retention_days = 0,
       enable_auto_cleanup = False, enable_log_rotation = False, enable_trace_export = False,
       db_vacuum_interval_days = 0, circuit_breaker_threshold = 0, circuit_breaker_timeout_sec = 0\<rparr>,
     world = w, heap = \<lparr>allocs = \<lparr>tick = 0, fails = (\<lambda>_. False)\<rparr>, cells = Map.empty\<rparr>,
     registry_db = \<lparr>agents = empty_domain, skills = empty_domain, sessions = empty_domain, reg_initialized = False\<rparr>,
     traces = \<lparr>tr_initialized = False, trace_path = [], span_buffer = None,
       exporter = \<lparr>enabled = False, export_path = [], batch_size = 0, export_interval_sec = 0, export_format = []\<rparr>\<rparr>,
     memory_tables = memory0, logs = log0, circuit_state = (c, circuit0), metrics_of = heapstore_core_metrics_init\<rparr>"

definition heapstore_ready :: "'c heapstore \<Rightarrow> bool" where
  "heapstore_ready s = s_initialized s"

section \<open>Layout\<close>

datatype path_type =
    PATH_KERNEL
  | PATH_LOGS
  | PATH_REGISTRY
  | PATH_SERVICES
  | PATH_TRACES
  | PATH_KERNEL_IPC
  | PATH_KERNEL_MEMORY

definition core_path_order :: "path_type list" where
  "core_path_order = [PATH_KERNEL, PATH_LOGS, PATH_REGISTRY, PATH_SERVICES, PATH_TRACES, PATH_KERNEL_IPC,
     PATH_KERNEL_MEMORY]"

text \<open>
  The order lists every path type once, so it is the enumeration of the type, in the order of the C
  constants; statements over all path types evaluate.
\<close>

instantiation path_type :: enum
begin

definition enum_path_type :: "path_type list" where
  "enum_path_type = core_path_order"

definition enum_all_path_type :: "(path_type \<Rightarrow> bool) \<Rightarrow> bool" where
  "enum_all_path_type P \<longleftrightarrow> list_all P core_path_order"

definition enum_ex_path_type :: "(path_type \<Rightarrow> bool) \<Rightarrow> bool" where
  "enum_ex_path_type P \<longleftrightarrow> list_ex P core_path_order"

instance
proof
  show univ: "(UNIV :: path_type set) = set enum_class.enum"
    by (auto simp: enum_path_type_def core_path_order_def intro: path_type.exhaust)
  show "distinct (enum_class.enum :: path_type list)"
    by (simp add: enum_path_type_def core_path_order_def)
  show "enum_class.enum_all P \<longleftrightarrow> Ball UNIV P" for P :: "path_type \<Rightarrow> bool"
    using univ by (simp add: enum_all_path_type_def enum_path_type_def list_all_iff)
  show "enum_class.enum_ex P \<longleftrightarrow> Bex UNIV P" for P :: "path_type \<Rightarrow> bool"
    using univ by (simp add: enum_ex_path_type_def enum_path_type_def list_ex_iff)
qed

end

text \<open>heapstore_core_path_names, a table indexed by the enumeration.\<close>

fun core_path_names :: "path_type \<Rightarrow> string" where
  "core_path_names PATH_KERNEL = ''kernel''"
| "core_path_names PATH_LOGS = ''logs''"
| "core_path_names PATH_REGISTRY = ''registry''"
| "core_path_names PATH_SERVICES = ''services''"
| "core_path_names PATH_TRACES = ''traces''"
| "core_path_names PATH_KERNEL_IPC = ''kernel/ipc''"
| "core_path_names PATH_KERNEL_MEMORY = ''kernel/memory''"

fun core_subpath_map :: "path_type \<Rightarrow> string list" where
  "core_subpath_map PATH_LOGS = [''apps'', ''kernel'', ''services'']"
| "core_subpath_map PATH_SERVICES = [''llm_d'', ''market_d'', ''tool_d'']"
| "core_subpath_map PATH_TRACES = [''spans'']"
| "core_subpath_map PATH_KERNEL_IPC = [''channels'', ''buffers'']"
| "core_subpath_map PATH_KERNEL_MEMORY = [''pools'', ''allocations'', ''stats'', ''index'', ''meta'', ''patterns'', ''raw'']"
| "core_subpath_map _ = []"

lemma path_names_differ: "core_path_names t = core_path_names t' \<Longrightarrow> t = t'"
proof -
  have "\<forall>t t'. core_path_names t = core_path_names t' \<longrightarrow> t = t'" by code_simp
  then show "core_path_names t = core_path_names t' \<Longrightarrow> t = t'" by blast
qed

definition core_full_path :: "string \<Rightarrow> path_type \<Rightarrow> string" where
  "core_full_path root t = snprintf_buf 512 (root @ ''/'' @ core_path_names t)"

definition layout_dirs :: "string \<Rightarrow> string list" where
  "layout_dirs root = root # concat (map (\<lambda>t. core_full_path root t #
     map (\<lambda>n. snprintf_buf 512 (core_full_path root t @ ''/'' @ n)) (core_subpath_map t)) core_path_order)"

definition create_directory_structure :: "'c env \<Rightarrow> 'c heapstore \<Rightarrow> hs_error \<times> 'c heapstore" where
  "create_directory_structure E s =
     (case ensure_dirs (commons E) (layout_dirs (s_root_path s)) (world s) of
        (ok, w) \<Rightarrow> (if ok then SUCCESS else ERR_DIR_CREATE_FAILED, s\<lparr>world := w\<rparr>))"

section \<open>Root and configuration\<close>

definition get_default_root :: "airy \<Rightarrow> string" where
  "get_default_root A =
     (case env_root A of
        Some r \<Rightarrow>
          if r \<noteq> [] then r
          else if data_dir A \<noteq> [] then snprintf_buf 512 (data_dir A @ ''/agentrt/heapstore'')
          else ''/tmp/agentrt/heapstore''
      | None \<Rightarrow>
          if data_dir A \<noteq> [] then snprintf_buf 512 (data_dir A @ ''/agentrt/heapstore'')
          else ''/tmp/agentrt/heapstore'')"

definition heapstore_get_root :: "'c env \<Rightarrow> 'c heapstore \<Rightarrow> string \<times> 'c heapstore" where
  "heapstore_get_root E s =
     (if s_root_path s = []
      then
        let root = get_default_root (commons E);
            s' = (if root \<noteq> [] then s\<lparr>s_root_path := strncpy_term (commons E) root 512\<rparr> else s)
        in (s_root_path s', s')
      else (s_root_path s, s))"

definition heapstore_def_config :: "string option \<Rightarrow> config" where
  "heapstore_def_config root = \<lparr>root_path = root, max_log_size_mb = 100, log_retention_days = 7,
     trace_retention_days = 3, enable_auto_cleanup = True, enable_log_rotation = True, enable_trace_export = True,
     db_vacuum_interval_days = 7, circuit_breaker_threshold = 5, circuit_breaker_timeout_sec = 30\<rparr>"

definition set_default_config :: "'c env \<Rightarrow> 'c heapstore \<Rightarrow> 'c heapstore" where
  "set_default_config E s = s\<lparr>s_config := heapstore_def_config (Some (get_default_root (commons E)))\<rparr>"

text \<open>The values that replace a setting only when they are positive, and the three switches, which always do.\<close>

definition merge_limits :: "config \<Rightarrow> config \<Rightarrow> config" where
  "merge_limits m c = c
     \<lparr>max_log_size_mb := (if 0 < max_log_size_mb m then max_log_size_mb m else max_log_size_mb c),
      log_retention_days := (if 0 < log_retention_days m then log_retention_days m else log_retention_days c),
      trace_retention_days := (if 0 < trace_retention_days m then trace_retention_days m else trace_retention_days c),
      db_vacuum_interval_days := (if 0 < db_vacuum_interval_days m then db_vacuum_interval_days m
                                  else db_vacuum_interval_days c),
      circuit_breaker_threshold := (if 0 < circuit_breaker_threshold m then circuit_breaker_threshold m
                                    else circuit_breaker_threshold c),
      circuit_breaker_timeout_sec := (if 0 < circuit_breaker_timeout_sec m then circuit_breaker_timeout_sec m
                                      else circuit_breaker_timeout_sec c),
      enable_auto_cleanup := enable_auto_cleanup m,
      enable_log_rotation := enable_log_rotation m,
      enable_trace_export := enable_trace_export m\<rparr>"

definition apply_to_circuit :: "'c env \<Rightarrow> 'c heapstore \<Rightarrow> 'c heapstore" where
  "apply_to_circuit E s = s\<lparr>circuit_state := heapstore_core_circuit_apply_config (breaker E)
     (circuit_breaker_threshold (s_config s)) (circuit_breaker_timeout_sec (s_config s)) (circuit_state s)\<rparr>"

definition apply_user_config :: "'c env \<Rightarrow> config option \<Rightarrow> 'c heapstore \<Rightarrow> 'c heapstore" where
  "apply_user_config E manager s =
     (case manager of
        None \<Rightarrow> s
      | Some m \<Rightarrow>
          if root_path m = None then s
          else apply_to_circuit E (s\<lparr>s_config := merge_limits m ((s_config s)\<lparr>root_path := root_path m\<rparr>)\<rparr>))"

definition apply_config_update :: "'c env \<Rightarrow> config \<Rightarrow> 'c heapstore \<Rightarrow> 'c heapstore" where
  "apply_config_update E m s = apply_to_circuit E (s\<lparr>s_config := merge_limits m (s_config s)\<rparr>)"

definition heapstore_reload_config :: "'c env \<Rightarrow> config option \<Rightarrow> 'c heapstore \<Rightarrow> hs_error \<times> 'c heapstore" where
  "heapstore_reload_config E manager s =
     (if \<not> s_initialized s then (ERR_NOT_INITIALIZED, s)
      else case manager of
        None \<Rightarrow> (ERR_INVALID_PARAM, s)
      | Some m \<Rightarrow> (SUCCESS, apply_config_update E m s))"

text \<open>The retention settings, through their uint32_t output parameters.\<close>

definition heapstore_core_get_cleanup_config :: "'c heapstore \<Rightarrow> bool \<times> u32 \<times> u32" where
  "heapstore_core_get_cleanup_config s =
     (enable_auto_cleanup (s_config s), word_of_int (log_retention_days (s_config s)),
      word_of_int (trace_retention_days (s_config s)))"

end
