(* ===== verification/HS_DirSize.thy ===== *)
theory HS_DirSize
  imports HS_Utils
begin

text \<open>
  heapstore_dir_size of src/utils.c: the recursive size and file count of a directory. The recursion
  follows path names through a 1024-byte buffer, so that it need not end; it is a partial function
  whose value None is "does not return".
\<close>

section \<open>The walk\<close>

text \<open>The loop over the entries of one open directory, with the recursive call for a subdirectory.\<close>

partial_function (option) dir_size_loop ::
  "os \<Rightarrow> string \<Rightarrow> (string \<times> bool) list \<Rightarrow> u64 \<Rightarrow> u32 \<Rightarrow> (u64 \<times> u32) option" where
  "dir_size_loop w path es out_size out_count =
     (case es of
        [] \<Rightarrow> Some (out_size, out_count)
      | (name, _) # es' \<Rightarrow>
          if name = ''.'' \<or> name = ''..'' then dir_size_loop w path es' out_size out_count
          else
            let full_path = snprintf_buf 1024 (path @ ''/'' @ name) in
            case os_stat w full_path of
              None \<Rightarrow> dir_size_loop w path es' out_size out_count
            | Some st \<Rightarrow>
                if st_isdir st
                then (case os_readdir w full_path of
                        None \<Rightarrow> dir_size_loop w path es' out_size out_count
                      | Some es2 \<Rightarrow>
                          Option.bind (dir_size_loop w full_path es2 0 0) (\<lambda>(sub_size, sub_count).
                            dir_size_loop w path es' (out_size + sub_size) (out_count + sub_count)))
                else dir_size_loop w path es' (out_size + st_size st) (out_count + 1))"

declare dir_size_loop.simps [code]

text \<open>The result with the two outputs; the recursion above never sees an empty path.\<close>

definition heapstore_dir_size :: "os \<Rightarrow> string option \<Rightarrow> (bool \<times> u64 \<times> u32) option" where
  "heapstore_dir_size w path =
     (case path of
        None \<Rightarrow> Some (False, 0, 0)
      | Some p \<Rightarrow>
          if p = [] then Some (False, 0, 0)
          else case os_readdir w p of
            None \<Rightarrow> Some (False, 0, 0)
          | Some es \<Rightarrow> map_option (\<lambda>(s, c). (True, s, c)) (dir_size_loop w p es 0 0))"

lemma dir_size_loop_Nil [simp]: "dir_size_loop w path [] s c = Some (s, c)"
  by (subst dir_size_loop.simps) simp

lemma dir_size_loop_dots [simp]:
  "dir_size_loop w path ((''.'', b) # es) s c = dir_size_loop w path es s c"
  "dir_size_loop w path ((''..'', b) # es) s c = dir_size_loop w path es s c"
  by (subst dir_size_loop.simps, simp)+

section \<open>The tree below a directory\<close>

definition below :: "string \<Rightarrow> string \<Rightarrow> bool" where
  "below d p \<longleftrightarrow> (\<exists>r. r \<noteq> [] \<and> p = d @ ''/'' @ r)"

definition files_below :: "os \<Rightarrow> string \<Rightarrow> (string \<times> nat) set" where
  "files_below w d = {(p, i) \<in> set (entries w). below d p \<and> \<not> is_dir (inodes w i)}"

definition bytes_below :: "os \<Rightarrow> string \<Rightarrow> u64" where
  "bytes_below w d = (\<Sum>(p, i)\<in>files_below w d. of_nat (length (content (inodes w i))))"

text \<open>
  The paths below \<open>d\<close> form a tree the process may read: prefixes are directories, components are
  not empty and not dots, and every path fits the buffer of the walk.
\<close>

definition path_readable :: "os \<Rightarrow> string \<Rightarrow> bool" where
  "path_readable w p \<longleftrightarrow> length p < 1024 \<and> \<not> denied w SysStat p \<and> \<not> denied w SysOpendir p"

definition split_ok :: "os \<Rightarrow> string \<Rightarrow> string \<Rightarrow> bool" where
  "split_ok w q r \<longleftrightarrow> r \<noteq> [] \<and> hd r \<noteq> CHR ''/'' \<and> r \<noteq> ''.'' \<and> r \<noteq> ''..'' \<and> dir_exists w q"

definition readable_tree :: "os \<Rightarrow> string \<Rightarrow> bool" where
  "readable_tree w d \<longleftrightarrow> (\<forall>p\<in>fst ` set (entries w). below d p \<longrightarrow> path_readable w p
     \<and> (\<forall>q r. p = q @ ''/'' @ r \<longrightarrow> q = d \<or> below d q \<longrightarrow> split_ok w q r))"

lemma below_child: "n \<noteq> [] \<Longrightarrow> below d (d @ CHR ''/'' # n)"
  by (auto simp: below_def)

lemma below_trans: "below d q \<Longrightarrow> below q p \<Longrightarrow> below d p"
  by (fastforce simp: below_def)

lemma below_irrefl: "\<not> below p p"
  by (auto simp: below_def)

lemma readable_tree_child:
  assumes "readable_tree w d" and "n \<noteq> []"
  shows "readable_tree w (d @ CHR ''/'' # n)"
  unfolding readable_tree_def
proof (intro ballI impI)
  fix p assume p: "p \<in> fst ` set (entries w)" "below (d @ CHR ''/'' # n) p"
  have c: "below d (d @ CHR ''/'' # n)" by (rule below_child [OF assms(2)])
  have "below d p" using c p(2) by (rule below_trans)
  with assms(1) p(1) have r: "path_readable w p"
      "\<forall>q r. p = q @ ''/'' @ r \<longrightarrow> q = d \<or> below d q \<longrightarrow> split_ok w q r"
    unfolding readable_tree_def by blast+
  moreover have "below d q" if "q = d @ CHR ''/'' # n \<or> below (d @ CHR ''/'' # n) q" for q
    using that c below_trans by blast
  ultimately show "path_readable w p \<and> (\<forall>q r. p = q @ ''/'' @ r \<longrightarrow>
      q = d @ CHR ''/'' # n \<or> below (d @ CHR ''/'' # n) q \<longrightarrow> split_ok w q r)" by blast
qed

text \<open>What one child of a directory contributes to the files below the directory.\<close>

definition child_files :: "os \<Rightarrow> string \<Rightarrow> string \<times> nat \<Rightarrow> (string \<times> nat) set" where
  "child_files w d = (\<lambda>(n, i). if is_dir (inodes w i) then files_below w (d @ ''/'' @ n) else {(d @ ''/'' @ n, i)})"

lemma files_below_children:
  assumes wf: "fs_wf w" and tree: "readable_tree w d"
  shows "files_below w d = (\<Union>e\<in>set (dir_children w d). child_files w d e)"
proof (rule set_eqI, clarify)
  fix p i
  show "(p, i) \<in> files_below w d \<longleftrightarrow> (p, i) \<in> (\<Union>e\<in>set (dir_children w d). child_files w d e)"
  proof
    assume "(p, i) \<in> files_below w d"
    then obtain r where p: "(p, i) \<in> set (entries w)" "p = d @ ''/'' @ r" "r \<noteq> []" "\<not> is_dir (inodes w i)"
      by (auto simp: files_below_def below_def)
    let ?n = "takeWhile (\<lambda>c. c \<noteq> CHR ''/'') r"
    have split: "split_ok w q s" if "p = q @ ''/'' @ s" "q = d \<or> below d q" for q s
      using tree p that unfolding readable_tree_def below_def by (force intro: rev_image_eqI)
    have "split_ok w d r" using split p(2) by blast
    then have n: "?n \<noteq> []" using p(3) by (cases r) (auto simp: split_ok_def)
    have slash: "CHR ''/'' \<notin> set ?n" by (auto dest: set_takeWhileD)
    show "(p, i) \<in> (\<Union>e\<in>set (dir_children w d). child_files w d e)"
    proof (cases "dropWhile (\<lambda>c. c \<noteq> CHR ''/'') r")
      case Nil
      then have r: "?n = r" by (metis append_Nil2 takeWhile_dropWhile_id)
      then have "(r, i) \<in> set (dir_children w d)"
        using p slash unfolding r by (simp add: dir_children_mem)
      moreover have "(p, i) \<in> child_files w d (r, i)" using p by (simp add: child_files_def)
      ultimately show ?thesis by blast
    next
      case (Cons c r')
      have "c = CHR ''/''" using hd_dropWhile [of "\<lambda>c. c \<noteq> CHR ''/''" r] Cons by simp
      then have r: "r = ?n @ ''/'' @ r'"
        using takeWhile_dropWhile_id [of "\<lambda>c. c \<noteq> CHR ''/''" r] Cons by simp
      let ?q = "d @ ''/'' @ ?n"
      have pq: "p = ?q @ ''/'' @ r'" using p(2) r by (metis append.assoc)
      have "below d ?q" using below_child [OF n] by simp
      then have "split_ok w ?q r'" using split pq by blast
      then obtain j where j: "path_ino w ?q = Some j" "is_dir (inodes w j)" "r' \<noteq> []"
        by (auto simp: split_ok_def dir_exists_def split: option.splits)
      then have "(?n, j) \<in> set (dir_children w d)"
        using n slash wf by (simp add: dir_children_mem path_ino_mem)
      moreover have "(p, i) \<in> files_below w ?q"
        using p(1,4) pq j(3) by (auto simp: files_below_def below_def)
      then have "(p, i) \<in> child_files w d (?n, j)" using j(2) by (simp add: child_files_def)
      ultimately show ?thesis by blast
    qed
  next
    assume "(p, i) \<in> (\<Union>e\<in>set (dir_children w d). child_files w d e)"
    then obtain n j where e: "(n, j) \<in> set (dir_children w d)" "(p, i) \<in> child_files w d (n, j)" by auto
    then have n: "n \<noteq> []" "(d @ ''/'' @ n, j) \<in> set (entries w)" by (simp_all add: dir_children_mem)
    show "(p, i) \<in> files_below w d"
    proof (cases "is_dir (inodes w j)")
      case True
      with e(2) have "(p, i) \<in> files_below w (d @ ''/'' @ n)" by (simp add: child_files_def)
      then show ?thesis using below_trans [OF below_child [OF n(1)]] by (auto simp: files_below_def)
    next
      case False
      with e(2) n show ?thesis by (auto simp: child_files_def files_below_def intro: below_child)
    qed
  qed
qed

lemma finite_files_below: "finite (files_below w d)"
  unfolding files_below_def by (rule finite_subset [of _ "set (entries w)"]) auto

text \<open>Different children contribute different files.\<close>

lemma child_files_prefix:
  assumes "(p, i) \<in> child_files w d (n, j)"
  shows "p = d @ ''/'' @ n \<or> (\<exists>r. p = d @ ''/'' @ n @ ''/'' @ r)"
  using assms by (auto simp: child_files_def files_below_def below_def split: if_splits)

lemma first_component:
  assumes "x @ CHR ''/'' # r = y @ CHR ''/'' # r'" and "CHR ''/'' \<notin> set x" and "CHR ''/'' \<notin> set y"
  shows "x = y"
proof -
  have "takeWhile (\<lambda>c. c \<noteq> CHR ''/'') (z @ CHR ''/'' # t) = z" if "CHR ''/'' \<notin> set z" for z t
    using that by (induction z) auto
  with assms show ?thesis by metis
qed

lemma child_files_disjoint:
  assumes "n \<noteq> m" and "CHR ''/'' \<notin> set n" and "CHR ''/'' \<notin> set m"
  shows "child_files w d (n, i) \<inter> child_files w d (m, j) = {}"
proof (rule ccontr)
  assume "child_files w d (n, i) \<inter> child_files w d (m, j) \<noteq> {}"
  then obtain p k where "(p, k) \<in> child_files w d (n, i)" "(p, k) \<in> child_files w d (m, j)" by auto
  from this [THEN child_files_prefix] have "n = m \<or> (\<exists>r. n = m @ ''/'' @ r) \<or> (\<exists>r. m = n @ ''/'' @ r)
      \<or> (\<exists>r r'. n @ CHR ''/'' # r = m @ CHR ''/'' # r')" by auto
  with assms first_component [of n _ m] show False by auto
qed

lemma finite_child_files: "finite (child_files w d e)"
  by (cases e) (simp add: child_files_def finite_files_below)

text \<open>The loop over a list of children, when the recursive call is right for the subdirectories among them.\<close>

definition bytes_of :: "os \<Rightarrow> (string \<times> nat) set \<Rightarrow> u64" where
  "bytes_of w F = (\<Sum>(p, i)\<in>F. of_nat (length (content (inodes w i))))"

lemma dir_size_loop_children:
  assumes "distinct (map fst es)" and "\<forall>(n, i)\<in>set es. path_ino w (d @ ''/'' @ n) = Some i \<and> CHR ''/'' \<notin> set n
      \<and> path_readable w (d @ ''/'' @ n) \<and> n \<noteq> ''.'' \<and> n \<noteq> ''..''
      \<and> (is_dir (inodes w i) \<longrightarrow> (\<exists>es2. os_readdir w (d @ ''/'' @ n) = Some es2
           \<and> dir_size_loop w (d @ ''/'' @ n) es2 0 0 = Some (bytes_of w (files_below w (d @ ''/'' @ n)),
               of_nat (card (files_below w (d @ ''/'' @ n))))))"
  shows "dir_size_loop w d (map (\<lambda>(n, i). (n, \<not> is_dir (inodes w i))) es) s c =
    Some (s + bytes_of w (\<Union>e\<in>set es. child_files w d e), c + of_nat (card (\<Union>e\<in>set es. child_files w d e)))"
  using assms
proof (induction es arbitrary: s c)
  case Nil
  then show ?case by (simp add: bytes_of_def)
next
  case (Cons e es)
  obtain n i where e: "e = (n, i)" by (cases e)
  have p: "path_ino w (d @ ''/'' @ n) = Some i" "CHR ''/'' \<notin> set n" "path_readable w (d @ ''/'' @ n)"
      "n \<noteq> ''.''" "n \<noteq> ''..''"
    using Cons.prems(2) unfolding e by auto
  have rest: "dir_size_loop w d (map (\<lambda>(n, i). (n, \<not> is_dir (inodes w i))) es) s' c' =
    Some (s' + bytes_of w (\<Union>e\<in>set es. child_files w d e), c' + of_nat (card (\<Union>e\<in>set es. child_files w d e)))" for s' c'
    by (rule Cons.IH) (use Cons.prems in auto)
  let ?rest = "\<Union>e\<in>set es. child_files w d e"
  have disj: "child_files w d e \<inter> ?rest = {}"
  proof -
    have "child_files w d (n, i) \<inter> child_files w d (m, j) = {}" if "(m, j) \<in> set es" for m j
    proof (rule child_files_disjoint [OF _ p(2)])
      show "n \<noteq> m" using Cons.prems(1) that by (force simp: e)
      show "CHR ''/'' \<notin> set m" using Cons.prems(2) that by auto
    qed
    then show ?thesis unfolding e by auto
  qed
  have fin: "finite (child_files w d e)" "finite ?rest" by (auto intro: finite_child_files)
  have split: "bytes_of w (\<Union>e\<in>set (e # es). child_files w d e) = bytes_of w (child_files w d e) + bytes_of w ?rest"
      "card (\<Union>e\<in>set (e # es). child_files w d e) = card (child_files w d e) + card ?rest"
    using disj fin by (simp_all add: bytes_of_def sum.union_disjoint card_Un_disjoint)
  have stat: "os_stat w (d @ ''/'' @ n) = Some \<lparr>st_isdir = is_dir (inodes w i),
      st_size = of_nat (length (content (inodes w i))), st_mtime = mtime (inodes w i)\<rparr>"
    and buf: "snprintf_buf 1024 (d @ ''/'' @ n) = d @ ''/'' @ n"
    using p by (simp_all add: os_stat_def path_readable_def)
  show ?case
  proof (cases "is_dir (inodes w i)")
    case True
    then obtain es2 where "os_readdir w (d @ ''/'' @ n) = Some es2"
      "dir_size_loop w (d @ ''/'' @ n) es2 0 0 = Some (bytes_of w (files_below w (d @ ''/'' @ n)),
         of_nat (card (files_below w (d @ ''/'' @ n))))"
      using Cons.prems(2) unfolding e by auto
    then have "dir_size_loop w d (map (\<lambda>(n, i). (n, \<not> is_dir (inodes w i))) (e # es)) s c =
        dir_size_loop w d (map (\<lambda>(n, i). (n, \<not> is_dir (inodes w i))) es)
          (s + bytes_of w (child_files w d e)) (c + of_nat (card (child_files w d e)))"
      using stat buf p True by (subst dir_size_loop.simps) (simp add: e child_files_def Let_def)
    then show ?thesis unfolding rest split by (simp add: add.assoc)
  next
    case False
    then have "dir_size_loop w d (map (\<lambda>(n, i). (n, \<not> is_dir (inodes w i))) (e # es)) s c =
        dir_size_loop w d (map (\<lambda>(n, i). (n, \<not> is_dir (inodes w i))) es)
          (s + bytes_of w (child_files w d e)) (c + of_nat (card (child_files w d e)))"
      using stat buf p by (subst dir_size_loop.simps) (simp add: e child_files_def bytes_of_def Let_def)
    then show ?thesis unfolding rest split by (simp add: add.assoc)
  qed
qed

lemma dir_size_walk:
  assumes "fs_wf w" and "readable_tree w d" and "dir_exists w d" and "\<not> denied w SysOpendir d"
  shows "\<exists>es. os_readdir w d = Some es \<and>
    dir_size_loop w d es 0 0 = Some (bytes_of w (files_below w d), of_nat (card (files_below w d)))"
  using assms(2-4)
proof (induction "card {p \<in> fst ` set (entries w). below d p}" arbitrary: d rule: less_induct)
  case less
  note tree = less.prems(1)
  have children: "\<forall>(n, i)\<in>set (dir_children w d). path_ino w (d @ ''/'' @ n) = Some i \<and> CHR ''/'' \<notin> set n
      \<and> path_readable w (d @ ''/'' @ n) \<and> n \<noteq> ''.'' \<and> n \<noteq> ''..''
      \<and> (is_dir (inodes w i) \<longrightarrow> (\<exists>es2. os_readdir w (d @ ''/'' @ n) = Some es2
           \<and> dir_size_loop w (d @ ''/'' @ n) es2 0 0 = Some (bytes_of w (files_below w (d @ ''/'' @ n)),
               of_nat (card (files_below w (d @ ''/'' @ n))))))"
  proof clarify
    fix n i assume "(n, i) \<in> set (dir_children w d)"
    then have n: "n \<noteq> []" "CHR ''/'' \<notin> set n" and entry: "(d @ ''/'' @ n, i) \<in> set (entries w)"
      by (simp_all add: dir_children_mem)
    let ?q = "d @ ''/'' @ n"
    have b: "below d ?q" using below_child [OF n(1)] by simp
    have q: "path_readable w ?q" "split_ok w d n"
      using tree entry b unfolding readable_tree_def by (force intro: rev_image_eqI)+
    have ino: "path_ino w ?q = Some i" using entry assms(1) by (simp add: path_ino_mem)
    have sub: "\<exists>es2. os_readdir w ?q = Some es2 \<and> dir_size_loop w ?q es2 0 0 =
        Some (bytes_of w (files_below w ?q), of_nat (card (files_below w ?q)))" if "is_dir (inodes w i)"
    proof (rule less.hyps)
      have "{p \<in> fst ` set (entries w). below ?q p} \<subset> {p \<in> fst ` set (entries w). below d p}"
        using below_trans [OF b] below_irrefl [of ?q] b entry by (force intro: rev_image_eqI)
      then show "card {p \<in> fst ` set (entries w). below ?q p} < card {p \<in> fst ` set (entries w). below d p}"
        by (intro psubset_card_mono) auto
      show "readable_tree w ?q" using readable_tree_child [OF tree n(1)] by simp
      show "dir_exists w ?q" using ino that by (simp add: dir_exists_def)
      show "\<not> denied w SysOpendir ?q" using q by (simp add: path_readable_def)
    qed
    show "path_ino w ?q = Some i \<and> CHR ''/'' \<notin> set n \<and> path_readable w ?q \<and> n \<noteq> ''.'' \<and> n \<noteq> ''..''
      \<and> (is_dir (inodes w i) \<longrightarrow> (\<exists>es2. os_readdir w ?q = Some es2
           \<and> dir_size_loop w ?q es2 0 0 = Some (bytes_of w (files_below w ?q), of_nat (card (files_below w ?q)))))"
      using ino n(2) q sub by (auto simp: split_ok_def)
  qed
  have "distinct (map fst (dir_children w d))"
    using assms(1) by (simp add: fs_wf_def distinct_dir_children)
  note loop = dir_size_loop_children [OF this children, of 0 0]
  then show ?case
    using less.prems files_below_children [OF assms(1) tree] by (simp add: os_readdir_def)
qed

text \<open>
  C33. Over a readable directory tree whose paths fit the 1024-byte buffer the walk returns, and
  its two outputs are the total size of all regular files at any depth below the directory (modulo
  2^64) and their number (modulo 2^32).
\<close>

theorem dir_size_totals:
  assumes "fs_wf w" and "readable_tree w d" and "d \<noteq> []" and "dir_exists w d" and "\<not> denied w SysOpendir d"
  shows "heapstore_dir_size w (Some d) =
    Some (True, (\<Sum>(p, i)\<in>files_below w d. of_nat (length (content (inodes w i)))), of_nat (card (files_below w d)))"
  using dir_size_walk [OF assms(1,2,4,5)] assms(3) by (auto simp: heapstore_dir_size_def bytes_of_def)

text \<open>The recursion as a fixed point: a walk that returned would contain a shorter walk of the same directory.\<close>

lemma dir_size_loop_diverges:
  assumes "dir_size_loop w d es s c = Some r" and "length d = 1023"
    and "os_stat w d = Some st" and "st_isdir st" and "os_readdir w d = Some es2"
    and "\<exists>(n, b)\<in>set es. n \<noteq> ''.'' \<and> n \<noteq> ''..''" and "\<exists>(n, b)\<in>set es2. n \<noteq> ''.'' \<and> n \<noteq> ''..''"
  shows False
  using assms
proof (induction arbitrary: st es2 rule: dir_size_loop.raw_induct [rotated, consumes 1, case_names body])
  case (body loop w d es s c r)
  have full: "snprintf_buf 1024 (d @ CHR ''/'' # n) = d" for n
    using body(3) by (simp add: snprintf_buf_def)
  obtain n b es' where es: "es = (n, b) # es'" using body(7) by (cases es) auto
  show False
  proof (cases "n = ''.'' \<or> n = ''..''")
    case True
    then have "loop w d es' s c = Some r" using body(2) es by auto
    moreover have "\<exists>(n, b)\<in>set es'. n \<noteq> ''.'' \<and> n \<noteq> ''..''" using body(7) True es by auto
    ultimately show False using body(1,3-6,8) by blast
  next
    case False
    then obtain u where "loop w d es2 0 0 = Some u"
      using body(2,4-6) es full by (auto simp: Let_def split: bind_splits)
    then show False using body(1,3-6,8) by blast
  qed
qed

text \<open>
  The buffer of the walk does not bound the recursion: in a directory whose path has 1023 bytes
  the truncated path of every entry is the directory itself, so with one entry in it the walk
  never returns.
\<close>

theorem dir_size_never_returns:
  assumes "length d = 1023" and "os_stat w d = Some st" and "st_isdir st" and "os_readdir w d = Some es"
    and "\<exists>(n, b)\<in>set es. n \<noteq> ''.'' \<and> n \<noteq> ''..''"
  shows "heapstore_dir_size w (Some d) = None"
proof -
  have "dir_size_loop w d es 0 0 = None"
    using dir_size_loop_diverges [OF _ assms(1-4) assms(5,5)] by (cases "dir_size_loop w d es 0 0") auto
  then show ?thesis using assms(1,4) by (auto simp: heapstore_dir_size_def)
qed

section \<open>Witnesses\<close>

definition demo_tree :: os where
  "demo_tree = demo_os\<lparr>entries := [(''/l'', 0), (''/l/s'', 4), (''/l/s/a'', 1), (''/l/b'', 2)],
     inodes := (inodes demo_os)(4 := \<lparr>is_dir = True, content = [], mtime = 0\<rparr>), next_ino := 5\<rparr>"

theorem dir_size_totals_witness: "heapstore_dir_size demo_tree (Some ''/l'') = Some (True, 5, 2)"
proof -
  have wf: "fs_wf demo_tree" by (simp add: fs_wf_def demo_tree_def)
  have ok: "\<not> denied demo_tree c p" for c p by (simp add: demo_tree_def demo_os_def)
  have dirs: "dir_exists demo_tree ''/l''" "dir_exists demo_tree ''/l/s''" by code_simp+
  have tree: "readable_tree demo_tree ''/l''"
    unfolding readable_tree_def path_readable_def split_ok_def below_def
    using dirs ok by (auto simp: demo_tree_def append_eq_Cons_conv Cons_eq_append_conv)
  have files: "files_below demo_tree ''/l'' = {(''/l/s/a'', 1), (''/l/b'', 2)}"
    unfolding files_below_def below_def by (auto simp: demo_tree_def demo_os_def)
  have "heapstore_dir_size demo_tree (Some ''/l'') = Some (True,
      (\<Sum>(p, i)\<in>files_below demo_tree ''/l''. of_nat (length (content (inodes demo_tree i)))),
      of_nat (card (files_below demo_tree ''/l'')))"
    using dir_size_totals [OF wf tree _ dirs(1) ok] by simp
  then show ?thesis unfolding files by (simp add: demo_tree_def demo_os_def)
qed

theorem dir_size_never_returns_witness:
  "\<exists>w. heapstore_dir_size w (Some (concat (replicate 93 ''/aaaaaaaaaa''))) = None"
proof -
  let ?d = "concat (replicate 93 ''/aaaaaaaaaa'')"
  let ?w = "demo_os\<lparr>entries := [(?d, 0), (?d @ ''/a'', 1)]\<rparr>"
  have len: "length ?d = 1023" by (simp add: length_concat sum_list_replicate)
  have ino: "path_ino ?w ?d = Some 0" unfolding path_ino_def by simp
  have stat: "os_stat ?w ?d = Some \<lparr>st_isdir = True, st_size = 0, st_mtime = 0\<rparr>"
    unfolding os_stat_def ino by (simp add: demo_os_def)
  have ch: "(''a'', 1) \<in> set (dir_children ?w ?d)" unfolding dir_children_mem by simp
  have dir: "os_readdir ?w ?d = Some ((''.'', False) # (''..'', False)
      # map (\<lambda>(n, i). (n, \<not> is_dir (inodes ?w i))) (dir_children ?w ?d))"
    unfolding os_readdir_def dir_exists_def ino by (simp add: demo_os_def)
  have "heapstore_dir_size ?w (Some ?d) = None"
    by (rule dir_size_never_returns [OF len stat _ dir]) (use ch in force)+
  then show ?thesis by blast
qed

end
