(* ===== verification/HS_Core_Write.thy ===== *)
theory HS_Core_Write
  imports HS_State HS_DirSize
begin

text \<open>
  src/heapstore_core_write.c: the paths of the layout, the disk usage statistics, the fast and slow
  log writes through the circuit breaker, and the retention cleanup. None is undefined behaviour (a
  message with printf conversions) or a call that does not return.
\<close>

section \<open>Paths\<close>

text \<open>A C caller passes any integer as path type; this is the range check.\<close>

definition to_path_type :: "int \<Rightarrow> path_type option" where
  "to_path_type n = (if 0 \<le> n \<and> n < int (length core_path_order) then Some (core_path_order ! nat n) else None)"

definition heapstore_get_path :: "int \<Rightarrow> string option" where
  "heapstore_get_path type = map_option core_path_names (to_path_type type)"

text \<open>Every path type has an index and a name of its own.\<close>

lemma to_path_type_onto: "\<exists>n. to_path_type n = Some t"
proof -
  have "t \<in> set core_path_order" using UNIV_enum [where 'a = path_type] by (simp add: enum_path_type_def set_eq_iff)
  then obtain i where "i < length core_path_order" "core_path_order ! i = t" by (auto simp: in_set_conv_nth)
  then have "to_path_type (int i) = Some t" by (simp add: to_path_type_def)
  then show ?thesis ..
qed

lemma to_path_type_inj: "to_path_type n = Some t \<Longrightarrow> to_path_type k = Some t \<Longrightarrow> n = k"
proof -
  have "distinct core_path_order" using enum_distinct [where 'a = path_type] by (simp add: enum_path_type_def)
  then show "to_path_type n = Some t \<Longrightarrow> to_path_type k = Some t \<Longrightarrow> n = k"
    by (auto simp: to_path_type_def nth_eq_iff_index_eq split: if_splits)
qed

lemma get_path_inj: "heapstore_get_path n = Some x \<Longrightarrow> heapstore_get_path k = Some x \<Longrightarrow> n = k"
  by (auto simp: heapstore_get_path_def dest: path_names_differ intro: to_path_type_inj)

text \<open>\<open>buffer\<close>: is the pointer given; the second result is the text stored in it.\<close>

definition heapstore_get_full_path ::
  "'c env \<Rightarrow> int \<Rightarrow> bool \<Rightarrow> size_t \<Rightarrow> 'c heapstore \<Rightarrow> hs_error \<times> string option \<times> 'c heapstore" where
  "heapstore_get_full_path E type buffer buffer_size s =
     (if \<not> heapstore_ready s then (ERR_NOT_INITIALIZED, None, s)
      else if \<not> buffer \<or> buffer_size = 0 then (ERR_INVALID_PARAM, None, s)
      else case to_path_type type of
        None \<Rightarrow> (ERR_INVALID_PARAM, None, s)
      | Some t \<Rightarrow>
          (case heapstore_get_root E s of
             (root, s') \<Rightarrow> (SUCCESS, Some (snprintf_buf (unat buffer_size) (root @ ''/'' @ core_path_names t)), s')))"

section \<open>Disk usage\<close>

record stats =
  total_disk_usage_bytes :: u64
  log_usage_bytes :: u64
  registry_usage_bytes :: u64
  trace_usage_bytes :: u64
  ipc_usage_bytes :: u64
  memory_usage_bytes :: u64
  log_file_count :: u32
  trace_file_count :: u32

definition stats0 :: stats where
  "stats0 = \<lparr>total_disk_usage_bytes = 0, log_usage_bytes = 0, registry_usage_bytes = 0, trace_usage_bytes = 0,
     ipc_usage_bytes = 0, memory_usage_bytes = 0, log_file_count = 0, trace_file_count = 0\<rparr>"

fun get_path_name :: "path_type \<Rightarrow> string option" where
  "get_path_name PATH_LOGS = Some ''logs''"
| "get_path_name PATH_REGISTRY = Some ''registry''"
| "get_path_name PATH_TRACES = Some ''traces''"
| "get_path_name PATH_KERNEL_IPC = Some ''kernel/ipc''"
| "get_path_name PATH_KERNEL_MEMORY = Some ''kernel/memory''"
| "get_path_name _ = None"

fun update_stats_for_path :: "stats \<Rightarrow> path_type \<Rightarrow> u64 \<Rightarrow> u32 \<Rightarrow> stats" where
  "update_stats_for_path st PATH_LOGS n c = st\<lparr>log_usage_bytes := log_usage_bytes st + n, log_file_count := log_file_count st + c\<rparr>"
| "update_stats_for_path st PATH_REGISTRY n c = st\<lparr>registry_usage_bytes := registry_usage_bytes st + n\<rparr>"
| "update_stats_for_path st PATH_TRACES n c = st\<lparr>trace_usage_bytes := trace_usage_bytes st + n, trace_file_count := trace_file_count st + c\<rparr>"
| "update_stats_for_path st PATH_KERNEL_IPC n c = st\<lparr>ipc_usage_bytes := ipc_usage_bytes st + n\<rparr>"
| "update_stats_for_path st PATH_KERNEL_MEMORY n c = st\<lparr>memory_usage_bytes := memory_usage_bytes st + n\<rparr>"
| "update_stats_for_path st _ n c = st"

fun stats_loop :: "'c env \<Rightarrow> path_type list \<Rightarrow> stats \<Rightarrow> 'c heapstore \<Rightarrow> (stats \<times> 'c heapstore) option" where
  "stats_loop E [] st s = Some (st, s)"
| "stats_loop E (t # ts) st s =
     (case get_path_name t of
        None \<Rightarrow> stats_loop E ts st s
      | Some path_name \<Rightarrow>
          (case heapstore_get_root E s of
             (root, s') \<Rightarrow>
               (case heapstore_dir_size (world s') (Some (snprintf_buf 512 (root @ ''/'' @ path_name))) of
                  None \<Rightarrow> None
                | Some (_, dir_size, file_count) \<Rightarrow>
                    let st' = update_stats_for_path st t dir_size file_count
                    in stats_loop E ts (st'\<lparr>total_disk_usage_bytes := total_disk_usage_bytes st' + dir_size\<rparr>) s')))"

definition heapstore_get_stats :: "'c env \<Rightarrow> bool \<Rightarrow> 'c heapstore \<Rightarrow> (hs_error \<times> stats option \<times> 'c heapstore) option" where
  "heapstore_get_stats E out s =
     (if \<not> heapstore_ready s then Some (ERR_NOT_INITIALIZED, None, s)
      else if \<not> out then Some (ERR_INVALID_PARAM, None, s)
      else case stats_loop E core_path_order stats0 s of
        None \<Rightarrow> None
      | Some (st, s') \<Rightarrow> Some (SUCCESS, Some st, s'))"

section \<open>Log writes\<close>

text \<open>
  What printf makes of a format without arguments: None when it holds a conversion, which reads an
  argument that is not there (or, with n, writes through one).
\<close>

fun render_format :: "string \<Rightarrow> string option" where
  "render_format [] = Some []"
| "render_format [c] = (if c = CHR ''%'' then None else Some [c])"
| "render_format (c # d # s) =
     (if c \<noteq> CHR ''%'' then map_option (Cons c) (render_format (d # s))
      else if d = CHR ''%'' then map_option (Cons c) (render_format s)
      else None)"

text \<open>heapstore_log_write with the message as its format; the format is read only when a file is there to write to.\<close>

definition log_target :: "airy \<Rightarrow> string option \<Rightarrow> os \<times> log \<Rightarrow> nat option" where
  "log_target A service = (\<lambda>(w, g).
     fst (case service of
            Some sv \<Rightarrow> get_service_log_file A (Some sv) (w, update_current_date w g)
          | None \<Rightarrow> get_main_log_file A (w, update_current_date w g)))"

definition log_write_format ::
  "airy \<Rightarrow> log_level \<Rightarrow> string option \<Rightarrow> string option \<Rightarrow> string \<Rightarrow> os \<times> log \<Rightarrow> (os \<times> log) option" where
  "log_write_format A level service tid fmt = (\<lambda>(w, g).
     case render_format fmt of
       Some msg \<Rightarrow> Some (heapstore_log_write A level service tid None 0 msg (w, g))
     | None \<Rightarrow>
         if \<not> log_initialized g \<or> s_log_level g < level \<or> log_target A service (w, g) = None
         then Some (heapstore_log_write A level service tid None 0 [] (w, g))
         else None)"

definition write_dispatch ::
  "'c env \<Rightarrow> string option \<Rightarrow> log_level \<Rightarrow> string option \<Rightarrow> string option \<Rightarrow> bool \<Rightarrow> 'c heapstore
     \<Rightarrow> (hs_error \<times> 'c heapstore) option" where
  "write_dispatch E service level message tid slow s =
     (if \<not> heapstore_ready s then Some (ERR_NOT_INITIALIZED, s)
      else case message of
        None \<Rightarrow> Some (ERR_INVALID_PARAM, s)
      | Some fmt \<Rightarrow>
          (case heapstore_circuit_open (breaker E) (circuit_state s) of
             (open, cs) \<Rightarrow>
               let s1 = s\<lparr>circuit_state := cs\<rparr> in
               if open then Some (ERR_CIRCUIT_OPEN, s1)
               else if \<not> heapstore_ready s1
               then (case heapstore_core_circuit_record_failure (breaker E) (circuit_state s1, metrics_of s1) of
                       (cs', m) \<Rightarrow> Some (ERR_NOT_INITIALIZED, s1\<lparr>circuit_state := cs',
                                     metrics_of := heapstore_core_metrics_update 0 slow True m\<rparr>))
               else (case log_write_format (commons E) level service tid fmt (world s1, logs s1) of
                       None \<Rightarrow> None
                     | Some (w, g) \<Rightarrow> Some (SUCCESS, s1\<lparr>world := w, logs := g,
                         circuit_state := heapstore_core_circuit_record_success (breaker E) (circuit_state s1),
                         metrics_of := heapstore_core_metrics_update 0 slow False (metrics_of s1)\<rparr>))))"

definition heapstore_log_write_fast ::
  "'c env \<Rightarrow> string option \<Rightarrow> log_level \<Rightarrow> string option \<Rightarrow> 'c heapstore \<Rightarrow> (hs_error \<times> 'c heapstore) option" where
  "heapstore_log_write_fast E service level message s = write_dispatch E service level message None True s"

text \<open>The timeout parameter is not used by the code.\<close>

definition heapstore_log_write_slow ::
  "'c env \<Rightarrow> string option \<Rightarrow> log_level \<Rightarrow> string option \<Rightarrow> string option \<Rightarrow> u32 \<Rightarrow> 'c heapstore
     \<Rightarrow> (hs_error \<times> 'c heapstore) option" where
  "heapstore_log_write_slow E service level message tid timeout s = write_dispatch E service level message tid False s"

section \<open>Retention cleanup\<close>

definition heapstore_cleanup :: "'c env \<Rightarrow> bool \<Rightarrow> u64 option \<Rightarrow> 'c heapstore \<Rightarrow> hs_error \<times> u64 option \<times> 'c heapstore" where
  "heapstore_cleanup E dry_run freed_bytes s =
     (if \<not> heapstore_ready s then (ERR_NOT_INITIALIZED, freed_bytes, s)
      else case heapstore_core_get_cleanup_config s of
        (auto_cleanup, log_days, trace_days) \<Rightarrow>
          if \<not> auto_cleanup then (SUCCESS, map_option (\<lambda>_. 0) freed_bytes, s)
          else
            (case heapstore_log_cleanup (commons E) (sint log_days) (Some 0) (world s, logs s) of
               (log_err, log_freed, w1) \<Rightarrow>
                 (case heapstore_trace_cleanup (sint trace_days) (Some 0) (w1, traces s) of
                    (trace_err, trace_freed, w2) \<Rightarrow>
                      let total_freed = (if log_err = SUCCESS then the log_freed else 0)
                            + (if trace_err = SUCCESS then the trace_freed else 0);
                          result = (if log_err \<noteq> SUCCESS then log_err else trace_err)
                      in (result, map_option (\<lambda>_. if dry_run then 0 else total_freed) freed_bytes, s\<lparr>world := w2\<rparr>))))"

section \<open>Properties of the writes\<close>

lemma render_plain: "CHR ''%'' \<notin> set fmt \<Longrightarrow> render_format fmt = Some fmt"
  by (induction fmt rule: render_format.induct) auto

lemma metrics_update_counts:
  "total_operations (heapstore_core_metrics_update ns fast failed m) = total_operations m + 1"
  "failed_operations (heapstore_core_metrics_update ns fast failed m) = failed_operations m + (if failed then 1 else 0)"
  "fast_path_operations (heapstore_core_metrics_update ns fast failed m) = fast_path_operations m + (if fast then 1 else 0)"
  "slow_path_operations (heapstore_core_metrics_update ns fast failed m) = slow_path_operations m + (if fast then 0 else 1)"
  by (simp_all add: heapstore_core_metrics_update_def Let_def)


section \<open>Properties of the statistics and of the cleanup\<close>

definition usage_dir :: "string \<Rightarrow> string \<Rightarrow> string" where
  "usage_dir root name = root @ ''/'' @ name"

text \<open>The five directories of the statistics exist and are readable trees.\<close>

definition usage_readable :: "os \<Rightarrow> string \<Rightarrow> bool" where
  "usage_readable w root \<longleftrightarrow> (\<forall>n\<in>{''logs'', ''registry'', ''traces'', ''kernel/ipc'', ''kernel/memory''}.
     readable_tree w (usage_dir root n) \<and> dir_exists w (usage_dir root n) \<and> \<not> denied w SysOpendir (usage_dir root n))"

lemma dir_size_usage:
  assumes "fs_wf w" and "usage_readable w root" and "length root < 490"
    and "n \<in> {''logs'', ''registry'', ''traces'', ''kernel/ipc'', ''kernel/memory''}"
  shows "heapstore_dir_size w (Some (snprintf_buf 512 (root @ ''/'' @ n)))
    = Some (True, bytes_below w (usage_dir root n), of_nat (card (files_below w (usage_dir root n))))"
proof -
  have "length n < 20" using assms(4) by auto
  then have p: "snprintf_buf 512 (root @ ''/'' @ n) = usage_dir root n"
    using assms(3) by (simp add: usage_dir_def)
  have "usage_dir root n \<noteq> []" by (simp add: usage_dir_def)
  with dir_size_walk [OF assms(1), of "usage_dir root n"] assms(2,4) show ?thesis
    unfolding p usage_readable_def heapstore_dir_size_def bytes_below_def bytes_of_def by force
qed

text \<open>
  The disk usage statistics of a ready store over readable directories: the call returns, each
  figure is the total size of the files below its directory (modulo 2^64), the file counts are
  those of the logs and the traces, and the total is the sum of the five figures.
\<close>

theorem get_stats_totals:
  assumes "heapstore_ready s" and "s_root_path s = root" "root \<noteq> []" "length root < 490"
    and "fs_wf (world s)" and "usage_readable (world s) root"
  defines "B \<equiv> \<lambda>n. bytes_below (world s) (usage_dir root n)"
    and "N \<equiv> \<lambda>n. of_nat (card (files_below (world s) (usage_dir root n)))"
  shows "heapstore_get_stats E True s = Some (SUCCESS, Some
    \<lparr>total_disk_usage_bytes = B ''logs'' + B ''registry'' + B ''traces'' + B ''kernel/ipc'' + B ''kernel/memory'',
     log_usage_bytes = B ''logs'', registry_usage_bytes = B ''registry'', trace_usage_bytes = B ''traces'',
     ipc_usage_bytes = B ''kernel/ipc'', memory_usage_bytes = B ''kernel/memory'',
     log_file_count = N ''logs'', trace_file_count = N ''traces''\<rparr>, s)"
proof -
  have root: "heapstore_get_root E s = (root, s)" using assms(2,3) by (simp add: heapstore_get_root_def)
  note size = dir_size_usage [OF assms(5,6,4)]
  show ?thesis
    using assms(1) by (simp add: heapstore_get_stats_def core_path_order_def root size stats0_def Let_def B_def N_def
        del: append_Cons append_Nil)
qed

section \<open>Witnesses\<close>

text \<open>A ready store on \<open>demo_tree\<close> whose main log is an open file.\<close>

definition demo_env :: "demo_cb env" where
  "demo_env = \<lparr>commons = demo_airy, breaker = demo_lib, mtx_ok = True, time_ms = (\<lambda>_. 0)\<rparr>"

definition demo_store :: "os \<Rightarrow> demo_cb heapstore" where
  "demo_store w = (heapstore0 demo_cb0 w)\<lparr>s_initialized := True, s_root_path := ''/l'',
     logs := log0\<lparr>log_initialized := True, main_log_file := Some 2\<rparr>\<rparr>"

text \<open>An expired log file in the log directory of \<open>demo_airy\<close>, with the default retention.\<close>

definition cleanup_store :: "demo_cb heapstore" where
  "cleanup_store = (demo_store (demo_os\<lparr>entries := [(''/d/agentrt/heapstore/logs/kernel'', 0),
       (''/d/agentrt/heapstore/logs/kernel/old.log'', 1)], clock := 1000000\<rparr>))
     \<lparr>s_config := heapstore_def_config None, traces := (traces (heapstore0 demo_cb0 demo_os))
        \<lparr>tr_initialized := True, trace_path := ''/t'', span_buffer := Some []\<rparr>\<rparr>"

text \<open>
  The dry run of the cleanup is no dry run: with the flag set the call leaves the same world
  and returns the same code as without it, and the flag only makes it report zero freed bytes; an
  expired log file is gone after a dry run.
\<close>

theorem cleanup_dry_run_deletes:
  "snd (snd (heapstore_cleanup E True freed s)) = snd (snd (heapstore_cleanup E False freed s))
    \<and> fst (heapstore_cleanup E True freed s) = fst (heapstore_cleanup E False freed s)
    \<and> (heapstore_ready s \<longrightarrow> fst (snd (heapstore_cleanup E True freed s)) = map_option (\<lambda>_. 0) freed)
    \<and> path_ino (world cleanup_store) ''/d/agentrt/heapstore/logs/kernel/old.log'' = Some 1
    \<and> fst (heapstore_cleanup demo_env True (Some 9) cleanup_store) = SUCCESS
    \<and> path_ino (world (snd (snd (heapstore_cleanup demo_env True (Some 9) cleanup_store))))
        ''/d/agentrt/heapstore/logs/kernel/old.log'' = None"
proof (intro conjI)
  show "path_ino (world cleanup_store) ''/d/agentrt/heapstore/logs/kernel/old.log'' = Some 1"
    "fst (heapstore_cleanup demo_env True (Some 9) cleanup_store) = SUCCESS"
    "path_ino (world (snd (snd (heapstore_cleanup demo_env True (Some 9) cleanup_store))))
        ''/d/agentrt/heapstore/logs/kernel/old.log'' = None"
    by code_simp+
qed (auto simp: heapstore_cleanup_def Let_def split: prod.splits)

theorem cleanup_dry_run_deletes_witness:
  "fst (snd (heapstore_cleanup demo_env True (Some 9) cleanup_store)) = Some 0"
proof -
  have "heapstore_ready cleanup_store" by (simp add: heapstore_ready_def cleanup_store_def demo_store_def)
  with cleanup_dry_run_deletes [of demo_env "Some 9" cleanup_store] show ?thesis by simp
qed


definition usage_tree :: os where
  "usage_tree = demo_os\<lparr>entries := [(''/r'', 0), (''/r/logs'', 3), (''/r/registry'', 4), (''/r/traces'', 5), (''/r/kernel'', 6),
       (''/r/kernel/ipc'', 7), (''/r/kernel/memory'', 8), (''/r/logs/a'', 1), (''/r/traces/b'', 2)],
     inodes := (\<lambda>i. if i = 1 then \<lparr>is_dir = False, content = ''abc'', mtime = 0\<rparr>
       else if i = 2 then \<lparr>is_dir = False, content = ''de'', mtime = 0\<rparr>
       else \<lparr>is_dir = True, content = [], mtime = 0\<rparr>),
     next_ino := 9\<rparr>"

lemma usage_tree_files:
  "files_below usage_tree ''/r/logs'' = {(''/r/logs/a'', 1)}" "files_below usage_tree ''/r/traces'' = {(''/r/traces/b'', 2)}"
  "files_below usage_tree ''/r/registry'' = {}" "files_below usage_tree ''/r/kernel/ipc'' = {}"
  "files_below usage_tree ''/r/kernel/memory'' = {}"
  unfolding files_below_def below_def by (auto simp: usage_tree_def)

theorem get_stats_totals_witness:
  "\<exists>st. heapstore_get_stats demo_env True ((demo_store usage_tree)\<lparr>s_root_path := ''/r''\<rparr>)
       = Some (SUCCESS, Some st, (demo_store usage_tree)\<lparr>s_root_path := ''/r''\<rparr>)
     \<and> total_disk_usage_bytes st = 5 \<and> log_file_count st = 1"
proof -
  let ?s = "(demo_store usage_tree)\<lparr>s_root_path := ''/r''\<rparr>"
  have ready: "heapstore_ready ?s" by (simp add: heapstore_ready_def demo_store_def)
  have root: "s_root_path ?s = ''/r''" by simp
  have w: "world ?s = usage_tree" by (simp add: demo_store_def heapstore0_def)
  have wf: "fs_wf usage_tree" by (simp add: fs_wf_def usage_tree_def)
  have ok: "\<not> denied usage_tree c p" for c p by (simp add: usage_tree_def demo_os_def)
  have dirs: "\<forall>d\<in>{''/r/logs'', ''/r/registry'', ''/r/traces'', ''/r/kernel/ipc'', ''/r/kernel/memory''}. dir_exists usage_tree d"
    by (simp add: dir_exists_def path_ino_def usage_tree_def)
  have tree: "\<forall>d\<in>{''/r/logs'', ''/r/registry'', ''/r/traces'', ''/r/kernel/ipc'', ''/r/kernel/memory''}. readable_tree usage_tree d"
    unfolding readable_tree_def path_readable_def split_ok_def below_def
    using dirs ok by (auto simp: usage_tree_def append_eq_Cons_conv Cons_eq_append_conv)
  have readable: "usage_readable usage_tree ''/r''"
    using dirs tree ok by (simp add: usage_readable_def usage_dir_def)
  have ne: "''/r'' \<noteq> []" and len: "length ''/r'' < 490" by simp_all
  have wf': "fs_wf (world ?s)" and readable': "usage_readable (world ?s) ''/r''"
    unfolding w by (rule wf, rule readable)
  have bytes: "bytes_below usage_tree (usage_dir ''/r'' ''logs'') = 3" "bytes_below usage_tree (usage_dir ''/r'' ''traces'') = 2"
    "bytes_below usage_tree (usage_dir ''/r'' ''registry'') = 0" "bytes_below usage_tree (usage_dir ''/r'' ''kernel/ipc'') = 0"
    "bytes_below usage_tree (usage_dir ''/r'' ''kernel/memory'') = 0"
    by (simp_all add: usage_dir_def bytes_below_def usage_tree_files) (simp_all add: usage_tree_def)
  have one: "card (files_below usage_tree (usage_dir ''/r'' ''logs'')) = 1"
    by (simp add: usage_dir_def usage_tree_files)
  note st = get_stats_totals [OF ready root ne len wf' readable', of demo_env]
  show ?thesis
    by (rule exI, rule conjI, rule st) (simp only: w bytes one stats.simps, simp)
qed

end
