(* ===== verification/HS_Core.thy ===== *)
theory HS_Core
  imports HS_Core_Write "HOL-Library.Code_Target_Nat"
begin

text \<open>
  src/heapstore_core.c: the initialisation of the whole store with its rollback, the shutdown, the
  flush and the health check, and below them the proof that the contracts of the subsystems
  (the lifecycle locale) make a lifecycle of the whole. None is undefined behaviour.
\<close>

section \<open>The subsystem calls on the whole state\<close>

definition registry_up :: "'c heapstore \<Rightarrow> hs_error \<times> 'c heapstore" where
  "registry_up s = (case heapstore_registry_init (registry_db s) of (e, g) \<Rightarrow> (e, s\<lparr>registry_db := g\<rparr>))"

definition trace_up :: "'c env \<Rightarrow> 'c heapstore \<Rightarrow> hs_error \<times> 'c heapstore" where
  "trace_up E s =
     (case heapstore_get_root E s of
        (root, s1) \<Rightarrow>
          (case heapstore_trace_init (commons E) root (world s1, heap s1, traces s1) of
             (e, w, h, t) \<Rightarrow> (e, s1\<lparr>world := w, heap := h, traces := t\<rparr>)))"

definition memory_up :: "'c env \<Rightarrow> 'c heapstore \<Rightarrow> hs_error \<times> 'c heapstore" where
  "memory_up E s =
     (case heapstore_get_root E s of
        (root, s1) \<Rightarrow>
          (case heapstore_memory_init (commons E) root (world s1, memory_tables s1) of
             (e, w, m) \<Rightarrow> (e, s1\<lparr>world := w, memory_tables := m\<rparr>)))"

definition log_up :: "'c env \<Rightarrow> 'c heapstore \<Rightarrow> hs_error \<times> 'c heapstore" where
  "log_up E s =
     (case heapstore_log_init (commons E) (world s, logs s) of (e, w, g) \<Rightarrow> (e, s\<lparr>world := w, logs := g\<rparr>))"

definition registry_down :: "'c heapstore \<Rightarrow> 'c heapstore option" where
  "registry_down s = map_option (\<lambda>g. s\<lparr>registry_db := g\<rparr>) (heapstore_registry_shutdown (registry_db s))"

definition trace_down :: "'c heapstore \<Rightarrow> 'c heapstore option" where
  "trace_down s = map_option (\<lambda>(h, t). s\<lparr>heap := h, traces := t\<rparr>) (heapstore_trace_shutdown (heap s, traces s))"

definition memory_down :: "'c heapstore \<Rightarrow> 'c heapstore option" where
  "memory_down s = Some (s\<lparr>memory_tables := heapstore_memory_shutdown (memory_tables s)\<rparr>)"

definition log_down :: "'c heapstore \<Rightarrow> 'c heapstore option" where
  "log_down s = Some (s\<lparr>logs := heapstore_log_shutdown (logs s)\<rparr>)"

definition circuit_down :: "'c env \<Rightarrow> 'c heapstore \<Rightarrow> 'c heapstore option" where
  "circuit_down E s = Some (s\<lparr>circuit_state := heapstore_circ_stop (breaker E) (circuit_state s)\<rparr>)"

text \<open>The calls of a rollback or of the shutdown, one after the other, and then \<open>s_initialized = false\<close>.\<close>

fun run_all :: "('s \<Rightarrow> 's option) list \<Rightarrow> 's \<Rightarrow> 's option" where
  "run_all [] s = Some s"
| "run_all (f # fs) s = (case f s of None \<Rightarrow> None | Some s' \<Rightarrow> run_all fs s')"

definition give_up :: "('c heapstore \<Rightarrow> 'c heapstore option) list \<Rightarrow> hs_error \<Rightarrow> 'c heapstore
    \<Rightarrow> (hs_error \<times> 'c heapstore) option" where
  "give_up fs e s = map_option (\<lambda>s'. (e, s'\<lparr>s_initialized := False\<rparr>)) (run_all fs s)"

section \<open>Initialisation\<close>

definition initialize_atomic_vars :: "'c env \<Rightarrow> 'c heapstore \<Rightarrow> 'c heapstore" where
  "initialize_atomic_vars E s =
     s\<lparr>circuit_state := heapstore_core_circuit_init (breaker E) (mtx_ok E) (circuit_state s),
       metrics_of := heapstore_core_metrics_init\<rparr>"

text \<open>
  The migration phase of heapstore_init: the version check and, if it asks for one, the forward
  migration. When forward fails before it wrote the report, report_free reads an uninitialised
  structure.
\<close>

definition init_migrate :: "'c env \<Rightarrow> 'c heapstore \<Rightarrow> (hs_error \<times> 'c heapstore) option" where
  "init_migrate E s =
     (case heapstore_get_root E s of
        (root, s1) \<Rightarrow>
          (case heapstore_migration_check True (s_initialized s1) root (world s1) of
             (mig_err, needs, ver, w) \<Rightarrow>
               let s2 = s1\<lparr>world := w\<rparr> in
               if mig_err \<noteq> SUCCESS then give_up [] mig_err s2
               else if needs = Some True
               then (case heapstore_migration_forward (commons E) (time_ms E) None (s_initialized s2) root 0 True
                           (allocs (heap s2), world s2) of
                       (err, report, al, w') \<Rightarrow>
                         let s3 = s2\<lparr>world := w', heap := (heap s2)\<lparr>allocs := al\<rparr>\<rparr> in
                         case report of
                           None \<Rightarrow> None
                         | Some r \<Rightarrow> if err \<noteq> SUCCESS then give_up [] ERR_INTERNAL s3 else Some (SUCCESS, s3))
               else Some (SUCCESS, s2)))"

text \<open>The subsystems, each failure rolling back the ones before it.\<close>

definition init_subsystems :: "'c env \<Rightarrow> 'c heapstore \<Rightarrow> (hs_error \<times> 'c heapstore) option" where
  "init_subsystems E s =
     (case registry_up s of
        (e1, s1) \<Rightarrow>
          if e1 \<noteq> SUCCESS then give_up [] e1 s1
          else case trace_up E s1 of
            (e2, s2) \<Rightarrow>
              if e2 \<noteq> SUCCESS then give_up [registry_down] e2 s2
              else case memory_up E s2 of
                (e3, s3) \<Rightarrow>
                  if e3 \<noteq> SUCCESS then give_up [trace_down, registry_down] e3 s3
                  else case log_up E s3 of
                    (e4, s4) \<Rightarrow>
                      if e4 \<noteq> SUCCESS then give_up [memory_down, trace_down, registry_down] e4 s4
                      else Some (SUCCESS, s4))"

definition heapstore_init :: "'c env \<Rightarrow> config option \<Rightarrow> 'c heapstore \<Rightarrow> (hs_error \<times> 'c heapstore) option" where
  "heapstore_init E manager s =
     (if s_initialized s then Some (ERR_ALREADY_INITIALIZED, s)
      else
        let s1 = apply_user_config E manager (set_default_config E s);
            s2 = s1\<lparr>s_root_path := strncpy_term (commons E) (the (root_path (s_config s1))) 512\<rparr>
        in case create_directory_structure E s2 of
             (err, s3) \<Rightarrow>
               if err \<noteq> SUCCESS then Some (err, s3)
               else case init_migrate E ((initialize_atomic_vars E s3)\<lparr>s_initialized := True\<rparr>) of
                 None \<Rightarrow> None
               | Some (mig, s4) \<Rightarrow> if mig \<noteq> SUCCESS then Some (mig, s4) else init_subsystems E s4)"

definition heapstore_shutdown :: "'c env \<Rightarrow> 'c heapstore \<Rightarrow> 'c heapstore option" where
  "heapstore_shutdown E s =
     (if s_initialized s
      then map_option (\<lambda>s'. s'\<lparr>s_initialized := False\<rparr>)
             (run_all [circuit_down E, log_down, trace_down, memory_down, registry_down] s)
      else Some s)"

section \<open>Flush and health\<close>

definition heapstore_flush :: "'c heapstore \<Rightarrow> hs_error \<times> 'c heapstore" where
  "heapstore_flush s =
     (if \<not> s_initialized s then (ERR_NOT_INITIALIZED, s)
      else case heapstore_trace_flush (world s, traces s) of
        (err, w, t) \<Rightarrow> (if err \<noteq> SUCCESS then err else SUCCESS, s\<lparr>world := w, traces := t\<rparr>))"

definition check_subsystem_health ::
  "'c env \<Rightarrow> string \<Rightarrow> ('c heapstore \<Rightarrow> bool) \<Rightarrow> 'c heapstore \<Rightarrow> (bool \<times> 'c heapstore) option" where
  "check_subsystem_health E name check_func s =
     (let healthy = check_func s in
      if healthy then Some (True, s)
      else map_option (\<lambda>(_, s'). (False, s')) (heapstore_log_write_fast E (Some ''health'') LOG_WARN (Some name) s))"

text \<open>The five health outputs, for callers that give every pointer.\<close>

record health =
  registry_ok :: bool
  trace_ok :: bool
  log_ok :: bool
  ipc_ok :: bool
  memory_ok :: bool

definition heapstore_health_check :: "'c env \<Rightarrow> 'c heapstore \<Rightarrow> (hs_error \<times> health \<times> 'c heapstore) option" where
  "heapstore_health_check E s =
     (if \<not> s_initialized s
      then Some (ERR_NOT_INITIALIZED,
             \<lparr>registry_ok = False, trace_ok = False, log_ok = False, ipc_ok = False, memory_ok = False\<rparr>, s)
      else case check_subsystem_health E ''registry'' (\<lambda>s. heapstore_registry_is_healthy (registry_db s)) s of
        None \<Rightarrow> None
      | Some (r, s1) \<Rightarrow>
          (case check_subsystem_health E ''trace'' (\<lambda>s. heapstore_trace_is_healthy (traces s)) s1 of
             None \<Rightarrow> None
           | Some (t, s2) \<Rightarrow>
               (case check_subsystem_health E ''log'' (\<lambda>s. heapstore_log_is_healthy (logs s)) s2 of
                  None \<Rightarrow> None
                | Some (l, s3) \<Rightarrow>
                    (case check_subsystem_health E ''memory'' (\<lambda>s. heapstore_memory_is_healthy (memory_tables s)) s3 of
                       None \<Rightarrow> None
                     | Some (m, s4) \<Rightarrow>
                         (case heapstore_circuit_open (breaker E) (circuit_state s4) of
                            (open, cs) \<Rightarrow>
                              Some (if r \<and> t \<and> l \<and> m \<and> \<not> open then SUCCESS else ERR_INTERNAL,
                                \<lparr>registry_ok = r, trace_ok = t, log_ok = l, ipc_ok = True, memory_ok = m\<rparr>,
                                s4\<lparr>circuit_state := cs\<rparr>))))))"

section \<open>Invariant and what is running\<close>

text \<open>The invariants of the subsystems, and which of them report themselves healthy.\<close>

definition core_inv :: "'c heapstore \<Rightarrow> bool" where
  "core_inv s \<longleftrightarrow> registry_safe (registry_db s) \<and> trace_inv (heap s, traces s)
     \<and> memory_inv (memory_tables s) \<and> log_inv (logs s)"

definition running :: "'c heapstore \<Rightarrow> bool \<times> bool \<times> bool \<times> bool" where
  "running s = (heapstore_registry_is_healthy (registry_db s), heapstore_trace_is_healthy (traces s),
     heapstore_memory_is_healthy (memory_tables s), heapstore_log_is_healthy (logs s))"

abbreviation stopped :: "bool \<times> bool \<times> bool \<times> bool" where
  "stopped \<equiv> (False, False, False, False)"

text \<open>What one subsystem call may do to the rest: \<open>same_core\<close> is everything but the subsystems.\<close>

definition same_core :: "'c heapstore \<Rightarrow> 'c heapstore \<Rightarrow> bool" where
  "same_core s s' \<longleftrightarrow> s_initialized s' = s_initialized s \<and> s_config s' = s_config s
     \<and> circuit_state s' = circuit_state s \<and> metrics_of s' = metrics_of s"

lemma same_core_refl: "same_core s s"
  by (simp add: same_core_def)

lemma same_core_trans: "same_core s t \<Longrightarrow> same_core t u \<Longrightarrow> same_core s u"
  by (simp add: same_core_def)

named_theorems core_ops
lemmas core_state = core_inv_def running_def same_core_def

lemma get_root_frame:
  "heapstore_get_root E s = (root, s1) \<Longrightarrow> core_inv s1 = core_inv s \<and> running s1 = running s \<and> same_core s s1
     \<and> world s1 = world s \<and> heap s1 = heap s \<and> registry_db s1 = registry_db s \<and> traces s1 = traces s
     \<and> memory_tables s1 = memory_tables s \<and> logs s1 = logs s"
  by (auto simp: heapstore_get_root_def core_state Let_def split: if_splits)

lemma registry_up_outcome:
  assumes "core_inv s" and "running s = (r, t, m, l)"
  shows "\<exists>s'. registry_up s = (SUCCESS, s') \<and> core_inv s' \<and> running s' = (True, t, m, l) \<and> same_core s s'"
proof -
  obtain g where g: "heapstore_registry_init (registry_db s) = (SUCCESS, g)"
    by (simp add: heapstore_registry_init_def)
  from registry_life.init_outcome [OF _ g] g assms show ?thesis
    by (simp add: registry_up_def core_state)
qed

lemma trace_up_outcome:
  assumes "core_inv s" and "running s = (r, t, m, l)" and "trace_up E s = (e, s')"
  shows "\<exists>t'. core_inv s' \<and> running s' = (r, t', m, l) \<and> same_core s s'
    \<and> (e = SUCCESS \<longrightarrow> t') \<and> (e \<noteq> SUCCESS \<longrightarrow> \<not> t \<longrightarrow> \<not> t')"
proof -
  obtain root s1 where root: "heapstore_get_root E s = (root, s1)" by fastforce
  note frame = get_root_frame [OF root]
  obtain w h tr where run: "heapstore_trace_init (commons E) root (world s1, heap s1, traces s1) = (e, w, h, tr)"
    using assms(3) root by (auto simp: trace_up_def split: prod.splits)
  have inv: "trace_inv (heap s1, traces s1)" using assms(1) frame by (simp add: core_inv_def)
  have out: "trace_inv (h, tr) \<and> (e = SUCCESS \<longrightarrow> heapstore_trace_is_healthy tr)
      \<and> (e \<noteq> SUCCESS \<longrightarrow> \<not> heapstore_trace_is_healthy (traces s1) \<longrightarrow> \<not> heapstore_trace_is_healthy tr)"
    using trace_life.init_outcome [OF _ run] inv by simp
  have s': "s' = s1\<lparr>world := w, heap := h, traces := tr\<rparr>" using assms(3) root run by (simp add: trace_up_def)
  show ?thesis
    using out assms(1,2) frame unfolding s' by (simp add: core_state)
qed

lemma memory_up_outcome:
  assumes "core_inv s" and "running s = (r, t, m, l)" and "memory_up E s = (e, s')"
  shows "\<exists>m'. core_inv s' \<and> running s' = (r, t, m', l) \<and> same_core s s'
    \<and> (e = SUCCESS \<longrightarrow> m') \<and> (e \<noteq> SUCCESS \<longrightarrow> \<not> m \<longrightarrow> \<not> m')"
proof -
  obtain root s1 where root: "heapstore_get_root E s = (root, s1)" by fastforce
  note frame = get_root_frame [OF root]
  obtain w mm where run: "heapstore_memory_init (commons E) root (world s1, memory_tables s1) = (e, w, mm)"
    using assms(3) root by (auto simp: memory_up_def split: prod.splits)
  have "memory_inv (memory_tables s1)" using assms(1) frame by (simp add: core_inv_def)
  then have out: "memory_inv mm \<and> (e = SUCCESS \<longrightarrow> heapstore_memory_is_healthy mm)
      \<and> (e \<noteq> SUCCESS \<longrightarrow> \<not> heapstore_memory_is_healthy (memory_tables s1) \<longrightarrow> \<not> heapstore_memory_is_healthy mm)"
    using memory_life.init_outcome [OF _ run] by simp
  have s': "s' = s1\<lparr>world := w, memory_tables := mm\<rparr>" using assms(3) root run by (simp add: memory_up_def)
  show ?thesis
    using out assms(1,2) frame unfolding s' by (simp add: core_state)
qed

lemma log_up_outcome:
  assumes "core_inv s" and "running s = (r, t, m, l)" and "log_up E s = (e, s')"
  shows "\<exists>l'. core_inv s' \<and> running s' = (r, t, m, l') \<and> same_core s s'
    \<and> (e = SUCCESS \<longrightarrow> l') \<and> (e \<noteq> SUCCESS \<longrightarrow> \<not> l \<longrightarrow> \<not> l')"
proof -
  obtain w g where run: "heapstore_log_init (commons E) (world s, logs s) = (e, w, g)"
    using assms(3) by (auto simp: log_up_def split: prod.splits)
  have "log_inv (logs s)" using assms(1) by (simp add: core_inv_def)
  then have out: "log_inv g \<and> (e = SUCCESS \<longrightarrow> heapstore_log_is_healthy g)
      \<and> (e \<noteq> SUCCESS \<longrightarrow> \<not> heapstore_log_is_healthy (logs s) \<longrightarrow> \<not> heapstore_log_is_healthy g)"
    using log_life.init_outcome [OF _ run] by simp
  have s': "s' = s\<lparr>world := w, logs := g\<rparr>" using assms(3) run by (simp add: log_up_def)
  show ?thesis
    using out assms(1,2) unfolding s' by (simp add: core_state)
qed

text \<open>The four shutdowns never fail in a good state, and stop exactly their subsystem.\<close>

lemma registry_down_outcome [core_ops]:
  assumes "core_inv s" and "running s = (r, t, m, l)"
  shows "\<exists>s'. registry_down s = Some s' \<and> core_inv s' \<and> running s' = (False, t, m, l) \<and> same_core s s'"
  using assms registry_life.shutdown_outcome [of "registry_db s"] by (force simp: registry_down_def core_state)

lemma trace_down_outcome [core_ops]:
  assumes "core_inv s" and "running s = (r, t, m, l)"
  shows "\<exists>s'. trace_down s = Some s' \<and> core_inv s' \<and> running s' = (r, False, m, l) \<and> same_core s s'"
  using assms trace_shutdown_outcome [of "heap s" "traces s"] by (force simp: trace_down_def core_state)

lemma memory_down_outcome [core_ops]:
  assumes "core_inv s" and "running s = (r, t, m, l)"
  shows "\<exists>s'. memory_down s = Some s' \<and> core_inv s' \<and> running s' = (r, t, False, l) \<and> same_core s s'"
  using assms memory_life.shutdown_outcome [of "(world s, memory_tables s)"]
  by (force simp: memory_down_def core_state)

lemma log_down_outcome [core_ops]:
  assumes "core_inv s" and "running s = (r, t, m, l)"
  shows "\<exists>s'. log_down s = Some s' \<and> core_inv s' \<and> running s' = (r, t, m, False) \<and> same_core s s'"
  using assms log_life.shutdown_outcome [of "(world s, logs s)"] by (force simp: log_down_def core_state)

section \<open>Initialisation and shutdown of the whole\<close>

text \<open>The migration of the initialisation always has its report: its version was read by the check just before.\<close>

lemma check_needs_migration:
  assumes "heapstore_migration_check True ready root w = (SUCCESS, Some True, v, w')"
  shows "w' = w \<and> fst (mig_entry_begin ready root w) = SUCCESS"
proof -
  obtain e ver where get: "heapstore_migration_get_version True ready root w = (e, ver)" by fastforce
  have "ready" if "e = SUCCESS" using that get by (cases ready) (simp_all add: heapstore_migration_get_version_def)
  then show ?thesis
    using assms get by (cases "the ver = 0") (auto simp: heapstore_migration_check_def mig_entry_begin_def Let_def
        split: if_splits prod.splits)
qed

lemma forward_reports:
  assumes "heapstore_migration_forward A now SO ready root target True (al, w) = (e, rep, al', w')"
    and "fst (mig_entry_begin ready root w) = SUCCESS"
  shows "rep \<noteq> None \<and> tick al \<le> tick al'"
proof -
  obtain v where "mig_entry_begin ready root w = (SUCCESS, v)" using assms(2) by (metis prod.collapse)
  with assms(1) show ?thesis
    by (auto simp: heapstore_migration_forward_def mig_run_steps_def mig_report_prepare_def airy_alloc_def Let_def
        split: if_splits prod.splits)
qed

lemma init_migrate_outcome:
  assumes "core_inv s" and "s_initialized s"
  shows "\<exists>e s'. init_migrate E s = Some (e, s') \<and> core_inv s' \<and> running s' = running s
    \<and> circuit_state s' = circuit_state s \<and> s_initialized s' = (e = SUCCESS)"
proof -
  obtain root s1 where root: "heapstore_get_root E s = (root, s1)" by fastforce
  note frame = get_root_frame [OF root]
  obtain me needs ver w where chk: "heapstore_migration_check True (s_initialized s1) root (world s1) = (me, needs, ver, w)"
    by (metis surj_pair)
  show ?thesis
  proof (cases "me = SUCCESS \<and> needs = Some True")
    case False
    then show ?thesis
      using root chk frame assms by (cases "me = SUCCESS") (auto simp: init_migrate_def give_up_def core_state Let_def)
  next
    case True
    with chk have "heapstore_migration_check True (s_initialized s1) root (world s1) = (SUCCESS, Some True, ver, w)"
      by simp
    note begun = check_needs_migration [OF this]
    obtain e rep al w' where fwd: "heapstore_migration_forward (commons E) (time_ms E) None (s_initialized s1) root 0 True
        (allocs (heap s1), world s1) = (e, rep, al, w')" by (metis surj_pair)
    obtain r where r: "rep = Some r" and tick: "tick (allocs (heap s1)) \<le> tick al"
      using forward_reports [OF fwd] begun by auto
    have tr: "trace_inv ((heap s1)\<lparr>allocs := al\<rparr>, traces s1)"
      using trace_inv_tick [OF _ tick] assms(1) frame by (simp add: core_inv_def)
    let ?s = "s1\<lparr>world := w', heap := (heap s1)\<lparr>allocs := al\<rparr>\<rparr>"
    have "init_migrate E s = (if e \<noteq> SUCCESS then give_up [] ERR_INTERNAL ?s else Some (SUCCESS, ?s))"
      using root chk True fwd r begun by (simp add: init_migrate_def Let_def)
    moreover have "core_inv ?s" "running ?s = running s" using tr assms(1) frame by (simp_all add: core_state)
    ultimately show ?thesis
      using frame assms by (cases "e = SUCCESS") (auto simp: give_up_def core_state)
  qed
qed

lemma init_subsystems_outcome:
  assumes inv: "core_inv s" and "s_initialized s" and "running s = (r, t, m, l)"
  shows "\<exists>e s'. init_subsystems E s = Some (e, s') \<and> core_inv s' \<and> circuit_state s' = circuit_state s
    \<and> s_initialized s' = (e = SUCCESS) \<and> (e = SUCCESS \<longrightarrow> running s' = (True, True, True, True))
    \<and> (e \<noteq> SUCCESS \<longrightarrow> running s = stopped \<longrightarrow> running s' = stopped)"
proof -
  obtain s1 where s1: "registry_up s = (SUCCESS, s1)" "core_inv s1" "running s1 = (True, t, m, l)" "same_core s s1"
    using registry_up_outcome [OF assms(1,3)] by blast
  obtain e2 s2 where up2: "trace_up E s1 = (e2, s2)" by fastforce
  obtain t2 where s2: "core_inv s2" "running s2 = (True, t2, m, l)" "same_core s1 s2" "e2 = SUCCESS \<longrightarrow> t2"
    "e2 \<noteq> SUCCESS \<longrightarrow> \<not> t \<longrightarrow> \<not> t2"
    using trace_up_outcome [OF s1(2,3) up2] by blast
  obtain e3 s3 where up3: "memory_up E s2 = (e3, s3)" by fastforce
  obtain m3 where s3: "core_inv s3" "running s3 = (True, t2, m3, l)" "same_core s2 s3" "e3 = SUCCESS \<longrightarrow> m3"
    "e3 \<noteq> SUCCESS \<longrightarrow> \<not> m \<longrightarrow> \<not> m3"
    using memory_up_outcome [OF s2(1,2) up3] by blast
  obtain e4 s4 where up4: "log_up E s3 = (e4, s4)" by fastforce
  obtain l4 where s4: "core_inv s4" "running s4 = (True, t2, m3, l4)" "same_core s3 s4" "e4 = SUCCESS \<longrightarrow> l4"
    "e4 \<noteq> SUCCESS \<longrightarrow> \<not> l \<longrightarrow> \<not> l4"
    using log_up_outcome [OF s3(1,2) up4] by blast
  have core: "circuit_state s2 = circuit_state s" "circuit_state s3 = circuit_state s" "circuit_state s4 = circuit_state s"
      "s_initialized s4"
    using s1(4) s2(3) s3(3) s4(3) assms(2) by (simp_all add: same_core_def)
  consider "e2 \<noteq> SUCCESS" | "e2 = SUCCESS" "e3 \<noteq> SUCCESS" | "e2 = SUCCESS" "e3 = SUCCESS" "e4 \<noteq> SUCCESS"
    | "e2 = SUCCESS" "e3 = SUCCESS" "e4 = SUCCESS" by blast
  then show ?thesis
  proof cases
    case 1
    have run: "init_subsystems E s = give_up [registry_down] e2 s2"
      using 1 s1(1) up2 by (simp add: init_subsystems_def)
    obtain s' where s': "registry_down s2 = Some s'" "core_inv s'" "running s' = (False, t2, m, l)" "same_core s2 s'"
      using registry_down_outcome [OF s2(1,2)] by blast
    show ?thesis
      using 1 run s' s2(5) assms(3) core by (auto simp: give_up_def core_state)
  next
    case 2
    have run: "init_subsystems E s = give_up [trace_down, registry_down] e3 s3"
      using 2 s1(1) up2 up3 by (simp add: init_subsystems_def)
    obtain u where u: "trace_down s3 = Some u" "core_inv u" "running u = (True, False, m3, l)" "same_core s3 u"
      using trace_down_outcome [OF s3(1,2)] by blast
    obtain s' where s': "registry_down u = Some s'" "core_inv s'" "running s' = (False, False, m3, l)" "same_core u s'"
      using registry_down_outcome [OF u(2,3)] by blast
    show ?thesis
      using 2 run u s' s3(5) assms(3) core by (auto simp: give_up_def core_state)
  next
    case 3
    have run: "init_subsystems E s = give_up [memory_down, trace_down, registry_down] e4 s4"
      using 3 s1(1) up2 up3 up4 by (simp add: init_subsystems_def)
    obtain v where v: "memory_down s4 = Some v" "core_inv v" "running v = (True, t2, False, l4)" "same_core s4 v"
      using memory_down_outcome [OF s4(1,2)] by blast
    obtain u where u: "trace_down v = Some u" "core_inv u" "running u = (True, False, False, l4)" "same_core v u"
      using trace_down_outcome [OF v(2,3)] by blast
    obtain s' where s': "registry_down u = Some s'" "core_inv s'" "running s' = (False, False, False, l4)" "same_core u s'"
      using registry_down_outcome [OF u(2,3)] by blast
    show ?thesis
      using 3 run v u s' s4(5) assms(3) core by (auto simp: give_up_def core_state)
  next
    case 4
    have "init_subsystems E s = Some (SUCCESS, s4)"
      using 4 s1(1) up2 up3 up4 by (simp add: init_subsystems_def)
    with 4 s2(4) s3(4) s4 core show ?thesis by auto
  qed
qed

text \<open>The phases before the migration: configuration, root path and directories touch no subsystem.\<close>

lemma config_frame:
  "core_inv (set_default_config E s) = core_inv s" "running (set_default_config E s) = running s"
  "s_initialized (set_default_config E s) = s_initialized s"
  "core_inv (apply_user_config E m s) = core_inv s" "running (apply_user_config E m s) = running s"
  "s_initialized (apply_user_config E m s) = s_initialized s"
  by (simp_all add: set_default_config_def apply_user_config_def apply_to_circuit_def core_state split: option.splits)

lemma directories_frame:
  "create_directory_structure E s = (e, s') \<Longrightarrow> core_inv s' = core_inv s \<and> running s' = running s
     \<and> s_initialized s' = s_initialized s \<and> circuit_state s' = circuit_state s"
  by (auto simp: create_directory_structure_def core_state split: prod.splits if_splits)

lemma atomics_frame:
  "core_inv ((initialize_atomic_vars E s)\<lparr>s_initialized := b\<rparr>) = core_inv s"
  "running ((initialize_atomic_vars E s)\<lparr>s_initialized := b\<rparr>) = running s"
  by (simp_all add: initialize_atomic_vars_def core_state)

definition armed :: "'c env \<Rightarrow> config option \<Rightarrow> 'c heapstore \<Rightarrow> 'c \<times> circuit" where
  "armed E manager s = heapstore_core_circuit_init (breaker E) (mtx_ok E)
     (circuit_state (apply_user_config E manager (set_default_config E s)))"

text \<open>The outcome of the initialisation from any good state.\<close>

lemma core_init_outcome:
  assumes inv: "core_inv s"
  shows "\<exists>e s'. heapstore_init E manager s = Some (e, s') \<and> core_inv s'
    \<and> (e = SUCCESS \<longrightarrow> s_initialized s' \<and> running s' = (True, True, True, True))
    \<and> (e \<noteq> SUCCESS \<longrightarrow> s_initialized s \<and> s' = s
         \<or> \<not> s_initialized s' \<and> (running s = stopped \<longrightarrow> running s' = stopped))
    \<and> (s_initialized s \<or> circuit_state s' = armed E manager s
        \<or> e = ERR_DIR_CREATE_FAILED \<and> circuit_state s' = circuit_state (apply_user_config E manager (set_default_config E s)))"
proof (cases "s_initialized s")
  case True
  then show ?thesis using inv by (simp add: heapstore_init_def)
next
  case False
  let ?s1 = "apply_user_config E manager (set_default_config E s)"
  let ?s2 = "?s1\<lparr>s_root_path := strncpy_term (commons E) (the (root_path (s_config ?s1))) 512\<rparr>"
  have s2: "core_inv ?s2 = core_inv s" "running ?s2 = running s" "\<not> s_initialized ?s2"
      "circuit_state ?s2 = circuit_state ?s1"
    using False config_frame [of E] by (simp_all add: core_state)
  obtain de s3 where dirs: "create_directory_structure E ?s2 = (de, s3)" by fastforce
  note s3 = directories_frame [OF dirs]
  show ?thesis
  proof (cases "de = SUCCESS")
    case False
    then have "de = ERR_DIR_CREATE_FAILED"
      using dirs by (auto simp: create_directory_structure_def split: prod.splits if_splits)
    with False \<open>\<not> s_initialized s\<close> dirs s2 s3 inv show ?thesis by (simp add: heapstore_init_def Let_def)
  next
    case True
    let ?s4 = "(initialize_atomic_vars E s3)\<lparr>s_initialized := True\<rparr>"
    have s4: "core_inv ?s4" "running ?s4 = running s" "s_initialized ?s4" "circuit_state ?s4 = armed E manager s"
      using inv s2 s3 by (simp_all add: atomics_frame) (simp add: initialize_atomic_vars_def armed_def)
    obtain me s5 where mig: "init_migrate E ?s4 = Some (me, s5)" "core_inv s5" "running s5 = running s"
      "circuit_state s5 = armed E manager s" "s_initialized s5 = (me = SUCCESS)"
      using init_migrate_outcome [OF s4(1,3)] s4(2,4) by metis
    show ?thesis
    proof (cases "me = SUCCESS")
      case False
      with mig dirs True \<open>\<not> s_initialized s\<close> show ?thesis by (simp add: heapstore_init_def Let_def)
    next
      case me: True
      obtain r t m l where run: "running s5 = (r, t, m, l)" by (metis surj_pair)
      have on: "s_initialized s5" using mig(5) me by simp
      from init_subsystems_outcome [OF mig(2) on run] obtain e s' where sub:
        "init_subsystems E s5 = Some (e, s')" "core_inv s'" "circuit_state s' = armed E manager s"
        "s_initialized s' = (e = SUCCESS)" "e = SUCCESS \<longrightarrow> running s' = (True, True, True, True)"
        "e \<noteq> SUCCESS \<longrightarrow> running s = stopped \<longrightarrow> running s' = stopped"
        using mig(3,4) by metis
      have "heapstore_init E manager s = Some (e, s')"
        using sub(1) mig(1) me dirs True \<open>\<not> s_initialized s\<close> by (simp add: heapstore_init_def Let_def)
      with sub show ?thesis by blast
    qed
  qed
qed

lemma core_shutdown_outcome:
  assumes inv: "core_inv s" and "s_initialized s"
  shows "\<exists>s'. heapstore_shutdown E s = Some s' \<and> core_inv s' \<and> running s' = stopped \<and> \<not> s_initialized s'
    \<and> circuit_state s' = heapstore_circ_stop (breaker E) (circuit_state s)"
proof -
  obtain r t m l where run: "running s = (r, t, m, l)" by (metis surj_pair)
  let ?a = "s\<lparr>circuit_state := heapstore_circ_stop (breaker E) (circuit_state s)\<rparr>"
  have a: "core_inv ?a" "running ?a = (r, t, m, l)" using inv run by (simp_all add: core_state)
  obtain b where b: "log_down ?a = Some b" "core_inv b" "running b = (r, t, m, False)" "same_core ?a b"
    using log_down_outcome [OF a] by blast
  obtain c where c: "trace_down b = Some c" "core_inv c" "running c = (r, False, m, False)" "same_core b c"
    using trace_down_outcome [OF b(2,3)] by blast
  obtain d where d: "memory_down c = Some d" "core_inv d" "running d = (r, False, False, False)" "same_core c d"
    using memory_down_outcome [OF c(2,3)] by blast
  obtain u where u: "registry_down d = Some u" "core_inv u" "running u = stopped" "same_core d u"
    using registry_down_outcome [OF d(2,3)] by blast
  have "heapstore_shutdown E s = Some (u\<lparr>s_initialized := False\<rparr>)"
    using assms(2) b(1) c(1) d(1) u(1) by (simp add: heapstore_shutdown_def circuit_down_def)
  moreover have "circuit_state u = heapstore_circ_stop (breaker E) (circuit_state s)"
    using b(4) c(4) d(4) u(4) by (simp add: same_core_def)
  ultimately show ?thesis using u by (simp add: core_state)
qed

interpretation core_life: guarded_lifecycle "\<lambda>s. the (heapstore_init E manager s)" "heapstore_shutdown E"
  "\<lambda>s. s_initialized s \<and> running s = (True, True, True, True)" core_inv
  for E :: "'c env" and manager
proof unfold_locales
  fix s :: "'c heapstore"
  assume inv: "core_inv s"
  obtain e s' where run: "heapstore_init E manager s = Some (e, s')" "core_inv s'"
      "e = SUCCESS \<longrightarrow> s_initialized s' \<and> running s' = (True, True, True, True)"
      "e \<noteq> SUCCESS \<longrightarrow> s_initialized s \<and> s' = s \<or> \<not> s_initialized s'"
    using core_init_outcome [OF inv, of E manager] by blast
  show "core_inv (snd (the (heapstore_init E manager s)))" using run by simp
  show "s_initialized (snd (the (heapstore_init E manager s)))
      \<and> running (snd (the (heapstore_init E manager s))) = (True, True, True, True)"
    if "fst (the (heapstore_init E manager s)) = SUCCESS" using run that by simp
  show "\<not> (s_initialized (snd (the (heapstore_init E manager s)))
      \<and> running (snd (the (heapstore_init E manager s))) = (True, True, True, True))"
    if "\<not> (s_initialized s \<and> running s = (True, True, True, True))"
      "fst (the (heapstore_init E manager s)) \<noteq> SUCCESS" using run that by auto
  show "\<exists>s'. heapstore_shutdown E s = Some s' \<and> core_inv s'
      \<and> \<not> (s_initialized s' \<and> running s' = (True, True, True, True))"
    using core_shutdown_outcome [OF inv, of E] inv by (cases "s_initialized s") (auto simp: heapstore_shutdown_def)
qed

section \<open>Properties\<close>

lemma health_check_running:
  assumes "s_initialized s" and "running s = (True, True, True, True)"
    and "heapstore_circuit_open (breaker E) (circuit_state s) = (blocked, cs)"
  shows "heapstore_health_check E s = Some (if blocked then ERR_INTERNAL else SUCCESS,
    \<lparr>registry_ok = True, trace_ok = True, log_ok = True, ipc_ok = True, memory_ok = True\<rparr>, s\<lparr>circuit_state := cs\<rparr>)"
  using assms by (simp add: heapstore_health_check_def check_subsystem_health_def running_def)

text \<open>
  C2. Initialisation is all or nothing: from a stopped store it never has undefined behaviour. On
  success the store is ready, its four subsystems are healthy, and a health check reports so
  (with an error code exactly when the breaker blocks). On any failure (directories, schema
  version, migration, one of the subsystems) the store is not ready and no subsystem is left
  running.
\<close>

theorem init_all_or_nothing:
  assumes "core_inv s" and "\<not> s_initialized s" and "running s = stopped"
  shows "\<exists>e s'. heapstore_init E manager s = Some (e, s') \<and> core_inv s'
    \<and> heapstore_ready s' = (e = SUCCESS)
    \<and> running s' = (e = SUCCESS, e = SUCCESS, e = SUCCESS, e = SUCCESS)
    \<and> (e = SUCCESS \<longrightarrow> heapstore_health_check E s' =
         Some (if fst (heapstore_circuit_open (breaker E) (circuit_state s')) then ERR_INTERNAL else SUCCESS,
           \<lparr>registry_ok = True, trace_ok = True, log_ok = True, ipc_ok = True, memory_ok = True\<rparr>,
           s'\<lparr>circuit_state := snd (heapstore_circuit_open (breaker E) (circuit_state s'))\<rparr>))"
proof -
  obtain e s' where run: "heapstore_init E manager s = Some (e, s')" "core_inv s'"
      "heapstore_ready s' = (e = SUCCESS)" "running s' = (e = SUCCESS, e = SUCCESS, e = SUCCESS, e = SUCCESS)"
    using core_init_outcome [OF assms(1), of E manager] assms(2,3) unfolding heapstore_ready_def by fastforce
  obtain blocked cs where "heapstore_circuit_open (breaker E) (circuit_state s') = (blocked, cs)" by (metis surj_pair)
  with health_check_running [of s' E blocked cs] run show ?thesis by (auto simp: heapstore_ready_def)
qed


section \<open>Witnesses\<close>

lemma core_inv_start: "core_inv (heapstore0 c w)" "running (heapstore0 c w) = stopped"
proof -
  have "registry_safe (registry_db (heapstore0 c w))"
    by (auto simp: registry_safe_def heapstore0_def empty_domain_def intro!: exI [of _ "[]"])
  moreover have "trace_inv (heap (heapstore0 c w), traces (heapstore0 c w))"
    by (simp add: trace_inv_def heapstore0_def heap_ok_def live_def spans_of_def)
  moreover have "memory_inv (memory_tables (heapstore0 c w))" "log_inv (logs (heapstore0 c w))"
    by (simp_all add: heapstore0_def memory_inv_def table_ok_def memory0_def log_inv_def log0_def)
  ultimately show "core_inv (heapstore0 c w)" by (simp add: core_inv_def)
  show "running (heapstore0 c w) = stopped"
    by (simp add: running_def heapstore0_def heapstore_registry_is_healthy_def heapstore_trace_is_healthy_def
        heapstore_memory_is_healthy_def heapstore_log_is_healthy_def memory0_def log0_def)
qed

text \<open>In an empty data directory the initialisation succeeds.\<close>

lemma start_succeeds: "map_option fst (heapstore_init demo_env None (heapstore0 demo_cb0 demo_root)) = Some SUCCESS"
  by code_simp

theorem init_all_or_nothing_witness:
  "\<exists>s'. heapstore_init demo_env None (heapstore0 demo_cb0 demo_root) = Some (SUCCESS, s')
     \<and> running s' = (True, True, True, True)"
proof -
  have "\<not> s_initialized (heapstore0 demo_cb0 demo_root)" by (simp add: heapstore0_def)
  from init_all_or_nothing [OF core_inv_start(1) this core_inv_start(2), of demo_env None] start_succeeds
  show ?thesis by auto
qed


end
