(* ===== verification/HS_Integration.thy ===== *)
theory HS_Integration
  imports HS_Core
begin

text \<open>
  src/heapstore_integration.c: the entry points for the syscall, telemetry and logging layers of
  AgentRT over a whole store. The mutex is held over init and shutdown only, which are single
  steps here. None is undefined behaviour of a call below.
\<close>

section \<open>State\<close>

text \<open>The codes of airy_err_t that the file returns.\<close>

datatype airy_err = AIRY_SUCCESS | AIRY_EIO | AIRY_ENOTINIT | AIRY_EINVAL | AIRY_ENOMEM

record 'c integration =
  g_integration_initialized :: bool
  g_root_path :: string
  store :: "'c heapstore"

definition of_hs_error :: "hs_error \<Rightarrow> airy_err" where
  "of_hs_error err = (if err = SUCCESS then AIRY_SUCCESS else AIRY_EIO)"

section \<open>Life cycle\<close>

definition auto_root :: "airy \<Rightarrow> string" where
  "auto_root A = (if data_dir A \<noteq> [] then snprintf_buf 512 (data_dir A @ ''/agentrt/heapstore'') else ''/tmp/agentrt/heapstore'')"

definition effective_root :: "airy \<Rightarrow> string option \<Rightarrow> string" where
  "effective_root A root =
     (case root of
        Some r \<Rightarrow> r
      | None \<Rightarrow> (case env_root A of Some env \<Rightarrow> if env \<noteq> [] then env else auto_root A | None \<Rightarrow> auto_root A))"

definition heapstore_integration_init ::
  "'c env \<Rightarrow> string option \<Rightarrow> 'c integration \<Rightarrow> (airy_err \<times> 'c integration) option" where
  "heapstore_integration_init E root i =
     (if g_integration_initialized i then Some (AIRY_SUCCESS, i)
      else
        case heapstore_init E (Some (heapstore_def_config (Some (effective_root (commons E) root)))) (store i) of
          None \<Rightarrow> None
        | Some (err, s) \<Rightarrow>
            if err \<noteq> SUCCESS then Some (AIRY_EIO, i\<lparr>store := s\<rparr>)
            else
              let A = commons E;
                  path = (case root of
                      Some r \<Rightarrow> strncpy_term A r 512
                    | None \<Rightarrow> take 511 (case env_root A of
                          Some env \<Rightarrow> if env \<noteq> [] then strncpy_term A env 512 else auto_root A
                        | None \<Rightarrow> auto_root A))
              in Some (AIRY_SUCCESS, i\<lparr>store := s, g_root_path := path, g_integration_initialized := True\<rparr>))"

definition heapstore_integration_shutdown :: "'c env \<Rightarrow> 'c integration \<Rightarrow> 'c integration option" where
  "heapstore_integration_shutdown E i =
     (if \<not> g_integration_initialized i then Some i
      else map_option (\<lambda>s. i\<lparr>store := s, g_integration_initialized := False, g_root_path := []\<rparr>)
             (heapstore_shutdown E (store i)))"

section \<open>Sessions\<close>

definition syscall_session :: "airy \<Rightarrow> string \<Rightarrow> string option \<Rightarrow> u64 \<Rightarrow> u64 \<Rightarrow> session_record" where
  "syscall_session A sid meta created_ns last_active_ns =
     \<lparr>session_id = strncpy_term A sid 128,
      user_id = (case meta of None \<Rightarrow> [] | Some m \<Rightarrow> strncpy_term A m 128),
      session_created_at = created_ns, last_active_at = last_active_ns, ttl_seconds = 0,
      session_status = strncpy_term A ''active'' 32, metadata = []\<rparr>"

definition heapstore_syscall_session_save ::
  "'c env \<Rightarrow> string option \<Rightarrow> string option \<Rightarrow> u64 \<Rightarrow> u64 \<Rightarrow> 'c integration \<Rightarrow> (airy_err \<times> 'c integration) option" where
  "heapstore_syscall_session_save E sid meta created_ns last_active_ns i =
     (if \<not> g_integration_initialized i then Some (AIRY_ENOTINIT, i)
      else case sid of
        None \<Rightarrow> Some (AIRY_EINVAL, i)
      | Some k \<Rightarrow>
          let s = store i in
          map_option (\<lambda>(err, al, g). (of_hs_error err,
              i\<lparr>store := s\<lparr>heap := (heap s)\<lparr>allocs := al\<rparr>, registry_db := g\<rparr>\<rparr>))
            (heapstore_registry_add_session (Some (syscall_session (commons E) k meta created_ns last_active_ns))
               (allocs (heap s), registry_db s)))"

definition heapstore_syscall_session_delete ::
  "string option \<Rightarrow> 'c integration \<Rightarrow> (airy_err \<times> 'c integration) option" where
  "heapstore_syscall_session_delete sid i =
     (if \<not> g_integration_initialized i then Some (AIRY_ENOTINIT, i)
      else case sid of
        None \<Rightarrow> Some (AIRY_EINVAL, i)
      | Some k \<Rightarrow>
          map_option (\<lambda>(err, g). (of_hs_error err, i\<lparr>store := (store i)\<lparr>registry_db := g\<rparr>\<rparr>))
            (heapstore_registry_delete_session (Some k) (registry_db (store i))))"

section \<open>Traces\<close>

text \<open>The decimal text of an int, as printf writes it.\<close>

definition show_int :: "int \<Rightarrow> string" where
  "show_int n = (if n < 0 then CHR ''-'' # show_nat (nat (- n)) else show_nat (nat n))"

text \<open>AIRY_STRDUP of a string of the caller.\<close>

definition strdup_text :: "string \<Rightarrow> mem \<Rightarrow> nat option \<times> mem" where
  "strdup_text x h =
     (case airy_alloc (allocs h) of
        (None, al) \<Rightarrow> (None, h\<lparr>allocs := al\<rparr>)
      | (Some a, al) \<Rightarrow> (Some a, h\<lparr>allocs := al, cells := (cells h)(a \<mapsto> x)\<rparr>))"

definition syscall_span ::
  "airy \<Rightarrow> string \<Rightarrow> string \<Rightarrow> string option \<Rightarrow> string \<Rightarrow> int \<Rightarrow> int \<Rightarrow> int \<Rightarrow> nat option \<Rightarrow> span" where
  "syscall_span A tid sid parent name start_us end_us st attrs =
     \<lparr>trace_id = strncpy_term A tid 64, span_id = strncpy_term A sid 32,
      parent_span_id = (case parent of None \<Rightarrow> [] | Some p \<Rightarrow> strncpy_term A p 32),
      span_name = strncpy_term A name 128, kind = [],
      start_time_ns = word_of_int start_us * 1000, end_time_ns = word_of_int end_us * 1000,
      service_name = [], status = snprintf_buf 32 (show_int st),
      attributes = attrs, attribute_count = (if attrs = None then 0 else 1)\<rparr>"

definition heapstore_syscall_trace_save ::
  "'c env \<Rightarrow> string option \<Rightarrow> string option \<Rightarrow> string option \<Rightarrow> string option \<Rightarrow> int \<Rightarrow> int \<Rightarrow> int \<Rightarrow> string option
     \<Rightarrow> 'c integration \<Rightarrow> (airy_err \<times> 'c integration) option" where
  "heapstore_syscall_trace_save E tid sid parent name start_us end_us st events i =
     (if \<not> g_integration_initialized i then Some (AIRY_ENOTINIT, i)
      else case (tid, sid, name) of
        (Some t, Some p, Some n) \<Rightarrow>
          let s = store i;
              (attrs, h) = (case events of
                  Some e \<Rightarrow> if 0 < length e then strdup_text e (heap s) else (None, heap s)
                | None \<Rightarrow> (None, heap s))
          in if attrs = None \<and> (case events of Some e \<Rightarrow> 0 < length e | None \<Rightarrow> False)
             then Some (AIRY_ENOMEM, i\<lparr>store := s\<lparr>heap := h\<rparr>\<rparr>)
             else case heapstore_trace_write_span
                 (Some (syscall_span (commons E) t p parent n start_us end_us st attrs)) (h, traces s) of
               None \<Rightarrow> None
             | Some (err, h1, tr) \<Rightarrow>
                 map_option (\<lambda>h2. (of_hs_error err, i\<lparr>store := s\<lparr>heap := h2, traces := tr\<rparr>\<rparr>)) (airy_free attrs h1)
      | _ \<Rightarrow> Some (AIRY_EINVAL, i))"

text \<open>\<open>out\<close>: is out_traces given; the second result is the text stored there.\<close>

definition heapstore_syscall_trace_export ::
  "bool \<Rightarrow> 'c integration \<Rightarrow> (airy_err \<times> string option \<times> 'c integration) option" where
  "heapstore_syscall_trace_export out i =
     (if \<not> g_integration_initialized i then Some (AIRY_ENOTINIT, None, i)
      else if \<not> out then Some (AIRY_EINVAL, None, i)
      else map_option (\<lambda>(err, txt, h). (of_hs_error err, txt, i\<lparr>store := (store i)\<lparr>heap := h\<rparr>\<rparr>))
             (heapstore_trace_export_to_json True True (heap (store i), traces (store i))))"

section \<open>Logging\<close>

definition logging_level :: "int \<Rightarrow> log_level" where
  "logging_level level =
     (if level = 0 then LOG_DEBUG else if level = 1 then LOG_INFO else if level = 2 then LOG_WARN
      else if level = 3 then LOG_ERROR else LOG_INFO)"

text \<open>\<open>src_file\<close> is what __FILE__ expands to in the build; the call stands in line 287. The timestamp is not used.\<close>

definition heapstore_logging_write ::
  "'c env \<Rightarrow> string \<Rightarrow> string option \<Rightarrow> int \<Rightarrow> string option \<Rightarrow> string option \<Rightarrow> u64 \<Rightarrow> 'c integration \<Rightarrow> airy_err \<times> 'c integration" where
  "heapstore_logging_write E src_file module level tid message timestamp_ns i =
     (if \<not> g_integration_initialized i then (AIRY_ENOTINIT, i)
      else if module = None \<or> message = None then (AIRY_EINVAL, i)
      else
        let s = store i in
        case heapstore_log_write (commons E) (logging_level level) module tid (Some src_file) 287 (the message)
            (world s, logs s) of
          (w, g) \<Rightarrow> (AIRY_SUCCESS, i\<lparr>store := s\<lparr>world := w, logs := g\<rparr>\<rparr>))"

section \<open>Properties\<close>

definition registry_of :: "'c integration \<Rightarrow> allocator \<times> registry" where
  "registry_of i = (allocs (heap (store i)), registry_db (store i))"

lemma of_hs_error_success [simp]: "of_hs_error e = AIRY_SUCCESS \<longleftrightarrow> e = SUCCESS"
  by (simp add: of_hs_error_def)

lemma session_delete_run:
  assumes "g_integration_initialized i"
    and "heapstore_registry_delete_session (Some k) (registry_db (store i)) = Some (e, g)"
  shows "heapstore_syscall_session_delete (Some k) i
    = Some (of_hs_error e, i\<lparr>store := (store i)\<lparr>registry_db := g\<rparr>\<rparr>)"
  using assms by (simp add: heapstore_syscall_session_delete_def)

text \<open>
  C38. What a saved session is: under the first 127 bytes of its id, with the metadata text in the
  user id (cut to 127 bytes) and no metadata; no other session changes. Deleting that id restores
  the sessions from before; the call with an id of 128 bytes or more saves a session that a delete
  by the same id does not find.
\<close>

theorem session_save_then_delete:
  assumes A: "strncpy_ok (commons E)" and inv: "registry_inv (registry_of i)"
    and save: "heapstore_syscall_session_save E (Some sid) meta created last_active i = Some (AIRY_SUCCESS, i')"
  shows "registry_inv (registry_of i')
    \<and> session_lookup (registry_of i') = (session_lookup (registry_of i))(take 127 sid \<mapsto>
        \<lparr>session_id = take 127 sid, user_id = (case meta of None \<Rightarrow> [] | Some m \<Rightarrow> take 127 m),
         session_created_at = created, last_active_at = last_active, ttl_seconds = 0,
         session_status = ''active'', metadata = []\<rparr>)
    \<and> (\<exists>i''. heapstore_syscall_session_delete (Some (take 127 sid)) i' = Some (AIRY_SUCCESS, i'')
         \<and> session_lookup (registry_of i'') = session_lookup (registry_of i))
    \<and> (128 \<le> length sid \<longrightarrow> session_lookup (registry_of i) sid = None \<longrightarrow>
         (\<exists>i''. heapstore_syscall_session_delete (Some sid) i' = Some (AIRY_EIO, i'')
           \<and> session_lookup (registry_of i'') = session_lookup (registry_of i')))"
proof -
  let ?r = "syscall_session (commons E) sid meta created last_active"
  have r: "?r = \<lparr>session_id = take 127 sid, user_id = (case meta of None \<Rightarrow> [] | Some m \<Rightarrow> take 127 m),
         session_created_at = created, last_active_at = last_active, ttl_seconds = 0,
         session_status = ''active'', metadata = []\<rparr>"
    using A by (simp add: syscall_session_def strncpy_ok_def split: option.splits)
  then have key: "session_id ?r = take 127 sid" by simp
  have on: "g_integration_initialized i"
    using save by (auto simp: heapstore_syscall_session_save_def split: if_splits)
  obtain al g where add: "heapstore_registry_add_session (Some ?r) (registry_of i) = Some (SUCCESS, al, g)"
    and i': "i' = i\<lparr>store := (store i)\<lparr>heap := (heap (store i))\<lparr>allocs := al\<rparr>, registry_db := g\<rparr>\<rparr>"
    using save on by (auto simp: heapstore_syscall_session_save_def registry_of_def Let_def)
  have reg': "registry_of i' = (al, g)" "g_integration_initialized i'" "registry_db (store i') = g"
    using on by (simp_all add: i' registry_of_def)
  have inv': "registry_inv (al, g)" by (rule session_store.insert_inv [OF inv add])
  have look: "session_lookup (al, g) = (session_lookup (registry_of i))(take 127 sid \<mapsto> ?r)"
    using session_store.insert_success [OF inv add] key by simp
  obtain e g1 where del: "heapstore_registry_delete_session (Some (take 127 sid)) g = Some (e, g1)"
    and "session_lookup (al, g) (take 127 sid) \<noteq> None \<longleftrightarrow> e = SUCCESS"
    using delete_session_contract [OF inv', of "take 127 sid"] by blast
  then have e: "e = SUCCESS" using look by simp
  have "session_lookup (al, g1) = session_lookup (registry_of i)"
    by (rule session_erasable.insert_delete [OF inv add]) (use del e key in simp)
  then have "\<exists>i''. heapstore_syscall_session_delete (Some (take 127 sid)) i' = Some (AIRY_SUCCESS, i'')
         \<and> session_lookup (registry_of i'') = session_lookup (registry_of i)"
    using session_delete_run [OF reg'(2), of "take 127 sid" e g1] del e reg' i' by (simp add: of_hs_error_def registry_of_def)
  moreover have "\<exists>i''. heapstore_syscall_session_delete (Some sid) i' = Some (AIRY_EIO, i'')
           \<and> session_lookup (registry_of i'') = session_lookup (registry_of i')"
    if long: "128 \<le> length sid" and new: "session_lookup (registry_of i) sid = None"
  proof -
    have "length (take 127 sid) \<noteq> length sid" using long by simp
    then have "sid \<noteq> take 127 sid" by metis
    then have "session_lookup (al, g) sid = None" using look new by simp
    then obtain e2 g2 where "heapstore_registry_delete_session (Some sid) g = Some (e2, g2)" "e2 \<noteq> SUCCESS"
        "session_lookup (al, g2) = session_lookup (al, g)"
      using delete_session_contract [OF inv', of sid] by blast
    then show ?thesis
      using session_delete_run [OF reg'(2), of sid e2 g2] reg' i' by (simp add: of_hs_error_def registry_of_def)
  qed
  ultimately show ?thesis using inv' look r reg'(1) by simp
qed

text \<open>The trace store owns its heap: the live cells are exactly the attribute copies of its spans.\<close>

definition owned :: "mem \<times> trace \<Rightarrow> bool" where
  "owned = (\<lambda>(h, t). dom (cells h) = set (ptrs (spans_of t)))"

lemma write_span_dup:
  assumes inv: "trace_inv (h, t)" and a: "cells h a = None" "a < tick (allocs h)" and "attributes s = Some a"
  shows "\<exists>e h1 t1 h2. heapstore_trace_write_span (Some s) (h\<lparr>cells := (cells h)(a \<mapsto> x)\<rparr>, t) = Some (e, h1, t1)
    \<and> airy_free (Some a) h1 = Some h2 \<and> trace_inv (h2, t1) \<and> (owned (h, t) \<longrightarrow> owned (h2, t1))
    \<and> values_of (h2, t1) = values_of (h, t) @ (if e = SUCCESS then [(s\<lparr>attributes := None\<rparr>, Some x)] else [])
    \<and> tick (allocs h) \<le> tick (allocs h2)"
proof -
  let ?h = "h\<lparr>cells := (cells h)(a \<mapsto> x)\<rparr>"
  have refused: "\<exists>h2. airy_free (Some a) (?h\<lparr>allocs := al\<rparr>) = Some h2 \<and> trace_inv (h2, t)
      \<and> (owned (h, t) \<longrightarrow> owned (h2, t)) \<and> values_of (h2, t) = values_of (h, t)
      \<and> tick (allocs h) \<le> tick (allocs h2)" if "tick (allocs h) \<le> tick al" for al
  proof (intro exI conjI)
    let ?h2 = "h\<lparr>allocs := al\<rparr>"
    have "(cells h)(a := None) = cells h" using a(1) by (simp add: fun_upd_idem)
    then show "airy_free (Some a) (?h\<lparr>allocs := al\<rparr>) = Some ?h2" by (simp add: airy_free_def)
    show "trace_inv (?h2, t)" by (rule trace_inv_tick [OF inv that])
    show "owned (h, t) \<longrightarrow> owned (?h2, t)" by (simp add: owned_def)
    show "tick (allocs h) \<le> tick (allocs ?h2)" using that by simp
    show "values_of (?h2, t) = values_of (h, t)" by (simp add: values_of_def span_val_def)
  qed
  have same: "?h\<lparr>allocs := allocs ?h\<rparr> = ?h" by simp
  consider "\<not> tr_initialized t" | "tr_initialized t" "span_id s = [] \<or> trace_id s = []"
    | "tr_initialized t" "\<not> (span_id s = [] \<or> trace_id s = [])" "TRACE_MAX_SPANS \<le> length (spans_of t)"
    | "tr_initialized t" "\<not> (span_id s = [] \<or> trace_id s = [])" "\<not> TRACE_MAX_SPANS \<le> length (spans_of t)" by blast
  then show ?thesis
  proof cases
    case 4
    have dup: "airy_strdup a ?h = (case airy_alloc (allocs h) of (None, al) \<Rightarrow> Some (None, ?h\<lparr>allocs := al\<rparr>)
        | (Some b, al) \<Rightarrow> Some (Some b, ?h\<lparr>allocs := al, cells := (cells ?h)(b \<mapsto> x)\<rparr>))"
      by (simp add: airy_strdup_def)
    obtain r al where alloc: "airy_alloc (allocs h) = (r, al)" by fastforce
    have tick: "tick (allocs h) \<le> tick al" using airy_alloc_tick [of h] alloc by simp
    show ?thesis
    proof (cases r)
      case None
      then show ?thesis
        using 4 assms(4) refused [OF tick] alloc by (simp add: heapstore_trace_write_span_def dup)
    next
      case (Some b)
      have b: "b = tick (allocs h)" "tick al = Suc (tick (allocs h))" using airy_alloc_Some alloc Some by blast+
      then have ne: "b \<noteq> a" using a(2) by simp
      have fresh: "b \<notin> dom (cells h)" using inv b(1) by (auto simp: trace_inv_def heap_ok_def)
      let ?new = "s\<lparr>attributes := Some b\<rparr>"
      let ?t1 = "t\<lparr>span_buffer := Some (spans_of t @ [?new])\<rparr>"
      let ?h2 = "h\<lparr>allocs := al, cells := (cells h)(b \<mapsto> x)\<rparr>"
      have run: "heapstore_trace_write_span (Some s) (?h, t)
          = Some (SUCCESS, ?h\<lparr>allocs := al, cells := (cells ?h)(b \<mapsto> x)\<rparr>, ?t1)"
        using 4 assms(4) alloc Some by (simp add: heapstore_trace_write_span_def dup)
      have undo: "((cells h)(a \<mapsto> x, b \<mapsto> x))(a := None) = (cells h)(b \<mapsto> x)"
        using a(1) ne by (auto simp: fun_eq_iff)
      then have free: "airy_free (Some a) (?h\<lparr>allocs := al, cells := (cells ?h)(b \<mapsto> x)\<rparr>) = Some ?h2"
        using ne by (simp add: airy_free_def)
      have ptrs: "set (ptrs (spans_of t)) \<subseteq> dom (cells h)" using inv by (simp add: trace_inv_def live_def)
      have spans: "spans_of (t\<lparr>span_buffer := Some ss\<rparr>) = ss" for ss by (simp add: spans_of_def)
      have ok: "trace_inv (?h2, ?t1)"
        using inv 4 fresh ptrs b by (auto simp: trace_inv_def spans heap_ok_def live_def less_SucI)
      have own: "owned (h, t) \<longrightarrow> owned (?h2, ?t1)"
        by (auto simp: owned_def spans)
      have old: "map (span_val ?h2) (spans_of t) = map (span_val h) (spans_of t)"
        by (rule span_vals_eq) (use ptrs fresh in \<open>auto simp: live_def\<close>)
      have "values_of (?h2, ?t1) = values_of (h, t) @ [(s\<lparr>attributes := None\<rparr>, Some x)]"
        using old by (simp add: values_of_def spans span_val_def)
      with run free ok own tick show ?thesis by simp
    qed
  qed (use refused [of "allocs h"] same assms(4) in \<open>auto simp: heapstore_trace_write_span_def\<close>)
qed

lemma write_span_plain:
  assumes inv: "trace_inv (h, t)" and "attributes s = None"
  shows "\<exists>e t1. heapstore_trace_write_span (Some s) (h, t) = Some (e, h, t1) \<and> trace_inv (h, t1)
    \<and> (owned (h, t) \<longrightarrow> owned (h, t1))
    \<and> values_of (h, t1) = values_of (h, t) @ (if e = SUCCESS then [(s, None)] else [])"
proof -
  have spans: "spans_of (t\<lparr>span_buffer := Some ss\<rparr>) = ss" for ss by (simp add: spans_of_def)
  have val: "span_val h s = (s, None)" using assms(2) by (simp add: span_val_def)
  show ?thesis
    using assms by (auto simp: heapstore_trace_write_span_def trace_inv_def owned_def values_of_def spans val live_def)
qed

text \<open>What a saved trace does to the store, from any sound heap.\<close>

lemma trace_save_outcome:
  assumes on: "g_integration_initialized i" and inv: "trace_inv (heap (store i), traces (store i))"
  shows "\<exists>err h t. heapstore_syscall_trace_save E (Some tid) (Some sid) parent (Some name) start_us end_us st events i
      = Some (err, i\<lparr>store := (store i)\<lparr>heap := h, traces := t\<rparr>\<rparr>)
    \<and> trace_inv (h, t) \<and> (owned (heap (store i), traces (store i)) \<longrightarrow> owned (h, t))
    \<and> tick (allocs (heap (store i))) \<le> tick (allocs h)
    \<and> values_of (h, t) = values_of (heap (store i), traces (store i)) @
        (if err \<noteq> AIRY_SUCCESS then []
         else if events = None \<or> events = Some [] then [(syscall_span (commons E) tid sid parent name start_us end_us st None, None)]
         else [((syscall_span (commons E) tid sid parent name start_us end_us st None)\<lparr>attribute_count := 1\<rparr>, events)])"
proof -
  let ?h = "heap (store i)" and ?t = "traces (store i)"
  let ?span = "syscall_span (commons E) tid sid parent name start_us end_us st"
  show ?thesis
  proof (cases "events = None \<or> events = Some []")
    case True
    obtain e t1 where run: "heapstore_trace_write_span (Some (?span None)) (?h, ?t) = Some (e, ?h, t1)"
      and ok: "trace_inv (?h, t1)" "owned (?h, ?t) \<longrightarrow> owned (?h, t1)"
        "values_of (?h, t1) = values_of (?h, ?t) @ (if e = SUCCESS then [(?span None, None)] else [])"
      using write_span_plain [OF inv, of "?span None"] by (auto simp: syscall_span_def)
    have saved: "heapstore_syscall_trace_save E (Some tid) (Some sid) parent (Some name) start_us end_us st events i
        = Some (of_hs_error e, i\<lparr>store := (store i)\<lparr>heap := ?h, traces := t1\<rparr>\<rparr>)"
      using True on run by (auto simp: heapstore_syscall_trace_save_def airy_free_def Let_def)
    show ?thesis
      by (rule exI [of _ "of_hs_error e"], rule exI [of _ ?h], rule exI [of _ t1]) (use saved ok True in simp)
  next
    case False
    then obtain x where x: "events = Some x" "x \<noteq> []" by auto
    obtain r al where alloc: "airy_alloc (allocs ?h) = (r, al)" by fastforce
    have tick: "tick (allocs ?h) \<le> tick al" using airy_alloc_tick [of ?h] alloc by simp
    let ?g = "?h\<lparr>allocs := al\<rparr>"
    have h0: "trace_inv (?g, ?t)" "owned (?h, ?t) \<longrightarrow> owned (?g, ?t)" "values_of (?g, ?t) = values_of (?h, ?t)"
      using trace_inv_tick [OF inv tick] by (simp_all add: owned_def values_of_def span_val_def)
    show ?thesis
    proof (cases r)
      case None
      then have saved: "heapstore_syscall_trace_save E (Some tid) (Some sid) parent (Some name) start_us end_us st events i
          = Some (AIRY_ENOMEM, i\<lparr>store := (store i)\<lparr>heap := ?g, traces := ?t\<rparr>\<rparr>)"
        using x on alloc by (simp add: heapstore_syscall_trace_save_def strdup_text_def Let_def)
      show ?thesis
        by (rule exI [of _ AIRY_ENOMEM], rule exI [of _ ?g], rule exI [of _ ?t]) (use saved h0 tick in simp)
    next
      case (Some a)
      have a: "a = tick (allocs ?h)" "tick al = Suc (tick (allocs ?h))" using airy_alloc_Some alloc Some by blast+
      have dead: "cells ?g a = None" using inv a(1) by (auto simp: trace_inv_def heap_ok_def)
      have below: "a < tick (allocs ?g)" using a by simp
      have attr: "attributes (?span (Some a)) = Some a" by (simp add: syscall_span_def)
      from write_span_dup [OF h0(1) dead below attr, of x] obtain e h1 t1 h2 where
        run: "heapstore_trace_write_span (Some (?span (Some a))) (?g\<lparr>cells := (cells ?g)(a \<mapsto> x)\<rparr>, ?t) = Some (e, h1, t1)"
          "airy_free (Some a) h1 = Some h2"
        and ok: "trace_inv (h2, t1)" "owned (?g, ?t) \<longrightarrow> owned (h2, t1)" "values_of (h2, t1) = values_of (?g, ?t)
            @ (if e = SUCCESS then [((?span (Some a))\<lparr>attributes := None\<rparr>, Some x)] else [])"
          "tick (allocs ?g) \<le> tick (allocs h2)" by blast
      have saved: "heapstore_syscall_trace_save E (Some tid) (Some sid) parent (Some name) start_us end_us st events i
          = Some (of_hs_error e, i\<lparr>store := (store i)\<lparr>heap := h2, traces := t1\<rparr>\<rparr>)"
        using x on run alloc Some by (simp add: heapstore_syscall_trace_save_def strdup_text_def Let_def)
      have cut: "(?span (Some a))\<lparr>attributes := None\<rparr> = (?span None)\<lparr>attribute_count := 1\<rparr>"
        by (simp add: syscall_span_def)
      show ?thesis
        by (rule exI [of _ "of_hs_error e"], rule exI [of _ h2], rule exI [of _ t1])
          (use saved ok h0(2,3) x tick cut in simp)
    qed
  qed
qed

text \<open>
  C22. Saving a trace through the syscall layer leaks nothing: whatever the outcome, the live heap
  strings are exactly the attribute copies of the stored spans. On success one span is appended,
  with the times converted to nanoseconds modulo 2^64 and the events text as its attributes (an
  empty text counts as none); on failure the stored spans are the same.
\<close>

theorem trace_save_owns_exactly:
  assumes on: "g_integration_initialized i" and inv: "trace_inv (heap (store i), traces (store i))"
    and own: "owned (heap (store i), traces (store i))"
  shows "\<exists>err i'. heapstore_syscall_trace_save E (Some tid) (Some sid) parent (Some name) start_us end_us st events i = Some (err, i')
    \<and> trace_inv (heap (store i'), traces (store i')) \<and> owned (heap (store i'), traces (store i'))
    \<and> values_of (heap (store i'), traces (store i')) = values_of (heap (store i), traces (store i)) @
        (if err \<noteq> AIRY_SUCCESS then []
         else if events = None \<or> events = Some [] then [(syscall_span (commons E) tid sid parent name start_us end_us st None, None)]
         else [((syscall_span (commons E) tid sid parent name start_us end_us st None)\<lparr>attribute_count := 1\<rparr>, events)])"
  using trace_save_outcome [OF on inv, of E tid sid parent name start_us end_us st events] own by fastforce

section \<open>Witnesses\<close>

text \<open>An initialised integration layer over an initialised, empty store.\<close>

definition demo_integration :: "demo_cb integration" where
  "demo_integration = \<lparr>g_integration_initialized = True, g_root_path = ''/l'',
     store = (demo_store demo_tree)
       \<lparr>registry_db := \<lparr>agents = empty_domain, skills = empty_domain, sessions = empty_domain, reg_initialized = True\<rparr>,
        traces := (traces (heapstore0 demo_cb0 demo_tree))\<lparr>tr_initialized := True, span_buffer := Some []\<rparr>\<rparr>\<rparr>"

theorem session_save_then_delete_witness:
  "\<exists>i' i''. heapstore_syscall_session_save demo_env (Some ''s1'') (Some ''{}'') 1 2 demo_integration = Some (AIRY_SUCCESS, i')
     \<and> session_lookup (registry_of i') ''s1'' = Some \<lparr>session_id = ''s1'', user_id = ''{}'', session_created_at = 1,
         last_active_at = 2, ttl_seconds = 0, session_status = ''active'', metadata = []\<rparr>
     \<and> heapstore_syscall_session_delete (Some ''s1'') i' = Some (AIRY_SUCCESS, i'')"
proof -
  have A: "strncpy_ok (commons demo_env)" by (simp add: strncpy_ok_def demo_env_def demo_airy_def)
  have inv: "registry_inv (registry_of demo_integration)"
    unfolding registry_of_def demo_integration_def registry_inv_def
    by (auto intro!: exI [of _ "[]"] dom_rep_empty)
  have "map_option fst (heapstore_syscall_session_save demo_env (Some ''s1'') (Some ''{}'') 1 2 demo_integration) = Some AIRY_SUCCESS"
    by code_simp
  then obtain i' where save: "heapstore_syscall_session_save demo_env (Some ''s1'') (Some ''{}'') 1 2 demo_integration
      = Some (AIRY_SUCCESS, i')" by auto
  from session_save_then_delete [OF A inv save] obtain i'' where
    look: "session_lookup (registry_of i') = (session_lookup (registry_of demo_integration))(take 127 ''s1'' \<mapsto>
      \<lparr>session_id = take 127 ''s1'', user_id = (case Some ''{}'' of None \<Rightarrow> [] | Some m \<Rightarrow> take 127 m), session_created_at = 1,
       last_active_at = 2, ttl_seconds = 0, session_status = ''active'', metadata = []\<rparr>)"
    and del: "heapstore_syscall_session_delete (Some (take 127 ''s1'')) i' = Some (AIRY_SUCCESS, i'')" by blast
  then have "session_lookup (registry_of i') ''s1'' = Some \<lparr>session_id = ''s1'', user_id = ''{}'', session_created_at = 1,
      last_active_at = 2, ttl_seconds = 0, session_status = ''active'', metadata = []\<rparr>" by simp
  with save del show ?thesis by auto
qed

theorem trace_save_owns_exactly_witness:
  "\<exists>err i'. heapstore_syscall_trace_save demo_env (Some ''t1'') (Some ''s1'') None (Some ''op'') 5 9 0 (Some ''[1]'') demo_integration
       = Some (err, i') \<and> owned (heap (store i'), traces (store i'))"
proof -
  have on: "g_integration_initialized demo_integration" by (simp add: demo_integration_def)
  have inv: "trace_inv (heap (store demo_integration), traces (store demo_integration))"
    by (simp add: trace_inv_def demo_integration_def demo_store_def heapstore0_def heap_ok_def live_def spans_of_def)
  have own: "owned (heap (store demo_integration), traces (store demo_integration))"
    by (simp add: owned_def demo_integration_def demo_store_def heapstore0_def spans_of_def)
  from trace_save_owns_exactly [OF on inv own] show ?thesis by blast
qed

end
