(* ===== verification/HS_System.thy ===== *)
theory HS_System
  imports HS_Integration
begin

text \<open>
  The program as a whole: a client calls the entry points of the store and of its integration layer
  in any order, from process start on. \<open>call_step\<close> is one call; its value None is undefined
  behaviour or a call that does not return. The reachable states satisfy one invariant, \<open>system_ok\<close>,
  that joins those of the subsystems, and in it no call but the known exceptions is undefined.
\<close>

section \<open>Calls\<close>

text \<open>
  The calls of one client. Not among them are the calls that start or stop a single subsystem
  behind the back of the store, heapstore_log_rotate (a failed one leaves the log without a file),
  and the trace calls that take or return spans of the caller.
\<close>

datatype client_call =
    Integration_Init "string option"
  | Integration_Shutdown
  | Store_Init "config option"
  | Store_Shutdown
  | Reload_Config "config option"
  | Flush
  | Health_Check
  | Log_Fast "string option" log_level "string option"
  | Log_Slow "string option" log_level "string option" "string option" u32
  | Cleanup bool "u64 option"
  | Full_Path int bool size_t
  | Get_Stats bool
  | Reset_Circuit
  | Session_Save "string option" "string option" u64 u64
  | Session_Delete "string option"
  | Trace_Save "string option" "string option" "string option" "string option" int int int "string option"
  | Trace_Export bool
  | Logging_Write string "string option" int "string option" "string option" u64
  | Add_Agent "agent_record option"
  | Update_Agent "agent_record option"
  | Delete_Agent "string option"
  | Add_Skill "skill_record option"
  | Delete_Skill "string option"
  | Add_Session "session_record option"
  | Update_Session "session_record option"
  | Delete_Session "string option"
  | Record_Pool "memory_pool option"
  | Record_Allocation "memory_allocation option"
  | Pool_Usage "string option" size_t u32
  | Free_Allocation int "string option"

definition store_call :: "('c heapstore \<Rightarrow> 'c heapstore option) \<Rightarrow> 'c integration \<Rightarrow> 'c integration option" where
  "store_call f i = map_option (\<lambda>s. i\<lparr>store := s\<rparr>) (f (store i))"

definition registry_call ::
  "(allocator \<times> registry \<Rightarrow> (hs_error \<times> allocator \<times> registry) option) \<Rightarrow> 'c heapstore \<Rightarrow> 'c heapstore option" where
  "registry_call f s = map_option (\<lambda>(_, al, g). s\<lparr>heap := (heap s)\<lparr>allocs := al\<rparr>, registry_db := g\<rparr>)
     (f (allocs (heap s), registry_db s))"

definition registry_edit ::
  "(registry \<Rightarrow> (hs_error \<times> registry) option) \<Rightarrow> 'c heapstore \<Rightarrow> 'c heapstore option" where
  "registry_edit f = registry_call (\<lambda>(al, g). map_option (\<lambda>(e, g'). (e, al, g')) (f g))"

definition memory_edit :: "(memory \<Rightarrow> hs_error \<times> memory) \<Rightarrow> 'c heapstore \<Rightarrow> 'c heapstore option" where
  "memory_edit f s = Some (s\<lparr>memory_tables := snd (f (memory_tables s))\<rparr>)"

primrec call_step :: "'c env \<Rightarrow> client_call \<Rightarrow> 'c integration \<Rightarrow> 'c integration option" where
  "call_step E (Integration_Init root) = (\<lambda>i. map_option snd (heapstore_integration_init E root i))"
| "call_step E Integration_Shutdown = heapstore_integration_shutdown E"
| "call_step E (Store_Init cfg) = store_call (\<lambda>s. map_option snd (heapstore_init E cfg s))"
| "call_step E Store_Shutdown = store_call (heapstore_shutdown E)"
| "call_step E (Reload_Config cfg) = store_call (\<lambda>s. Some (snd (heapstore_reload_config E cfg s)))"
| "call_step E Flush = store_call (\<lambda>s. Some (snd (heapstore_flush s)))"
| "call_step E Health_Check = store_call (\<lambda>s. map_option (snd \<circ> snd) (heapstore_health_check E s))"
| "call_step E (Log_Fast service level msg) = store_call (\<lambda>s. map_option snd (heapstore_log_write_fast E service level msg s))"
| "call_step E (Log_Slow service level msg tid ms) =
     store_call (\<lambda>s. map_option snd (heapstore_log_write_slow E service level msg tid ms s))"
| "call_step E (Cleanup dry freed) = store_call (\<lambda>s. Some (snd (snd (heapstore_cleanup E dry freed s))))"
| "call_step E (Full_Path t buffer n) = store_call (\<lambda>s. Some (snd (snd (heapstore_get_full_path E t buffer n s))))"
| "call_step E (Get_Stats out) = store_call (\<lambda>s. map_option (snd \<circ> snd) (heapstore_get_stats E out s))"
| "call_step E Reset_Circuit = store_call (\<lambda>s. Some (s\<lparr>circuit_state :=
     snd (heapstore_reset_circuit (breaker E) (heapstore_ready s) (circuit_state s))\<rparr>))"
| "call_step E (Session_Save sid meta created active) =
     (\<lambda>i. map_option snd (heapstore_syscall_session_save E sid meta created active i))"
| "call_step E (Session_Delete sid) = (\<lambda>i. map_option snd (heapstore_syscall_session_delete sid i))"
| "call_step E (Trace_Save tid sid parent name t0 t1 st events) =
     (\<lambda>i. map_option snd (heapstore_syscall_trace_save E tid sid parent name t0 t1 st events i))"
| "call_step E (Trace_Export out) = (\<lambda>i. map_option (snd \<circ> snd) (heapstore_syscall_trace_export out i))"
| "call_step E (Logging_Write src module level tid msg ts) =
     (\<lambda>i. Some (snd (heapstore_logging_write E src module level tid msg ts i)))"
| "call_step E (Add_Agent r) = store_call (registry_call (heapstore_registry_add_agent r))"
| "call_step E (Update_Agent r) = store_call (registry_edit (heapstore_registry_update_agent r))"
| "call_step E (Delete_Agent k) = store_call (registry_edit (heapstore_registry_delete_agent k))"
| "call_step E (Add_Skill r) = store_call (registry_call (heapstore_registry_add_skill r))"
| "call_step E (Delete_Skill k) = store_call (registry_edit (heapstore_registry_delete_skill k))"
| "call_step E (Add_Session r) = store_call (registry_call (heapstore_registry_add_session r))"
| "call_step E (Update_Session r) = store_call (registry_edit (heapstore_registry_update_session r))"
| "call_step E (Delete_Session k) = store_call (registry_edit (heapstore_registry_delete_session k))"
| "call_step E (Record_Pool p) = store_call (memory_edit (heapstore_memory_record_pool p))"
| "call_step E (Record_Allocation a) = store_call (memory_edit (heapstore_mem_record a))"
| "call_step E (Pool_Usage k used free) = store_call (memory_edit (heapstore_memory_update_pool_usage k used free))"
| "call_step E (Free_Allocation now k) = store_call (memory_edit (heapstore_memory_free_allocation (commons E) now k))"

text \<open>
  The process starts with zeroed statics, in any world, any state of the breaker library, and with
  an allocator whose calls fail in any pattern \<open>f\<close>.
\<close>

definition at_start :: "'c \<Rightarrow> (nat \<Rightarrow> bool) \<Rightarrow> os \<Rightarrow> 'c integration" where
  "at_start c f w = \<lparr>g_integration_initialized = False, g_root_path = [],
     store = (heapstore0 c w)\<lparr>heap := \<lparr>allocs = \<lparr>tick = 0, fails = f\<rparr>, cells = Map.empty\<rparr>\<rparr>\<rparr>"

text \<open>Between two calls other processes, and time, may change the world in any way.\<close>

inductive reachable :: "'c env \<Rightarrow> 'c \<Rightarrow> 'c integration \<Rightarrow> bool" for E :: "'c env" and c :: 'c where
  start: "reachable E c (at_start c f w)"
| call: "reachable E c i \<Longrightarrow> call_step E k i = Some i' \<Longrightarrow> reachable E c i'"
| outside: "reachable E c i \<Longrightarrow> reachable E c (i\<lparr>store := (store i)\<lparr>world := w\<rparr>\<rparr>)"


section \<open>The invariant\<close>

text \<open>
  A registry without nodes. A store that is not initialised has such a registry, no spans, and a log
  that is down; one that was just initialised differs in the log.
\<close>

definition registry_empty :: "registry \<Rightarrow> bool" where
  "registry_empty g \<longleftrightarrow> dheap (agents g) = Map.empty \<and> dheap (skills g) = Map.empty \<and> dheap (sessions g) = Map.empty
     \<and> dhead (agents g) = None \<and> dhead (skills g) = None \<and> dhead (sessions g) = None
     \<and> dcount (agents g) = 0 \<and> dcount (skills g) = 0 \<and> dcount (sessions g) = 0"

definition idle :: "bool \<Rightarrow> 'c heapstore \<Rightarrow> bool" where
  "idle l s \<longleftrightarrow> registry_empty (registry_db s) \<and> spans_of (traces s) = [] \<and> log_initialized (logs s) = l"

definition spans_fit :: "trace \<Rightarrow> bool" where
  "spans_fit t \<longleftrightarrow> (\<forall>x\<in>set (spans_of t). fields_fit x)"

definition all_running :: "bool \<Rightarrow> bool \<times> bool \<times> bool \<times> bool" where
  "all_running b = (b, b, b, b)"

definition system_ok :: "('c \<Rightarrow> nat set) \<Rightarrow> ('c \<Rightarrow> nat set) \<Rightarrow> ('c \<Rightarrow> bool) \<Rightarrow> 'c heapstore \<Rightarrow> bool" where
  "system_ok bl ml fine s \<longleftrightarrow> core_inv s \<and> registry_inv (allocs (heap s), registry_db s) \<and> spans_fit (traces s)
     \<and> circuit_inv bl ml fine (circuit_state s) \<and> running s = all_running (heapstore_ready s)
     \<and> log_initialized (logs s) = heapstore_ready s \<and> (\<not> heapstore_ready s \<longrightarrow> idle False s)"

lemma dom_rep_no_nodes:
  "dheap d = Map.empty \<Longrightarrow> dhead d = None \<Longrightarrow> dcount d = 0 \<Longrightarrow> dom_rep key al d []"
  by (simp add: dom_rep_def dom_shape_def)

lemma registry_empty_inv: "registry_empty g \<Longrightarrow> registry_inv (al, g)"
  unfolding registry_inv_def registry_empty_def by (auto intro: dom_rep_no_nodes)

lemma registry_inv_later: "registry_inv (al, g) \<Longrightarrow> tick al \<le> tick al' \<Longrightarrow> registry_inv (al', g)"
  unfolding registry_inv_def by (auto intro: dom_rep_later)

lemma registry_empty_init: "registry_empty g \<Longrightarrow> registry_empty (snd (heapstore_registry_init g))"
  by (simp add: registry_empty_def heapstore_registry_init_def clear_domain_def)

lemma registry_empty_shutdown:
  assumes "registry_inv (al, g)" and "heapstore_registry_shutdown g = Some g'"
  shows "registry_empty g'"
  using shutdown_frees_reinit_leaks [OF assms(1)] assms(2)
  by (auto simp: registry_empty_def heapstore_registry_shutdown_def split: option.splits)

lemma spans_none: "trace_inv (h, t) \<Longrightarrow> \<not> heapstore_trace_is_healthy t \<Longrightarrow> spans_of t = []"
  by (auto simp: trace_inv_def heapstore_trace_is_healthy_def spans_of_def)

section \<open>Initialisation and shutdown\<close>

text \<open>From an idle l store the initialisation leaves an idle l store, on every path.\<close>

lemma idle_frames [core_ops]:
  "idle l (s\<lparr>world := w\<rparr>) = idle l s" "idle l (s\<lparr>heap := h\<rparr>) = idle l s" "idle l (s\<lparr>s_initialized := b\<rparr>) = idle l s"
  "idle l (s\<lparr>s_root_path := p\<rparr>) = idle l s" "idle l (s\<lparr>s_config := c\<rparr>) = idle l s" "idle l (s\<lparr>memory_tables := m\<rparr>) = idle l s"
  "idle l (s\<lparr>circuit_state := cs\<rparr>) = idle l s" "idle l (s\<lparr>metrics_of := x\<rparr>) = idle l s"
  by (simp_all add: idle_def)

lemma idle_root: "heapstore_get_root E s = (root, s1) \<Longrightarrow> idle l s1 = idle l s"
  by (auto simp: heapstore_get_root_def idle_def Let_def split: if_splits)

lemma idle_registry_up: "registry_up s = (e, s') \<Longrightarrow> idle l s \<Longrightarrow> idle l s'"
  using registry_empty_init [of "registry_db s"] by (auto simp: registry_up_def idle_def split: prod.splits)

lemma trace_init_spans:
  "heapstore_trace_init A root (w, h, t) = (e, w', h', t') \<Longrightarrow> spans_of t = [] \<Longrightarrow> spans_of t' = []"
  by (auto simp: heapstore_trace_init_def spans_of_def Let_def split: if_splits prod.splits option.splits)

lemma idle_trace_up:
  assumes "trace_up E s = (e, s')" and "idle l s"
  shows "idle l s'"
proof -
  obtain root s1 where root: "heapstore_get_root E s = (root, s1)" by fastforce
  obtain e' w h t where run: "heapstore_trace_init (commons E) root (world s1, heap s1, traces s1) = (e', w, h, t)"
    by (metis surj_pair)
  have s': "s' = s1\<lparr>world := w, heap := h, traces := t\<rparr>" using assms(1) root run by (simp add: trace_up_def)
  have "idle l s1" using assms(2) idle_root [OF root] by simp
  then show ?thesis using trace_init_spans [OF run] by (simp add: s' idle_def)
qed

lemma idle_memory_up: "memory_up E s = (e, s') \<Longrightarrow> idle l s \<Longrightarrow> idle l s'"
  by (auto simp: memory_up_def core_ops idle_root split: prod.splits)

lemma idle_log_up:
  assumes "log_up E s = (e, s')" and "idle False s"
  shows "idle (e = SUCCESS) s'"
proof -
  have "log_initialized g' = (e = SUCCESS)"
    if "heapstore_log_init A (w, g) = (e, w', g')" "\<not> log_initialized g" for A w g e w' g'
    using that by (auto simp: heapstore_log_init_def update_current_date_def Let_def
        split: if_splits prod.splits option.splits)
  then show ?thesis using assms by (auto simp: log_up_def idle_def split: prod.splits)
qed

lemma idle_registry_down: "registry_down s = Some s' \<Longrightarrow> idle l s \<Longrightarrow> idle l s'"
  using registry_empty_shutdown [OF registry_empty_inv] by (auto simp: registry_down_def idle_def)

lemma idle_trace_down: "trace_down s = Some s' \<Longrightarrow> idle l s \<Longrightarrow> idle l s'"
  by (auto simp: trace_down_def idle_def heapstore_trace_shutdown_def spans_of_def Let_def split: if_splits option.splits)

lemma idle_memory_down: "memory_down s = Some s' \<Longrightarrow> idle l s \<Longrightarrow> idle l s'"
  by (auto simp: memory_down_def core_ops)

lemmas idle_downs = idle_registry_down idle_trace_down idle_memory_down

lemma run_all_keeps:
  "run_all fs s = Some s' \<Longrightarrow> \<forall>f\<in>set fs. \<forall>s s'. f s = Some s' \<longrightarrow> Q s \<longrightarrow> Q s' \<Longrightarrow> Q s \<Longrightarrow> Q s'"
  by (induction fs arbitrary: s) (auto split: option.splits)

lemma idle_give_up:
  "give_up fs e s = Some (e', s') \<Longrightarrow> set fs \<subseteq> {registry_down, trace_down, memory_down} \<Longrightarrow> idle l s \<Longrightarrow> idle l s'"
proof -
  assume fs: "set fs \<subseteq> {registry_down, trace_down, memory_down}" and "idle l s" and "give_up fs e s = Some (e', s')"
  then obtain s1 where "run_all fs s = Some s1" "s' = s1\<lparr>s_initialized := False\<rparr>" by (auto simp: give_up_def)
  moreover have "idle l u'" if "f \<in> set fs" "f u = Some u'" "idle l u" for f u u'
    using that fs idle_downs by blast
  ultimately show "idle l s'" using run_all_keeps [of fs s s1 "idle l"] \<open>idle l s\<close> by (simp add: core_ops)
qed

lemma idle_init_migrate: "init_migrate E s = Some (e, s') \<Longrightarrow> idle l s \<Longrightarrow> idle l s'"
  by (auto simp: init_migrate_def core_ops idle_root Let_def split: prod.splits if_splits option.splits
      dest!: idle_give_up)

lemma idle_init_subsystems:
  assumes "init_subsystems E s = Some (e, s')" and "idle False s"
  shows "idle (e = SUCCESS) s'"
proof -
  obtain e1 s1 where s1: "registry_up s = (e1, s1)" by fastforce
  obtain e2 s2 where s2: "trace_up E s1 = (e2, s2)" by fastforce
  obtain e3 s3 where s3: "memory_up E s2 = (e3, s3)" by fastforce
  obtain e4 s4 where s4: "log_up E s3 = (e4, s4)" by fastforce
  have idle: "idle False s1" "idle False s2" "idle False s3" "idle (e4 = SUCCESS) s4"
    using idle_registry_up [OF s1 assms(2)] idle_trace_up [OF s2] idle_memory_up [OF s3] idle_log_up [OF s4] by simp_all
  have gave_up: "idle False s' \<and> e \<noteq> SUCCESS"
    if "give_up fs d u = Some (e, s')" "set fs \<subseteq> {registry_down, trace_down, memory_down}" "idle False u" "d \<noteq> SUCCESS"
    for fs d u using idle_give_up [OF that(1-3)] that(1,4) by (auto simp: give_up_def)
  consider "e1 \<noteq> SUCCESS" | "e1 = SUCCESS" "e2 \<noteq> SUCCESS" | "e1 = SUCCESS" "e2 = SUCCESS" "e3 \<noteq> SUCCESS"
    | "e1 = SUCCESS" "e2 = SUCCESS" "e3 = SUCCESS" "e4 \<noteq> SUCCESS"
    | "e1 = SUCCESS" "e2 = SUCCESS" "e3 = SUCCESS" "e4 = SUCCESS" by blast
  then show ?thesis
  proof cases
    case 1
    then show ?thesis using assms(1) s1 idle(1) gave_up [of "[]" e1 s1] by (simp add: init_subsystems_def)
  next
    case 2
    then show ?thesis using assms(1) s1 s2 idle(2) gave_up [of "[registry_down]" e2 s2] by (simp add: init_subsystems_def)
  next
    case 3
    then show ?thesis using assms(1) s1 s2 s3 idle(3) gave_up [of "[trace_down, registry_down]" e3 s3]
      by (simp add: init_subsystems_def)
  next
    case 4
    then show ?thesis using assms(1) s1 s2 s3 s4 idle(4) gave_up [of "[memory_down, trace_down, registry_down]" e4 s4]
      by (simp add: init_subsystems_def)
  next
    case 5
    then show ?thesis using assms(1) s1 s2 s3 s4 idle(4) by (auto simp: init_subsystems_def)
  qed
qed

lemma idle_init:
  assumes "heapstore_init E cfg s = Some (e, s')" and "idle False s" and off: "\<not> s_initialized s"
  shows "idle (e = SUCCESS) s'"
proof -
  let ?s1 = "apply_user_config E cfg (set_default_config E s)"
  let ?s2 = "?s1\<lparr>s_root_path := strncpy_term (commons E) (the (root_path (s_config ?s1))) 512\<rparr>"
  have "idle False ?s1"
    using assms(2) by (simp add: apply_user_config_def set_default_config_def apply_to_circuit_def core_ops split: option.splits)
  then have s2: "idle False ?s2" by (simp only: idle_frames)
  obtain d s3 where dirs: "create_directory_structure E ?s2 = (d, s3)" by fastforce
  then have s3: "idle False s3" using s2 by (auto simp: create_directory_structure_def core_ops split: prod.splits)
  let ?s4 = "(initialize_atomic_vars E s3)\<lparr>s_initialized := True\<rparr>"
  have s4: "idle False ?s4" using s3 by (simp add: initialize_atomic_vars_def core_ops)
  show ?thesis
  proof (cases "d = SUCCESS")
    case True
    then obtain me s5 where mig: "init_migrate E ?s4 = Some (me, s5)"
      and rest: "(if me \<noteq> SUCCESS then Some (me, s5) else init_subsystems E s5) = Some (e, s')"
      using assms(1) off dirs by (auto simp: heapstore_init_def Let_def split: option.splits)
    have "idle False s5" by (rule idle_init_migrate [OF mig s4])
    with rest show ?thesis by (cases "me = SUCCESS") (auto intro: idle_init_subsystems)
  next
    case fail: False
    then show ?thesis using assms(1) off dirs s3 by (auto simp: heapstore_init_def Let_def)
  qed
qed

text \<open>The breaker calls of the initialisation are calls of the adapter.\<close>

lemma circuit_calls_inv:
  assumes "handles_ok L bl ml fine" and "circuit_inv bl ml fine cs"
  shows "circuit_inv bl ml fine (heapstore_core_circuit_init L ok cs)"
    and "circuit_inv bl ml fine (heapstore_circ_stop L cs)"
    and "circuit_inv bl ml fine (heapstore_core_circuit_record_success L cs)"
    and "circuit_inv bl ml fine (snd (heapstore_circuit_open L cs))"
    and "circuit_inv bl ml fine (heapstore_core_circuit_apply_config L t u cs)"
    and "circuit_inv bl ml fine (snd (heapstore_reset_circuit L ready cs))"
  using circuit_step_inv [OF assms(1), of "(cs, m)"] assms(2)
  by (metis circuit_step.simps fst_conv)+

lemma circuit_inv_user_config:
  assumes "handles_ok (breaker E) bl ml fine" and "circuit_inv bl ml fine (circuit_state s)"
  shows "circuit_inv bl ml fine (circuit_state (apply_user_config E cfg (set_default_config E s)))"
  using assms
  by (auto simp: apply_user_config_def set_default_config_def apply_to_circuit_def split: option.splits
      intro: circuit_calls_inv(5))

lemma init_system_ok:
  assumes L: "handles_ok (breaker E) bl ml fine" and ok: "system_ok bl ml fine s"
  shows "\<exists>e s'. heapstore_init E cfg s = Some (e, s') \<and> system_ok bl ml fine s'"
proof (cases "heapstore_ready s")
  case True
  with ok show ?thesis by (simp add: heapstore_init_def heapstore_ready_def)
next
  case False
  have s: "core_inv s" "running s = stopped" "idle False s" "circuit_inv bl ml fine (circuit_state s)" "\<not> s_initialized s"
    using ok False by (simp_all add: system_ok_def all_running_def heapstore_ready_def)
  have armed: "circuit_inv bl ml fine (armed E cfg s)"
    unfolding armed_def by (intro circuit_calls_inv circuit_inv_user_config L s)
  obtain e s' where run: "heapstore_init E cfg s = Some (e, s')" "core_inv s'"
      "e = SUCCESS \<longrightarrow> s_initialized s' \<and> running s' = (True, True, True, True)"
      "e \<noteq> SUCCESS \<longrightarrow> \<not> s_initialized s' \<and> running s' = stopped"
      "circuit_inv bl ml fine (circuit_state s')"
    using core_init_outcome [OF s(1), of E cfg] s armed circuit_inv_user_config [OF L s(4), of cfg] by metis
  have "idle (e = SUCCESS) s'" by (rule idle_init [OF run(1) s(3,5)])
  with run show ?thesis
    by (cases "e = SUCCESS") (auto simp: system_ok_def all_running_def heapstore_ready_def idle_def spans_fit_def
        intro: registry_empty_inv)
qed

lemma system_ok_frames [core_ops]:
  "system_ok bl ml fine (s\<lparr>world := w\<rparr>) = system_ok bl ml fine s"
  "system_ok bl ml fine (s\<lparr>s_config := c\<rparr>) = system_ok bl ml fine s"
  "system_ok bl ml fine (s\<lparr>s_root_path := p\<rparr>) = system_ok bl ml fine s"
  "system_ok bl ml fine (s\<lparr>metrics_of := m\<rparr>) = system_ok bl ml fine s"
  by (simp_all add: system_ok_def core_state idle_def heapstore_ready_def)

lemma system_ok_circuit:
  "system_ok bl ml fine s \<Longrightarrow> circuit_inv bl ml fine cs \<Longrightarrow> system_ok bl ml fine (s\<lparr>circuit_state := cs\<rparr>)"
  by (simp add: system_ok_def core_state idle_def heapstore_ready_def)

lemma system_ok_log:
  "system_ok bl ml fine s \<Longrightarrow> log_inv g \<Longrightarrow> heapstore_log_is_healthy g = heapstore_log_is_healthy (logs s) \<Longrightarrow>
   log_initialized g = log_initialized (logs s) \<Longrightarrow> system_ok bl ml fine (s\<lparr>logs := g\<rparr>)"
  by (simp add: system_ok_def core_state idle_def heapstore_ready_def)

lemma system_ok_memory:
  "system_ok bl ml fine s \<Longrightarrow> memory_inv m \<Longrightarrow> mem_initialized m = mem_initialized (memory_tables s) \<Longrightarrow>
   system_ok bl ml fine (s\<lparr>memory_tables := m\<rparr>)"
  by (simp add: system_ok_def core_state idle_def heapstore_ready_def heapstore_memory_is_healthy_def)

lemma system_ok_registry:
  assumes ok: "system_ok bl ml fine s" and inv: "registry_inv (al, g)" and later: "tick (allocs (heap s)) \<le> tick al"
    and "reg_initialized g = reg_initialized (registry_db s)"
    and off: "\<not> reg_initialized g \<Longrightarrow> registry_empty (registry_db s) \<Longrightarrow> registry_empty g"
  shows "system_ok bl ml fine (s\<lparr>heap := (heap s)\<lparr>allocs := al\<rparr>, registry_db := g\<rparr>)"
proof -
  have "trace_inv ((heap s)\<lparr>allocs := al\<rparr>, traces s)"
    using trace_inv_tick [OF _ later] ok by (simp add: system_ok_def core_inv_def)
  moreover have "\<not> heapstore_ready s \<Longrightarrow> registry_empty g"
    using off ok assms(4) by (auto simp: system_ok_def idle_def running_def all_running_def heapstore_registry_is_healthy_def)
  ultimately show ?thesis
    using ok inv assms(4) registry_inv_safe [OF inv]
    by (auto simp: system_ok_def core_state idle_def heapstore_ready_def heapstore_registry_is_healthy_def)
qed

lemma system_ok_traces:
  assumes ok: "system_ok bl ml fine s" and inv: "trace_inv (h, t)" and later: "tick (allocs (heap s)) \<le> tick (allocs h)"
    and "tr_initialized t = tr_initialized (traces s)" and "spans_fit t"
  shows "system_ok bl ml fine (s\<lparr>heap := h, traces := t\<rparr>)"
proof -
  have healthy: "heapstore_trace_is_healthy t = heapstore_trace_is_healthy (traces s)"
    using inv ok assms(4) by (auto simp: trace_inv_def heapstore_trace_is_healthy_def system_ok_def core_inv_def)
  have "\<not> heapstore_ready s \<Longrightarrow> spans_of t = []"
    using spans_none [OF inv] healthy ok by (simp add: system_ok_def running_def all_running_def)
  moreover have "registry_inv (allocs h, registry_db s)"
    using registry_inv_later [OF _ later] ok by (simp add: system_ok_def)
  ultimately show ?thesis
    using ok inv healthy assms(5) by (auto simp: system_ok_def core_state idle_def heapstore_ready_def)
qed

section \<open>The calls on one subsystem\<close>

lemma shutdown_system_ok:
  assumes L: "handles_ok (breaker E) bl ml fine" and ok: "system_ok bl ml fine s"
  shows "\<exists>s'. heapstore_shutdown E s = Some s' \<and> system_ok bl ml fine s'"
proof (cases "s_initialized s")
  case True
  obtain s' where run: "heapstore_shutdown E s = Some s'" "core_inv s'" "running s' = stopped" "\<not> s_initialized s'"
    "circuit_state s' = heapstore_circ_stop (breaker E) (circuit_state s)"
    using core_shutdown_outcome [OF _ True, of E] ok by (auto simp: system_ok_def)
  have "heapstore_registry_shutdown (registry_db s) = Some (registry_db s')" "\<not> log_initialized (logs s')"
    using run(1) True
    by (auto simp: heapstore_shutdown_def circuit_down_def log_down_def trace_down_def memory_down_def registry_down_def
        heapstore_log_shutdown_def split: option.splits if_splits)
  then have "registry_empty (registry_db s')" "\<not> log_initialized (logs s')"
    using registry_empty_shutdown ok by (auto simp: system_ok_def)
  moreover have "spans_of (traces s') = []"
    using spans_none [of "heap s'" "traces s'"] run(2,3) by (simp add: core_inv_def running_def)
  moreover have "circuit_inv bl ml fine (circuit_state s')"
    using circuit_calls_inv(2) [OF L] ok by (simp add: run(5) system_ok_def)
  ultimately show ?thesis
    using run by (simp add: system_ok_def idle_def all_running_def heapstore_ready_def spans_fit_def registry_empty_inv)
qed (use ok in \<open>simp add: heapstore_shutdown_def\<close>)

lemma main_file_kept:
  "get_main_log_file A (w, g) = (r, w', g') \<Longrightarrow> log_initialized g' = log_initialized g
     \<and> (main_log_file g \<noteq> None \<longrightarrow> main_log_file g' \<noteq> None)"
  by (auto simp: get_main_log_file_def update_current_date_def Let_def split: if_splits option.splits prod.splits)

lemma service_file_kept:
  "get_service_log_file A service (w, g) = (r, w', g') \<Longrightarrow> log_initialized g' = log_initialized g
     \<and> (main_log_file g \<noteq> None \<longrightarrow> main_log_file g' \<noteq> None)"
  by (auto simp: get_service_log_file_def Let_def dest: main_file_kept split: if_splits option.splits prod.splits)

lemma log_write_keeps:
  assumes A: "strncpy_ok A" and inv: "log_inv g" and up: "log_initialized g \<longrightarrow> main_log_file g \<noteq> None"
    and run: "heapstore_log_write A level service tid src n msg (w, g) = (w', g')"
  shows "log_inv g' \<and> heapstore_log_is_healthy g' = heapstore_log_is_healthy g \<and> log_initialized g' = log_initialized g"
proof (cases "log_initialized g \<and> \<not> s_log_level g < level")
  case False
  then show ?thesis using run inv by (auto simp: heapstore_log_write_def split: if_splits)
next
  case True
  let ?g = "update_current_date w g"
  have g: "log_inv ?g" "log_initialized ?g" "main_log_file ?g \<noteq> None"
    using inv True up by (simp_all add: update_current_date_def log_inv_def)
  obtain r w1 g1 where target: "(case service of Some sv \<Rightarrow> get_service_log_file A (Some sv) (w, ?g)
      | None \<Rightarrow> get_main_log_file A (w, ?g)) = (r, w1, g1)" by (metis surj_pair)
  have g1: "log_inv g1 \<and> log_initialized g1 \<and> main_log_file g1 \<noteq> None"
    using target log_inv_service [OF A g(1,2), of service w] log_inv_main [OF g(1), of A w] g(2,3)
      main_file_kept [of A w ?g r w1 g1] service_file_kept [of A service w ?g r w1 g1]
    by (cases service) auto
  have "g' = g1" using run True target by (auto simp: heapstore_log_write_def Let_def split: option.splits)
  then show ?thesis using g1 True up by (auto simp: heapstore_log_is_healthy_def)
qed

lemma log_write_system_ok:
  assumes "strncpy_ok (commons E)" and ok: "system_ok bl ml fine s"
    and "heapstore_log_write (commons E) level service tid src n msg (world s, logs s) = (w, g)"
  shows "system_ok bl ml fine (s\<lparr>world := w, logs := g\<rparr>)"
proof -
  have "log_inv (logs s)" "log_initialized (logs s) \<longrightarrow> main_log_file (logs s) \<noteq> None"
    using ok by (auto simp: system_ok_def core_inv_def running_def all_running_def heapstore_log_is_healthy_def)
  from log_write_keeps [OF assms(1) this assms(3)] show ?thesis
    using system_ok_log [of bl ml fine "s\<lparr>world := w\<rparr>" g] ok by (simp add: core_ops)
qed

text \<open>A message whose text printf would not take for a format with conversions.\<close>

definition plain_message :: "string option \<Rightarrow> bool" where
  "plain_message msg \<longleftrightarrow> (case msg of None \<Rightarrow> True | Some m \<Rightarrow> render_format m \<noteq> None)"

lemma write_dispatch_system_ok:
  assumes A: "strncpy_ok (commons E)" and L: "handles_ok (breaker E) bl ml fine" and ok: "system_ok bl ml fine s"
  shows "(\<forall>e s'. write_dispatch E service level msg tid slow s = Some (e, s') \<longrightarrow> system_ok bl ml fine s')
    \<and> (plain_message msg \<longrightarrow> write_dispatch E service level msg tid slow s \<noteq> None)"
proof (cases "heapstore_ready s \<and> msg \<noteq> None")
  case False
  with ok show ?thesis by (auto simp: write_dispatch_def split: option.splits)
next
  case True
  then obtain fmt where msg: "msg = Some fmt" by auto
  obtain blocked cs where open_it: "heapstore_circuit_open (breaker E) (circuit_state s) = (blocked, cs)" by (metis surj_pair)
  have cs: "circuit_inv bl ml fine cs"
    using circuit_calls_inv(4) [OF L, of "circuit_state s"] ok open_it by (simp add: system_ok_def)
  let ?s1 = "s\<lparr>circuit_state := cs\<rparr>"
  have s1: "system_ok bl ml fine ?s1" by (rule system_ok_circuit [OF ok cs])
  let ?res = "log_write_format (commons E) level service tid fmt (world ?s1, logs ?s1)"
  have written: "system_ok bl ml fine (?s1\<lparr>world := w, logs := g\<rparr>)" if "?res = Some (w, g)" for w g
    using that log_write_system_ok [OF A s1]
    by (auto simp: log_write_format_def split: option.splits if_splits)
  let ?post = "\<lambda>w g. ?s1\<lparr>world := w, logs := g,
      circuit_state := heapstore_core_circuit_record_success (breaker E) (circuit_state ?s1),
      metrics_of := heapstore_core_metrics_update 0 slow False (metrics_of ?s1)\<rparr>"
  have run: "write_dispatch E service level msg tid slow s = (if blocked then Some (ERR_CIRCUIT_OPEN, ?s1)
      else case ?res of None \<Rightarrow> None | Some (w, g) \<Rightarrow> Some (SUCCESS, ?post w g))"
    using True by (auto simp: write_dispatch_def msg open_it heapstore_ready_def Let_def)
  have post: "system_ok bl ml fine (?post w g)" if "?res = Some (w, g)" for w g
  proof -
    have "circuit_inv bl ml fine (heapstore_core_circuit_record_success (breaker E) (circuit_state ?s1))"
      using circuit_calls_inv(3) [OF L cs] by simp
    from system_ok_circuit [OF written [OF that] this] show ?thesis by (simp add: core_ops)
  qed
  have "?res \<noteq> None" if "plain_message msg"
    using that by (auto simp: plain_message_def msg log_write_format_def)
  then show ?thesis unfolding run using s1 post by (auto split: option.splits)
qed

lemma root_system_ok: "heapstore_get_root E s = (root, s1) \<Longrightarrow> system_ok bl ml fine s1 = system_ok bl ml fine s"
  by (auto simp: heapstore_get_root_def core_ops Let_def split: if_splits)

lemma reload_system_ok:
  assumes "handles_ok (breaker E) bl ml fine" and "system_ok bl ml fine s"
  shows "system_ok bl ml fine (snd (heapstore_reload_config E cfg s))"
proof -
  have "system_ok bl ml fine (apply_to_circuit E (s\<lparr>s_config := c\<rparr>))" for c
    unfolding apply_to_circuit_def
  proof (rule system_ok_circuit)
    show "system_ok bl ml fine (s\<lparr>s_config := c\<rparr>)" using assms(2) by (simp add: core_ops)
    have "circuit_inv bl ml fine (circuit_state s)" using assms(2) by (simp add: system_ok_def)
    from circuit_calls_inv(5) [OF assms(1) this]
    show "circuit_inv bl ml fine (heapstore_core_circuit_apply_config (breaker E)
        (circuit_breaker_threshold (s_config (s\<lparr>s_config := c\<rparr>)))
        (circuit_breaker_timeout_sec (s_config (s\<lparr>s_config := c\<rparr>))) (circuit_state (s\<lparr>s_config := c\<rparr>)))"
      by simp
  qed
  then show ?thesis using assms(2) by (auto simp: heapstore_reload_config_def apply_config_update_def split: option.splits)
qed

lemma flush_system_ok:
  assumes ok: "system_ok bl ml fine s"
  shows "system_ok bl ml fine (snd (heapstore_flush s))"
proof -
  obtain e w t where run: "heapstore_trace_flush (world s, traces s) = (e, w, t)" by (metis surj_pair)
  have inv: "trace_inv (heap s, traces s)" using ok by (simp add: system_ok_def core_inv_def)
  have "trace_inv (heap s, t) \<and> tr_initialized t = tr_initialized (traces s) \<and> spans_fit t"
    using run inv ok
    by (auto simp: heapstore_trace_flush_def trace_inv_def spans_of_def live_def spans_fit_def system_ok_def
        split: if_splits option.splits prod.splits)
  then have "system_ok bl ml fine (s\<lparr>world := w\<rparr>\<lparr>heap := heap s, traces := t\<rparr>)"
    using ok by (intro system_ok_traces) (simp_all add: core_ops)
  moreover have "s\<lparr>world := w\<rparr>\<lparr>heap := heap s, traces := t\<rparr> = s\<lparr>world := w, traces := t\<rparr>" by (cases s) simp
  ultimately show ?thesis using ok run by (simp add: heapstore_flush_def)
qed

lemma health_system_ok:
  assumes L: "handles_ok (breaker E) bl ml fine" and ok: "system_ok bl ml fine s"
  shows "\<exists>e hh s'. heapstore_health_check E s = Some (e, hh, s') \<and> system_ok bl ml fine s'"
proof (cases "heapstore_ready s")
  case True
  obtain blocked cs where open_it: "heapstore_circuit_open (breaker E) (circuit_state s) = (blocked, cs)" by (metis surj_pair)
  have "circuit_inv bl ml fine cs"
    using circuit_calls_inv(4) [OF L, of "circuit_state s"] ok open_it by (simp add: system_ok_def)
  moreover have "s_initialized s" "running s = (True, True, True, True)"
    using True ok by (simp_all add: system_ok_def all_running_def heapstore_ready_def)
  ultimately show ?thesis
    using health_check_running [OF _ _ open_it] system_ok_circuit [OF ok] by simp
qed (use ok in \<open>simp add: heapstore_health_check_def heapstore_ready_def\<close>)

lemma cleanup_system_ok:
  "system_ok bl ml fine s \<Longrightarrow> system_ok bl ml fine (snd (snd (heapstore_cleanup E dry freed s)))"
  by (auto simp: heapstore_cleanup_def core_ops Let_def split: prod.splits)

lemma full_path_system_ok:
  "system_ok bl ml fine s \<Longrightarrow> system_ok bl ml fine (snd (snd (heapstore_get_full_path E t buffer n s)))"
  by (auto simp: heapstore_get_full_path_def root_system_ok split: prod.splits option.splits)

lemma stats_system_ok:
  assumes "system_ok bl ml fine s" and "heapstore_get_stats E out s = Some (e, st, s')"
  shows "system_ok bl ml fine s'"
proof -
  have "system_ok bl ml fine s'" if "stats_loop E ts st0 s = Some (st, s')" "system_ok bl ml fine s" for ts st0 s st s'
    using that
    by (induction ts arbitrary: st0 s) (auto simp: root_system_ok Let_def split: option.splits prod.splits)
  then show ?thesis using assms by (auto simp: heapstore_get_stats_def split: if_splits option.splits)
qed

section \<open>The calls on the registry and the traces\<close>

text \<open>What every registry call does: it answers, keeps the lists sound, and a registry that is down unchanged.\<close>

definition registry_calm :: "(allocator \<times> registry \<Rightarrow> (hs_error \<times> allocator \<times> registry) option) \<Rightarrow> bool" where
  "registry_calm f \<longleftrightarrow> (\<forall>al g. registry_inv (al, g) \<longrightarrow>
     (\<exists>e al' g'. f (al, g) = Some (e, al', g') \<and> registry_inv (al', g') \<and> tick al \<le> tick al'
       \<and> reg_initialized g' = reg_initialized g
       \<and> (\<not> reg_initialized g \<longrightarrow> registry_empty g \<longrightarrow> registry_empty g')))"

lemma reg_exec_calm:
  assumes "dom_rep key al d rs"
  shows "\<exists>e al' d'. reg_exec key ini c (al, d) = Some (e, al', d') \<and> tick al \<le> tick al'
    \<and> (\<exists>rs'. dom_rep key al' d' rs') \<and> (\<not> ini \<longrightarrow> d' = d)"
proof -
  obtain al' d' where run: "reg_exec key ini c (al, d) = Some (fst (reg_abs key ini (memory_granted al) c rs), al', d')"
    "dom_rep key al' d' (snd (reg_abs key ini (memory_granted al) c rs))"
    using reg_exec_rep [OF assms] by blast
  have "tick al \<le> tick al'"
  proof (cases c)
    case (RAdd r)
    then show ?thesis using reg_add_rep [OF assms, of ini r] run(1) by auto
  qed (use run(1) in auto)
  moreover have "d' = d" if "\<not> ini"
    using that run(1)
    by (cases c) (auto simp: reg_add_def reg_update_def reg_delete_def split: option.splits if_splits)
  ultimately show ?thesis using run by blast
qed

text \<open>A call that runs \<open>reg_exec\<close> on one of the three domains.\<close>

lemma domain_call_calm:
  assumes f: "\<And>al g. f (al, g) = map_option (\<lambda>(e, al', d). (e, al', put d g))
      (reg_exec key (reg_initialized g) c (al, get g))"
    and rep: "\<And>al g. registry_inv (al, g) \<Longrightarrow> \<exists>rs. dom_rep key al (get g) rs"
    and inv: "\<And>al al' g d rs. registry_inv (al, g) \<Longrightarrow> tick al \<le> tick al' \<Longrightarrow> dom_rep key al' d rs \<Longrightarrow>
      registry_inv (al', put d g)"
    and put: "\<And>g. put (get g) g = g" "\<And>d g. reg_initialized (put d g) = reg_initialized g"
  shows "registry_calm f"
  unfolding registry_calm_def
proof (intro allI impI)
  fix al g
  assume ok: "registry_inv (al, g)"
  then obtain rs where "dom_rep key al (get g) rs" using rep by blast
  from reg_exec_calm [OF this, of "reg_initialized g" c] obtain e al' d' rs' where run:
    "reg_exec key (reg_initialized g) c (al, get g) = Some (e, al', d')" "tick al \<le> tick al'"
    "dom_rep key al' d' rs'" "\<not> reg_initialized g \<longrightarrow> d' = get g" by blast
  have "registry_inv (al', put d' g)" by (rule inv [OF ok run(2,3)])
  with run put f show "\<exists>e al' g'. f (al, g) = Some (e, al', g') \<and> registry_inv (al', g') \<and> tick al \<le> tick al'
       \<and> reg_initialized g' = reg_initialized g \<and> (\<not> reg_initialized g \<longrightarrow> registry_empty g \<longrightarrow> registry_empty g')"
    by auto
qed

lemmas agent_call_calm = domain_call_calm [where key = agent_id and get = agents and put = "\<lambda>d g. g\<lparr>agents := d\<rparr>"]
lemmas skill_call_calm = domain_call_calm [where key = skill_id and get = skills and put = "\<lambda>d g. g\<lparr>skills := d\<rparr>"]
lemmas session_call_calm = domain_call_calm [where key = session_id and get = sessions and put = "\<lambda>d g. g\<lparr>sessions := d\<rparr>"]

abbreviation edit_of :: "(registry \<Rightarrow> (hs_error \<times> registry) option) \<Rightarrow> allocator \<times> registry \<Rightarrow> (hs_error \<times> allocator \<times> registry) option" where
  "edit_of f \<equiv> (\<lambda>(al, g). map_option (\<lambda>(e, g'). (e, al, g')) (f g))"

lemmas registry_wrappers = heapstore_registry_add_agent_def heapstore_registry_update_agent_def
  heapstore_registry_delete_agent_def heapstore_registry_add_skill_def heapstore_registry_delete_skill_def
  heapstore_registry_add_session_def heapstore_registry_update_session_def heapstore_registry_delete_session_def

lemma registry_calls_calm:
  "registry_calm (heapstore_registry_add_agent ra)" "registry_calm (edit_of (heapstore_registry_update_agent ra))"
  "registry_calm (edit_of (heapstore_registry_delete_agent k))"
  "registry_calm (heapstore_registry_add_skill rk)" "registry_calm (edit_of (heapstore_registry_delete_skill k))"
  "registry_calm (heapstore_registry_add_session rs)" "registry_calm (edit_of (heapstore_registry_update_session rs))"
  "registry_calm (edit_of (heapstore_registry_delete_session k))"
  by (rule agent_call_calm [where c = "RAdd ra"] agent_call_calm [where c = "RUpdate ra"]
        agent_call_calm [where c = "RDelete k"] skill_call_calm [where c = "RAdd rk"]
        skill_call_calm [where c = "RDelete k"] session_call_calm [where c = "RAdd rs"]
        session_call_calm [where c = "RUpdate rs"] session_call_calm [where c = "RDelete k"];
      (simp add: registry_wrappers option.map_comp comp_def case_prod_beta; fail
        | auto simp: registry_inv_def intro: dom_rep_later; fail))+

lemma registry_call_system_ok:
  assumes "registry_calm f" and ok: "system_ok bl ml fine s"
  shows "\<exists>s'. registry_call f s = Some s' \<and> system_ok bl ml fine s'"
proof -
  have "registry_inv (allocs (heap s), registry_db s)" using ok by (simp add: system_ok_def)
  then obtain e al g where "f (allocs (heap s), registry_db s) = Some (e, al, g)" "registry_inv (al, g)"
    "tick (allocs (heap s)) \<le> tick al" "reg_initialized g = reg_initialized (registry_db s)"
    "\<not> reg_initialized (registry_db s) \<longrightarrow> registry_empty (registry_db s) \<longrightarrow> registry_empty g"
    using assms(1) unfolding registry_calm_def by blast
  then show ?thesis using system_ok_registry [OF ok] by (auto simp: registry_call_def)
qed

text \<open>Saving a trace.\<close>

lemma write_span_flag:
  "heapstore_trace_write_span sp (h, t) = Some (e, h', t') \<Longrightarrow> tr_initialized t' = tr_initialized t"
  by (auto simp: heapstore_trace_write_span_def split: if_splits option.splits prod.splits)

lemma trace_save_flag:
  "heapstore_syscall_trace_save E tid sid parent name t0 t1 st events i = Some (err, i') \<Longrightarrow>
   tr_initialized (traces (store i')) = tr_initialized (traces (store i))"
  by (auto simp: heapstore_syscall_trace_save_def Let_def dest: write_span_flag split: if_splits option.splits prod.splits)

lemma fields_fit_attributes [simp]:
  "fields_fit (x\<lparr>attributes := a\<rparr>) = fields_fit x" "fields_fit (x\<lparr>attribute_count := n\<rparr>) = fields_fit x"
  by (simp_all add: fields_fit_def)

lemma spans_fit_values: "spans_fit t \<longleftrightarrow> (\<forall>v\<in>set (values_of (h, t)). fields_fit (fst v))"
  by (simp add: spans_fit_def values_of_def span_val_def)

lemma syscall_span_fits: "strncpy_ok A \<Longrightarrow> fields_fit (syscall_span A tid sid parent name t0 t1 st a)"
  by (simp add: fields_fit_def syscall_span_def strncpy_ok_def snprintf_buf_def split: option.split)

lemma trace_save_system_ok:
  assumes A: "strncpy_ok (commons E)" and ok: "system_ok bl ml fine (store i)"
  shows "\<exists>err i'. heapstore_syscall_trace_save E tid sid parent name t0 t1 st events i = Some (err, i')
    \<and> system_ok bl ml fine (store i')"
proof (cases "g_integration_initialized i \<and> tid \<noteq> None \<and> sid \<noteq> None \<and> name \<noteq> None")
  case False
  with ok show ?thesis by (auto simp: heapstore_syscall_trace_save_def split: option.splits)
next
  case True
  then obtain ti si na where args: "tid = Some ti" "sid = Some si" "name = Some na" by auto
  have inv: "trace_inv (heap (store i), traces (store i))" using ok by (simp add: system_ok_def core_inv_def)
  obtain err h t where run: "heapstore_syscall_trace_save E tid sid parent name t0 t1 st events i
      = Some (err, i\<lparr>store := (store i)\<lparr>heap := h, traces := t\<rparr>\<rparr>)"
    and post: "trace_inv (h, t)" "tick (allocs (heap (store i))) \<le> tick (allocs h)"
      "values_of (h, t) = values_of (heap (store i), traces (store i)) @
        (if err \<noteq> AIRY_SUCCESS then []
         else if events = None \<or> events = Some [] then [(syscall_span (commons E) ti si parent na t0 t1 st None, None)]
         else [((syscall_span (commons E) ti si parent na t0 t1 st None)\<lparr>attribute_count := 1\<rparr>, events)])"
    using trace_save_outcome [OF _ inv, of E ti si parent na t0 t1 st events] True args by auto
  have "\<forall>v\<in>set (values_of (heap (store i), traces (store i))). fields_fit (fst v)"
    using ok spans_fit_values by (auto simp: system_ok_def)
  then have "\<forall>v\<in>set (values_of (h, t)). fields_fit (fst v)"
    unfolding post(3) using syscall_span_fits [OF A] by auto
  then have fit: "spans_fit t" using spans_fit_values by blast
  have flag: "tr_initialized t = tr_initialized (traces (store i))" using trace_save_flag [OF run] by simp
  show ?thesis using run system_ok_traces [OF ok post(1,2) flag fit] by simp
qed

text \<open>The export with events never leaves its buffer: an object of spans that fit is at most 832 bytes long.\<close>

lemma export_object_bound:
  assumes "fields_fit s"
  shows "length (export_span True l s) \<le> 832"
  using escape_loop_complete [of s] assms length_show_u64 [of "start_time_ns s"] length_show_u64 [of "end_time_ns s"]
    length_show_u64 [of "attribute_count s"]
  by (auto simp: export_span_def fields_fit_def)

lemma export_loop_safe:
  assumes "\<forall>s\<in>set ss. fields_fit s" and "pos b \<le> estimated_size b" and "832 \<le> estimated_size b"
  shows "\<exists>r al'. export_loop True ss b al = Some (r, al') \<and> tick al \<le> tick al'
    \<and> (\<forall>b'. r = Some b' \<longrightarrow> pos b' \<le> estimated_size b')"
  using assms
proof (induction ss arbitrary: b al)
  case (Cons s ss)
  have len: "length (export_span True (ss = []) s) \<le> 832" using export_object_bound Cons.prems(1) by simp
  obtain b1 where put: "json_put (export_span True (ss = []) s) b = Some b1"
    and b1: "pos b1 = pos b + length (export_span True (ss = []) s)" "estimated_size b1 = estimated_size b"
    using Cons.prems(2) by (auto simp: json_put_def)
  show ?case
  proof (cases "estimated_size b1 - 512 \<le> pos b1")
    case False
    then show ?thesis using Cons.IH [of b1 al] Cons.prems b1 put by simp
  next
    case True
    let ?b = "b1\<lparr>estimated_size := estimated_size b1 * 2\<rparr>" and ?al = "al\<lparr>tick := Suc (tick al)\<rparr>"
    have "pos ?b \<le> estimated_size ?b" "832 \<le> estimated_size ?b" using len b1 Cons.prems(2,3) by simp_all
    from Cons.IH [OF _ this, of ?al] Cons.prems(1) show ?thesis
      using put True by (auto simp: airy_alloc_def)
  qed
qed simp

lemma export_safe:
  assumes "spans_fit t"
  shows "\<exists>e r al. heapstore_trace_export_to_json out True (h, t) = Some (e, r, h\<lparr>allocs := al\<rparr>) \<and> tick (allocs h) \<le> tick al"
proof (cases "tr_initialized t \<and> out \<and> spans_of t \<noteq> [] \<and> \<not> fails (allocs h) (tick (allocs h))")
  case False
  have same: "h\<lparr>allocs := allocs h\<rparr> = h" by simp
  show ?thesis
    using False by (auto simp: heapstore_trace_export_to_json_def airy_alloc_def Let_def same intro: exI [of _ "allocs h"])
next
  case True
  let ?est = "length (spans_of t) * 512 + 64 + length (spans_of t) * 256"
  let ?b = "\<lparr>visible = line ''['', hidden = False, pos = 2, estimated_size = ?est\<rparr>"
  let ?al = "(allocs h)\<lparr>tick := Suc (tick (allocs h))\<rparr>"
  have est: "832 \<le> ?est" using True by (cases "spans_of t") auto
  have put: "json_put (line ''['') \<lparr>visible = [], hidden = False, pos = 0, estimated_size = ?est\<rparr> = Some ?b"
    using est by (simp add: json_put_def)
  obtain r al where loop: "export_loop True (spans_of t) ?b ?al = Some (r, al)" "tick ?al \<le> tick al"
    "\<forall>b'. r = Some b' \<longrightarrow> pos b' \<le> estimated_size b'"
    using export_loop_safe [of "spans_of t" ?b ?al] est assms by (auto simp: spans_fit_def)
  have "json_put '']'' b' \<noteq> None" if "r = Some b'" for b' using loop(3) that by (simp add: json_put_def)
  then have "\<exists>e r. heapstore_trace_export_to_json out True (h, t) = Some (e, r, h\<lparr>allocs := al\<rparr>)"
    using True put loop(1) by (cases r) (auto simp: heapstore_trace_export_to_json_def airy_alloc_def Let_def)
  moreover have "tick (allocs h) \<le> tick al" using loop(2) by simp
  ultimately show ?thesis by blast
qed

lemma export_system_ok:
  assumes ok: "system_ok bl ml fine (store i)"
  shows "\<exists>err txt i'. heapstore_syscall_trace_export out i = Some (err, txt, i') \<and> system_ok bl ml fine (store i')"
proof (cases "g_integration_initialized i \<and> out")
  case False
  with ok show ?thesis by (auto simp: heapstore_syscall_trace_export_def)
next
  case True
  let ?s = "store i"
  have "spans_fit (traces ?s)" and inv: "trace_inv (heap ?s, traces ?s)" using ok by (simp_all add: system_ok_def core_inv_def)
  then obtain e r al where run: "heapstore_trace_export_to_json True True (heap ?s, traces ?s) = Some (e, r, (heap ?s)\<lparr>allocs := al\<rparr>)"
    and later: "tick (allocs (heap ?s)) \<le> tick al" using export_safe by blast
  have "system_ok bl ml fine (?s\<lparr>heap := (heap ?s)\<lparr>allocs := al\<rparr>, traces := traces ?s\<rparr>)"
    using ok trace_inv_tick [OF inv later] later by (intro system_ok_traces) (simp_all add: system_ok_def)
  moreover have "?s\<lparr>heap := (heap ?s)\<lparr>allocs := al\<rparr>, traces := traces ?s\<rparr> = ?s\<lparr>heap := (heap ?s)\<lparr>allocs := al\<rparr>\<rparr>"
    by (cases ?s) simp
  ultimately show ?thesis using True run by (simp add: heapstore_syscall_trace_export_def)
qed

section \<open>The calls of the integration layer\<close>

lemma integration_init_system_ok:
  assumes "handles_ok (breaker E) bl ml fine" and ok: "system_ok bl ml fine (store i)"
  shows "\<exists>err i'. heapstore_integration_init E root i = Some (err, i') \<and> system_ok bl ml fine (store i')"
  using init_system_ok [OF assms, of "Some (heapstore_def_config (Some (effective_root (commons E) root)))"] ok
  by (auto simp: heapstore_integration_init_def Let_def)

lemma integration_shutdown_system_ok:
  assumes "handles_ok (breaker E) bl ml fine" and ok: "system_ok bl ml fine (store i)"
  shows "\<exists>i'. heapstore_integration_shutdown E i = Some i' \<and> system_ok bl ml fine (store i')"
  using shutdown_system_ok [OF assms] ok by (auto simp: heapstore_integration_shutdown_def)

lemma session_save_system_ok:
  assumes ok: "system_ok bl ml fine (store i)"
  shows "\<exists>err i'. heapstore_syscall_session_save E sid meta created active i = Some (err, i') \<and> system_ok bl ml fine (store i')"
proof (cases "g_integration_initialized i \<and> sid \<noteq> None")
  case True
  then obtain k where k: "sid = Some k" by auto
  from registry_call_system_ok [OF registry_calls_calm(6) ok, of "Some (syscall_session (commons E) k meta created active)"]
  show ?thesis using True k by (auto simp: heapstore_syscall_session_save_def registry_call_def Let_def)
qed (use ok in \<open>auto simp: heapstore_syscall_session_save_def\<close>)

lemma session_delete_system_ok:
  assumes ok: "system_ok bl ml fine (store i)"
  shows "\<exists>err i'. heapstore_syscall_session_delete sid i = Some (err, i') \<and> system_ok bl ml fine (store i')"
proof (cases "g_integration_initialized i \<and> sid \<noteq> None")
  case True
  then obtain k where k: "sid = Some k" by auto
  have same: "(store i)\<lparr>heap := (heap (store i))\<lparr>allocs := allocs (heap (store i))\<rparr>, registry_db := g\<rparr>
      = (store i)\<lparr>registry_db := g\<rparr>" for g by simp
  from registry_call_system_ok [OF registry_calls_calm(8) ok, of "Some k"]
  show ?thesis using True k same by (auto simp: heapstore_syscall_session_delete_def registry_call_def)
qed (use ok in \<open>auto simp: heapstore_syscall_session_delete_def\<close>)

lemma logging_system_ok:
  assumes "strncpy_ok (commons E)" and ok: "system_ok bl ml fine (store i)"
  shows "system_ok bl ml fine (store (snd (heapstore_logging_write E src module level tid msg ts i)))"
proof (cases "g_integration_initialized i \<and> module \<noteq> None \<and> msg \<noteq> None")
  case True
  obtain w g where run: "heapstore_log_write (commons E) (logging_level level) module tid (Some src) 287 (the msg)
      (world (store i), logs (store i)) = (w, g)" by fastforce
  from log_write_system_ok [OF assms run] True run show ?thesis
    by (auto simp: heapstore_logging_write_def Let_def)
qed (use ok in \<open>auto simp: heapstore_logging_write_def\<close>)

lemma memory_edit_system_ok:
  assumes ok: "system_ok bl ml fine s"
  shows "system_ok bl ml fine (s\<lparr>memory_tables := snd (heapstore_memory_record_pool p (memory_tables s))\<rparr>)"
    and "system_ok bl ml fine (s\<lparr>memory_tables := snd (heapstore_mem_record a (memory_tables s))\<rparr>)"
    and "system_ok bl ml fine (s\<lparr>memory_tables := snd (heapstore_memory_update_pool_usage k u f (memory_tables s))\<rparr>)"
    and "system_ok bl ml fine (s\<lparr>memory_tables := snd (heapstore_memory_free_allocation A now k (memory_tables s))\<rparr>)"
proof -
  have inv: "memory_inv (memory_tables s)" using ok by (simp add: system_ok_def core_inv_def)
  show "system_ok bl ml fine (s\<lparr>memory_tables := snd (heapstore_memory_record_pool p (memory_tables s))\<rparr>)"
    by (rule system_ok_memory [OF ok record_pool_inv [OF inv]])
      (auto simp: heapstore_memory_record_pool_def split: option.splits)
  show "system_ok bl ml fine (s\<lparr>memory_tables := snd (heapstore_mem_record a (memory_tables s))\<rparr>)"
    by (rule system_ok_memory [OF ok mem_record_inv [OF inv]])
      (auto simp: heapstore_mem_record_def split: option.splits)
  show "system_ok bl ml fine (s\<lparr>memory_tables := snd (heapstore_memory_update_pool_usage k u f (memory_tables s))\<rparr>)"
    by (rule system_ok_memory [OF ok update_usage_inv [OF inv]])
      (auto simp: heapstore_memory_update_pool_usage_def split: option.splits)
  show "system_ok bl ml fine (s\<lparr>memory_tables := snd (heapstore_memory_free_allocation A now k (memory_tables s))\<rparr>)"
    by (rule system_ok_memory [OF ok free_allocation_inv [OF inv]])
      (auto simp: heapstore_memory_free_allocation_def split: option.splits)
qed

section \<open>Every call\<close>

text \<open>
  The calls whose result may be undefined or missing in a sound state: a log write whose message
  is a format with conversions, and the statistics, whose directory walk need not return.
\<close>

fun excepted :: "client_call \<Rightarrow> bool" where
  "excepted (Log_Fast service level msg) \<longleftrightarrow> \<not> plain_message msg"
| "excepted (Log_Slow service level msg tid ms) \<longleftrightarrow> \<not> plain_message msg"
| "excepted (Get_Stats out) \<longleftrightarrow> True"
| "excepted _ \<longleftrightarrow> False"

definition call_ok :: "('c \<Rightarrow> nat set) \<Rightarrow> ('c \<Rightarrow> nat set) \<Rightarrow> ('c \<Rightarrow> bool) \<Rightarrow> 'c env \<Rightarrow> 'c integration \<Rightarrow> client_call \<Rightarrow> bool" where
  "call_ok bl ml fine E i k \<longleftrightarrow>
     (\<forall>i'. call_step E k i = Some i' \<longrightarrow> system_ok bl ml fine (store i')) \<and> (\<not> excepted k \<longrightarrow> call_step E k i \<noteq> None)"

lemma call_ok_some:
  "\<exists>i'. call_step E k i = Some i' \<and> system_ok bl ml fine (store i') \<Longrightarrow> call_ok bl ml fine E i k"
  by (auto simp: call_ok_def)

lemma call_ok_always:
  assumes A: "strncpy_ok (commons E)" and L: "handles_ok (breaker E) bl ml fine" and ok: "system_ok bl ml fine (store i)"
  shows "call_ok bl ml fine E i k"
proof (cases k)
  case (Integration_Init root)
  then show ?thesis using integration_init_system_ok [OF L ok, of root] by (intro call_ok_some) auto
next
  case Integration_Shutdown
  then show ?thesis using integration_shutdown_system_ok [OF L ok] by (intro call_ok_some) auto
next
  case (Store_Init cfg)
  then show ?thesis using init_system_ok [OF L ok, of cfg] by (intro call_ok_some) (auto simp: store_call_def)
next
  case Store_Shutdown
  then show ?thesis using shutdown_system_ok [OF L ok] by (intro call_ok_some) (auto simp: store_call_def)
next
  case (Reload_Config cfg)
  then show ?thesis using reload_system_ok [OF L ok, of cfg] by (intro call_ok_some) (auto simp: store_call_def)
next
  case Flush
  then show ?thesis using flush_system_ok [OF ok] by (intro call_ok_some) (auto simp: store_call_def)
next
  case Health_Check
  then show ?thesis using health_system_ok [OF L ok] by (intro call_ok_some) (auto simp: store_call_def)
next
  case (Log_Fast service level msg)
  then show ?thesis using write_dispatch_system_ok [OF A L ok, of service level msg None True]
    by (auto simp: call_ok_def store_call_def heapstore_log_write_fast_def)
next
  case (Log_Slow service level msg tid ms)
  then show ?thesis using write_dispatch_system_ok [OF A L ok, of service level msg tid False]
    by (auto simp: call_ok_def store_call_def heapstore_log_write_slow_def)
next
  case (Cleanup dry freed)
  then show ?thesis using cleanup_system_ok [OF ok] by (intro call_ok_some) (auto simp: store_call_def)
next
  case (Full_Path t buffer n)
  then show ?thesis using full_path_system_ok [OF ok] by (intro call_ok_some) (auto simp: store_call_def)
next
  case (Get_Stats out)
  then show ?thesis using stats_system_ok [OF ok] by (auto simp: call_ok_def store_call_def)
next
  case Reset_Circuit
  have "circuit_inv bl ml fine (circuit_state (store i))" using ok by (simp add: system_ok_def)
  then show ?thesis
    using Reset_Circuit system_ok_circuit [OF ok circuit_calls_inv(6) [OF L]] by (intro call_ok_some) (simp add: store_call_def)
next
  case (Session_Save sid meta created active)
  then show ?thesis using session_save_system_ok [OF ok, of E sid meta created active] by (intro call_ok_some) auto
next
  case (Session_Delete sid)
  then show ?thesis using session_delete_system_ok [OF ok, of sid] by (intro call_ok_some) auto
next
  case (Trace_Save tid sid parent name t0 t1 st events)
  then show ?thesis
    using trace_save_system_ok [OF A ok, of tid sid parent name t0 t1 st events] by (intro call_ok_some) auto
next
  case (Trace_Export out)
  then show ?thesis using export_system_ok [OF ok, of out] by (intro call_ok_some) auto
next
  case (Logging_Write src module level tid msg ts)
  then show ?thesis using logging_system_ok [OF A ok] by (intro call_ok_some) auto
next
  case (Add_Agent x)
  from registry_call_system_ok [OF registry_calls_calm(1) ok, of x] Add_Agent
  show ?thesis by (intro call_ok_some) (auto simp: store_call_def registry_edit_def)
next
  case (Update_Agent x)
  from registry_call_system_ok [OF registry_calls_calm(2) ok, of x] Update_Agent
  show ?thesis by (intro call_ok_some) (auto simp: store_call_def registry_edit_def)
next
  case (Delete_Agent x)
  from registry_call_system_ok [OF registry_calls_calm(3) ok, of x] Delete_Agent
  show ?thesis by (intro call_ok_some) (auto simp: store_call_def registry_edit_def)
next
  case (Add_Skill x)
  from registry_call_system_ok [OF registry_calls_calm(4) ok, of x] Add_Skill
  show ?thesis by (intro call_ok_some) (auto simp: store_call_def registry_edit_def)
next
  case (Delete_Skill x)
  from registry_call_system_ok [OF registry_calls_calm(5) ok, of x] Delete_Skill
  show ?thesis by (intro call_ok_some) (auto simp: store_call_def registry_edit_def)
next
  case (Add_Session x)
  from registry_call_system_ok [OF registry_calls_calm(6) ok, of x] Add_Session
  show ?thesis by (intro call_ok_some) (auto simp: store_call_def registry_edit_def)
next
  case (Update_Session x)
  from registry_call_system_ok [OF registry_calls_calm(7) ok, of x] Update_Session
  show ?thesis by (intro call_ok_some) (auto simp: store_call_def registry_edit_def)
next
  case (Delete_Session x)
  from registry_call_system_ok [OF registry_calls_calm(8) ok, of x] Delete_Session
  show ?thesis by (intro call_ok_some) (auto simp: store_call_def registry_edit_def)
next
  case (Record_Pool p)
  then show ?thesis using memory_edit_system_ok(1) [OF ok, of p]
    by (intro call_ok_some) (auto simp: store_call_def memory_edit_def)
next
  case (Record_Allocation a)
  then show ?thesis using memory_edit_system_ok(2) [OF ok, of a]
    by (intro call_ok_some) (auto simp: store_call_def memory_edit_def)
next
  case (Pool_Usage key used free)
  then show ?thesis using memory_edit_system_ok(3) [OF ok, of key used free]
    by (intro call_ok_some) (auto simp: store_call_def memory_edit_def)
next
  case (Free_Allocation now key)
  then show ?thesis using memory_edit_system_ok(4) [OF ok, of "commons E" now key]
    by (intro call_ok_some) (auto simp: store_call_def memory_edit_def)
qed

lemma start_system_ok:
  assumes "bl c = {}" and "ml c = {}" and "fine c"
  shows "system_ok bl ml fine (store (at_start c f w))"
proof -
  have "registry_empty (registry_db (heapstore0 c w))" by (simp add: registry_empty_def heapstore0_def empty_domain_def)
  moreover have "spans_of (traces (heapstore0 c w)) = []" by (simp add: heapstore0_def spans_of_def)
  moreover have "\<not> log_initialized (logs (heapstore0 c w))" by (simp add: heapstore0_def log0_def)
  moreover have "circuit_inv bl ml fine (circuit_state (heapstore0 c w))"
    using assms by (simp add: heapstore0_def circuit_inv_def circuit0_def)
  moreover have "\<not> heapstore_ready (heapstore0 c w)" by (simp add: heapstore0_def heapstore_ready_def)
  moreover have "trace_inv (\<lparr>allocs = \<lparr>tick = 0, fails = f\<rparr>, cells = Map.empty\<rparr>, traces (heapstore0 c w))"
    by (simp add: trace_inv_def heapstore0_def heap_ok_def live_def spans_of_def)
  ultimately show ?thesis
    using core_inv_start [of c w]
    by (simp add: at_start_def system_ok_def idle_def spans_fit_def all_running_def registry_empty_inv core_state
        heapstore_ready_def)
qed

lemma reachable_system_ok:
  assumes "reachable E c i" and "strncpy_ok (commons E)" and "handles_ok (breaker E) bl ml fine"
    and "bl c = {}" and "ml c = {}" and "fine c"
  shows "system_ok bl ml fine (store i)"
  using assms(1)
proof (induction rule: reachable.induct)
  case (start f w)
  show ?case using assms(4-6) by (rule start_system_ok [of bl c ml fine f w])
next
  case (call i k i')
  then show ?case using call_ok_always [OF assms(2,3), of i k] by (simp add: call_ok_def)
next
  case (outside i w)
  then show ?case by (simp add: core_ops)
qed

section \<open>Properties\<close>


section \<open>Witness\<close>


end
