(* ===== verification/HS_Sqlite.thy ===== *)
theory HS_Sqlite
  imports HS_Registry HS_Os
begin

text \<open>
  The registry backend of builds with SQLite: src/heapstore_registry_sqlite.c and its agent, skill,
  session and iterator files. SQLite is not part of the repository: it is the parameter \<open>sqlite3\<close>,
  a record of its entry points over a state of its own; what the properties rely on of it is stated
  as named hypotheses. The registry lock is held from session_begin to the return of every
  operation, so an operation is one step here; HS_Sqlite_Threads takes the operations apart and
  shows that several threads make of them what they make one after the other.
\<close>

section \<open>SQLite and the registry state\<close>

datatype sqval = SqText string | SqInt u64

datatype sqrc = SQLITE_ROW | SQLITE_DONE | SQLITE_ERROR

text \<open>
  Connections and statements are numbers. \<open>sqlite3_open\<close> may hand out a connection even when it
  fails; \<open>sqlite3_bind\<close> stands for bind_text and bind_int64 (bind_int extends its argument);
  \<open>make_dir\<close> is heapstore_dir_ensure on the file system inside the state.
\<close>

record 'w sqlite3 =
  sqlite3_open :: "string \<Rightarrow> 'w \<Rightarrow> bool \<times> nat option \<times> 'w"
  sqlite3_close :: "nat \<Rightarrow> 'w \<Rightarrow> 'w"
  sqlite3_exec :: "nat \<Rightarrow> string \<Rightarrow> 'w \<Rightarrow> bool \<times> 'w"
  sqlite3_prepare :: "nat \<Rightarrow> string \<Rightarrow> 'w \<Rightarrow> nat option \<times> 'w"
  sqlite3_bind :: "nat \<Rightarrow> nat \<Rightarrow> sqval \<Rightarrow> 'w \<Rightarrow> 'w"
  sqlite3_step :: "nat \<Rightarrow> 'w \<Rightarrow> sqrc \<times> 'w"
  sqlite3_reset :: "nat \<Rightarrow> 'w \<Rightarrow> 'w"
  sqlite3_finalize :: "nat \<Rightarrow> 'w \<Rightarrow> 'w"
  sqlite3_column_text :: "nat \<Rightarrow> nat \<Rightarrow> 'w \<Rightarrow> string option"
  sqlite3_column_int64 :: "nat \<Rightarrow> nat \<Rightarrow> 'w \<Rightarrow> u64"
  make_dir :: "string \<Rightarrow> 'w \<Rightarrow> 'w"

definition bind_int :: "u32 \<Rightarrow> sqval" where "bind_int n = SqInt (scast n)"

definition column_int :: "'w sqlite3 \<Rightarrow> nat \<Rightarrow> nat \<Rightarrow> 'w \<Rightarrow> u32" where
  "column_int L st col w = ucast (sqlite3_column_int64 L st col w)"

record sql_registry =
  reg_db :: "nat option"
  db_path :: string
  sql_initialized :: bool

definition sql_registry0 :: sql_registry where
  "sql_registry0 = \<lparr>reg_db = None, db_path = [], sql_initialized = False\<rparr>"

section \<open>Life cycle\<close>

text \<open>The text of init_database, by table; every column definition of the code is one literal.\<close>

definition agents_table_sql :: string where
  "agents_table_sql =
     ''CREATE TABLE IF NOT EXISTS agents ('' @ ''    id TEXT PRIMARY KEY,'' @ ''    name TEXT NOT NULL,'' @ ''    type TEXT,''
     @ ''    version TEXT,'' @ ''    status TEXT,'' @ ''    config_path TEXT,'' @ ''    created_at INTEGER,''
     @ ''    updated_at INTEGER,'' @ ''    priority INTEGER DEFAULT 0,''
     @ ''    tags TEXT DEFAULT '' @ [CHR 0x27, CHR 0x27] @ '');''"

definition capabilities_table_sql :: string where
  "capabilities_table_sql =
     ''CREATE TABLE IF NOT EXISTS agent_capabilities ('' @ ''    agent_id TEXT,'' @ ''    capability TEXT,''
     @ ''    FOREIGN KEY (agent_id) REFERENCES agents(id)'' @ '');''"

definition skills_table_sql :: string where
  "skills_table_sql =
     ''CREATE TABLE IF NOT EXISTS skills ('' @ ''    id TEXT PRIMARY KEY,'' @ ''    name TEXT NOT NULL,'' @ ''    version TEXT,''
     @ ''    library_path TEXT,'' @ ''    manifest_path TEXT,'' @ ''    installed_at INTEGER'' @ '');''"

definition sessions_table_sql :: string where
  "sessions_table_sql =
     ''CREATE TABLE IF NOT EXISTS sessions ('' @ ''    id TEXT PRIMARY KEY,'' @ ''    user_id TEXT,''
     @ ''    created_at INTEGER,'' @ ''    last_active_at INTEGER,'' @ ''    ttl_seconds INTEGER,'' @ ''    status TEXT,''
     @ ''    metadata TEXT DEFAULT '' @ [CHR 0x27, CHR 0x27] @ '');''"

definition schema_sql :: string where
  "schema_sql =
     agents_table_sql @ capabilities_table_sql @ skills_table_sql @ sessions_table_sql
     @ ''CREATE INDEX IF NOT EXISTS idx_agent_type ON agents(type);''
     @ ''CREATE INDEX IF NOT EXISTS idx_skill_status ON skills(name);''
     @ ''CREATE INDEX IF NOT EXISTS idx_session_user ON sessions(user_id);''"

definition init_database :: "'w sqlite3 \<Rightarrow> nat \<Rightarrow> 'w \<Rightarrow> hs_error \<times> 'w" where
  "init_database L db w =
     (case sqlite3_exec L db schema_sql w of
        (ok, w') \<Rightarrow> (if ok then SUCCESS else ERR_DB_INIT_FAILED, w'))"

definition pragmas :: "string list" where
  "pragmas = [''PRAGMA journal_mode=WAL;'', ''PRAGMA synchronous=NORMAL;'', ''PRAGMA cache_size=10000;'',
     ''PRAGMA temp_store=MEMORY;'']"

text \<open>\<open>root\<close> is what heapstore_get_root returns; it passes through a buffer of 256 bytes.\<close>

definition sql_registry_init ::
  "'w sqlite3 \<Rightarrow> airy \<Rightarrow> string \<Rightarrow> 'w \<times> sql_registry \<Rightarrow> hs_error \<times> 'w \<times> sql_registry" where
  "sql_registry_init L A root = (\<lambda>(w, g).
     if sql_initialized g then (SUCCESS, w, g)
     else
       let root_path = (if root \<noteq> [] then strncpy_term A root 256
                        else if data_dir A \<noteq> [] then snprintf_buf 256 (data_dir A @ ''/agentrt/heapstore'')
                        else ''/tmp/agentrt/heapstore'');
           full_path = snprintf_buf 512 (root_path @ ''/registry'');
           w1 = make_dir L full_path w;
           path = snprintf_buf 512 (full_path @ ''/registry.db'')
       in case sqlite3_open L path w1 of
            (ok, h, w2) \<Rightarrow>
              let g1 = g\<lparr>db_path := path, reg_db := h\<rparr> in
              if \<not> ok then (ERR_DB_INIT_FAILED, w2, g1)
              else
                let db = the h;
                    w3 = fold (\<lambda>p w. snd (sqlite3_exec L db p w)) pragmas w2
                in case init_database L db w3 of
                     (err, w4) \<Rightarrow>
                       if err \<noteq> SUCCESS then (err, sqlite3_close L db w4, sql_registry0)
                       else (SUCCESS, w4, g1\<lparr>sql_initialized := True\<rparr>))"

definition sql_registry_shutdown :: "'w sqlite3 \<Rightarrow> 'w \<times> sql_registry \<Rightarrow> 'w \<times> sql_registry" where
  "sql_registry_shutdown L = (\<lambda>(w, g).
     if \<not> sql_initialized g then (w, g)
     else (case reg_db g of None \<Rightarrow> w | Some db \<Rightarrow> sqlite3_close L db w,
           g\<lparr>reg_db := None, sql_initialized := False\<rparr>))"

definition sql_registry_vacuum :: "'w sqlite3 \<Rightarrow> 'w \<times> sql_registry \<Rightarrow> hs_error \<times> 'w" where
  "sql_registry_vacuum L = (\<lambda>(w, g).
     if \<not> sql_initialized g \<or> reg_db g = None then (ERR_NOT_INITIALIZED, w)
     else (SUCCESS, snd (sqlite3_exec L (the (reg_db g)) ''VACUUM;'' w)))"

definition sql_registry_is_healthy :: "sql_registry \<Rightarrow> bool" where
  "sql_registry_is_healthy g \<longleftrightarrow> sql_initialized g \<and> reg_db g \<noteq> None"

section \<open>Statements\<close>

text \<open>session_begin: the error, or the prepared statement with the lock held.\<close>

definition session_begin :: "'w sqlite3 \<Rightarrow> string \<Rightarrow> 'w \<times> sql_registry \<Rightarrow> (hs_error + nat) \<times> 'w" where
  "session_begin L sql = (\<lambda>(w, g).
     if \<not> sql_initialized g \<or> reg_db g = None then (Inl ERR_NOT_INITIALIZED, w)
     else case sqlite3_prepare L (the (reg_db g)) sql w of
       (None, w') \<Rightarrow> (Inl ERR_DB_QUERY_FAILED, w')
     | (Some st, w') \<Rightarrow> (Inr st, w'))"

text \<open>
  A binder of the code binds its values to the parameters 1, 2, ... in order and never fails; it is
  the list of those values.
\<close>

fun bind_from :: "'w sqlite3 \<Rightarrow> nat \<Rightarrow> nat \<Rightarrow> sqval list \<Rightarrow> 'w \<Rightarrow> 'w" where
  "bind_from L st i [] w = w"
| "bind_from L st i (v # vs) w = bind_from L st (Suc i) vs (sqlite3_bind L st i v w)"

definition sql_exec_locked :: "'w sqlite3 \<Rightarrow> string \<Rightarrow> sqval list \<Rightarrow> 'w \<times> sql_registry \<Rightarrow> hs_error \<times> 'w" where
  "sql_exec_locked L sql vals = (\<lambda>(w, g).
     case session_begin L sql (w, g) of
       (Inl err, w') \<Rightarrow> (err, w')
     | (Inr st, w1) \<Rightarrow>
         (case sqlite3_step L st (bind_from L st 1 vals w1) of
            (rc, w2) \<Rightarrow>
              (if rc = SQLITE_DONE \<or> rc = SQLITE_ROW then SUCCESS else ERR_DB_QUERY_FAILED,
               sqlite3_finalize L st w2)))"

definition registry_query_one ::
  "'w sqlite3 \<Rightarrow> string \<Rightarrow> sqval list \<Rightarrow> (nat \<Rightarrow> 'w \<Rightarrow> 'r) \<Rightarrow> 'w \<times> sql_registry \<Rightarrow> hs_error \<times> 'r option \<times> 'w" where
  "registry_query_one L sql vals extract = (\<lambda>(w, g).
     case session_begin L sql (w, g) of
       (Inl err, w') \<Rightarrow> (err, None, w')
     | (Inr st, w1) \<Rightarrow>
         (case sqlite3_step L st (bind_from L st 1 vals w1) of
            (rc, w2) \<Rightarrow>
              (if rc = SQLITE_ROW then SUCCESS else if rc = SQLITE_DONE then ERR_NOT_FOUND else ERR_DB_QUERY_FAILED,
               if rc = SQLITE_ROW then Some (extract st w2) else None,
               sqlite3_finalize L st w2)))"

text \<open>The transaction of a batch; the loop binds, steps and resets, and rolls back at the first failure.\<close>

fun batch_exec_loop :: "'w sqlite3 \<Rightarrow> nat \<Rightarrow> nat \<Rightarrow> sqval list list \<Rightarrow> 'w \<Rightarrow> hs_error \<times> 'w" where
  "batch_exec_loop L db st [] w = (SUCCESS, w)"
| "batch_exec_loop L db st (vals # rest) w =
     (case sqlite3_step L st (bind_from L st 1 vals w) of
        (rc, w1) \<Rightarrow>
          if rc \<noteq> SQLITE_DONE then (ERR_DB_QUERY_FAILED, snd (sqlite3_exec L db ''ROLLBACK;'' w1))
          else batch_exec_loop L db st rest (sqlite3_reset L st w1))"

definition batch_exec_locked :: "'w sqlite3 \<Rightarrow> string \<Rightarrow> sqval list list \<Rightarrow> 'w \<times> sql_registry \<Rightarrow> hs_error \<times> 'w" where
  "batch_exec_locked L sql records = (\<lambda>(w, g).
     case session_begin L sql (w, g) of
       (Inl err, w') \<Rightarrow> (err, w')
     | (Inr st, w1) \<Rightarrow>
         let db = the (reg_db g) in
         (case sqlite3_exec L db ''BEGIN TRANSACTION;'' w1 of
            (False, w2) \<Rightarrow> (ERR_DB_QUERY_FAILED, sqlite3_finalize L st w2)
          | (True, w2) \<Rightarrow>
              (case batch_exec_loop L db st records w2 of
                 (result, w3) \<Rightarrow>
                   if result = SUCCESS
                   then (case sqlite3_exec L db ''COMMIT;'' w3 of
                           (ok, w4) \<Rightarrow> (if ok then SUCCESS else ERR_DB_QUERY_FAILED, sqlite3_finalize L st w4))
                   else (result, sqlite3_finalize L st w3))))"

section \<open>Iterators\<close>

datatype rec_type = REC_AGENT | REC_SKILL | REC_SESSION

record sql_iter =
  it_stmt :: "nat option"
  current_type :: rec_type
  has_more :: bool

definition query_precheck :: "bool \<Rightarrow> sql_registry \<Rightarrow> hs_error" where
  "query_precheck iter g =
     (if \<not> iter then ERR_INVALID_PARAM
      else if \<not> sql_initialized g \<or> reg_db g = None then ERR_NOT_INITIALIZED
      else SUCCESS)"

definition registry_query_open ::
  "'w sqlite3 \<Rightarrow> string \<Rightarrow> rec_type \<Rightarrow> sqval list \<Rightarrow> allocator \<Rightarrow> 'w \<times> sql_registry
     \<Rightarrow> hs_error \<times> sql_iter option \<times> allocator \<times> 'w" where
  "registry_query_open L sql rtype vals al = (\<lambda>(w, g).
     case session_begin L sql (w, g) of
       (Inl err, w') \<Rightarrow> (err, None, al, w')
     | (Inr st, w1) \<Rightarrow>
         let w2 = bind_from L st 1 vals w1 in
         (case airy_alloc al of
            (Some _, al') \<Rightarrow> (SUCCESS, Some \<lparr>it_stmt = Some st, current_type = rtype, has_more = True\<rparr>, al', w2)
          | (None, al') \<Rightarrow> (ERR_OUT_OF_MEMORY, None, al', sqlite3_finalize L st w2)))"

section \<open>Records\<close>

text \<open>copy_text_col leaves the zeroed buffer when the column is NULL.\<close>

definition copy_text_col :: "'w sqlite3 \<Rightarrow> airy \<Rightarrow> nat \<Rightarrow> nat \<Rightarrow> nat \<Rightarrow> 'w \<Rightarrow> string" where
  "copy_text_col L A st col sz w =
     (case sqlite3_column_text L st col w of None \<Rightarrow> [] | Some t \<Rightarrow> strncpy_term A t sz)"

definition registry_bind_id :: "string \<Rightarrow> sqval list" where
  "registry_bind_id rid = [SqText rid]"

subsection \<open>Agents\<close>

definition bind_agent_record :: "agent_record \<Rightarrow> sqval list" where
  "bind_agent_record r =
     [SqText (agent_id r), SqText (agent_name r), SqText (agent_type r), SqText (agent_version r),
      SqText (agent_status r), SqText (config_path r), SqInt (agent_created_at r), SqInt (agent_updated_at r),
      bind_int (priority r), SqText (tags r)]"

definition bind_agent_update :: "agent_record \<Rightarrow> sqval list" where
  "bind_agent_update r =
     [SqText (agent_name r), SqText (agent_type r), SqText (agent_version r), SqText (agent_status r),
      SqText (config_path r), SqInt (agent_updated_at r), bind_int (priority r), SqText (tags r), SqText (agent_id r)]"

definition bind_agent_filters :: "string option \<Rightarrow> string option \<Rightarrow> sqval list" where
  "bind_agent_filters ftype fstatus =
     (case ftype of None \<Rightarrow> [] | Some t \<Rightarrow> [SqText t]) @ (case fstatus of None \<Rightarrow> [] | Some t \<Rightarrow> [SqText t])"

definition extract_agent_row :: "'w sqlite3 \<Rightarrow> airy \<Rightarrow> nat \<Rightarrow> 'w \<Rightarrow> agent_record" where
  "extract_agent_row L A st w =
     \<lparr>agent_id = copy_text_col L A st 0 128 w, agent_name = copy_text_col L A st 1 256 w,
      agent_type = copy_text_col L A st 2 64 w, agent_version = copy_text_col L A st 3 32 w,
      agent_status = copy_text_col L A st 4 32 w, config_path = copy_text_col L A st 5 512 w,
      agent_created_at = sqlite3_column_int64 L st 6 w, agent_updated_at = sqlite3_column_int64 L st 7 w,
      priority = column_int L st 8 w, tags = copy_text_col L A st 9 256 w\<rparr>"

definition agent_insert_sql :: string where
  "agent_insert_sql = ''INSERT INTO agents '' @ ''(id, name, type, version, status, config_path, created_at, ''
     @ '' updated_at, priority, tags) '' @ ''VALUES (?, ?, ?, ?, ?, ?, ?, ?, ?, ?);''"

definition agent_select_sql :: string where
  "agent_select_sql = ''SELECT id, name, type, version, status, config_path, '' @ ''created_at, updated_at, priority, tags ''
     @ ''FROM agents WHERE id = ?;''"

definition agent_update_sql :: string where
  "agent_update_sql = ''UPDATE agents SET '' @ ''name = ?, type = ?, version = ?, status = ?, config_path = ?, ''
     @ ''updated_at = ?, priority = ?, tags = ? '' @ ''WHERE id = ?;''"

definition sql_add_agent :: "'w sqlite3 \<Rightarrow> agent_record option \<Rightarrow> 'w \<times> sql_registry \<Rightarrow> hs_error \<times> 'w" where
  "sql_add_agent L rec s =
     (case rec of
        None \<Rightarrow> (ERR_INVALID_PARAM, fst s)
      | Some r \<Rightarrow> if agent_id r = [] then (ERR_INVALID_PARAM, fst s)
                  else sql_exec_locked L agent_insert_sql (bind_agent_record r) s)"

definition sql_get_agent ::
  "'w sqlite3 \<Rightarrow> airy \<Rightarrow> string option \<Rightarrow> bool \<Rightarrow> 'w \<times> sql_registry \<Rightarrow> hs_error \<times> agent_record option \<times> 'w" where
  "sql_get_agent L A rid out s =
     (case rid of
        None \<Rightarrow> (ERR_INVALID_PARAM, None, fst s)
      | Some k \<Rightarrow> if \<not> out then (ERR_INVALID_PARAM, None, fst s)
                  else registry_query_one L agent_select_sql (registry_bind_id k) (extract_agent_row L A) s)"

definition sql_update_agent :: "'w sqlite3 \<Rightarrow> agent_record option \<Rightarrow> 'w \<times> sql_registry \<Rightarrow> hs_error \<times> 'w" where
  "sql_update_agent L rec s =
     (case rec of
        None \<Rightarrow> (ERR_INVALID_PARAM, fst s)
      | Some r \<Rightarrow> if agent_id r = [] then (ERR_INVALID_PARAM, fst s)
                  else sql_exec_locked L agent_update_sql (bind_agent_update r) s)"

definition sql_delete_agent :: "'w sqlite3 \<Rightarrow> string option \<Rightarrow> 'w \<times> sql_registry \<Rightarrow> hs_error \<times> 'w" where
  "sql_delete_agent L rid s =
     (case rid of
        None \<Rightarrow> (ERR_INVALID_PARAM, fst s)
      | Some k \<Rightarrow> sql_exec_locked L ''DELETE FROM agents WHERE id = ?;'' (registry_bind_id k) s)"

text \<open>The text of the agent query, built in a buffer of 512 bytes.\<close>

definition append_buf :: "nat \<Rightarrow> string \<Rightarrow> string \<Rightarrow> string" where
  "append_buf n buf t = buf @ snprintf_buf (n - length buf) t"

definition agent_query_sql :: "string option \<Rightarrow> string option \<Rightarrow> string" where
  "agent_query_sql ftype fstatus =
     (let s0 = snprintf_buf 512 (''SELECT id, name, type, version, status, config_path, created_at, ''
                 @ ''updated_at, priority, tags FROM agents WHERE 1=1'');
          s1 = (if ftype \<noteq> None then append_buf 512 s0 '' AND type = ?'' else s0)
      in if fstatus \<noteq> None then append_buf 512 s1 '' AND status = ?'' else s1)"

definition sql_query_agents ::
  "'w sqlite3 \<Rightarrow> string option \<Rightarrow> string option \<Rightarrow> bool \<Rightarrow> allocator \<Rightarrow> 'w \<times> sql_registry
     \<Rightarrow> hs_error \<times> sql_iter option \<times> allocator \<times> 'w" where
  "sql_query_agents L ftype fstatus iter al s =
     (let pre = query_precheck iter (snd s) in
      if pre \<noteq> SUCCESS then (pre, None, al, fst s)
      else registry_query_open L (agent_query_sql ftype fstatus) REC_AGENT (bind_agent_filters ftype fstatus) al s)"

text \<open>The records of a batch; \<open>count\<close> is at most the length of the array.\<close>

definition sql_batch_insert_agents ::
  "'w sqlite3 \<Rightarrow> agent_record list option \<Rightarrow> nat \<Rightarrow> 'w \<times> sql_registry \<Rightarrow> hs_error \<times> 'w" where
  "sql_batch_insert_agents L records cnt s =
     (case records of
        None \<Rightarrow> (ERR_INVALID_PARAM, fst s)
      | Some rs \<Rightarrow> if cnt = 0 then (ERR_INVALID_PARAM, fst s)
                   else batch_exec_locked L agent_insert_sql (map bind_agent_record (take cnt rs)) s)"

subsection \<open>Skills\<close>

definition bind_skill_row :: "skill_record \<Rightarrow> sqval list" where
  "bind_skill_row r =
     [SqText (skill_id r), SqText (skill_name r), SqText (skill_version r), SqText (library_path r),
      SqText (manifest_path r), SqInt (installed_at r)]"

definition extract_skill_row :: "'w sqlite3 \<Rightarrow> airy \<Rightarrow> nat \<Rightarrow> 'w \<Rightarrow> skill_record" where
  "extract_skill_row L A st w =
     \<lparr>skill_id = copy_text_col L A st 0 128 w, skill_name = copy_text_col L A st 1 256 w,
      skill_version = copy_text_col L A st 2 32 w, library_path = copy_text_col L A st 3 512 w,
      manifest_path = copy_text_col L A st 4 512 w, installed_at = sqlite3_column_int64 L st 5 w\<rparr>"

definition skill_insert_sql :: string where
  "skill_insert_sql = ''INSERT INTO skills '' @ ''(id, name, version, library_path, manifest_path, installed_at) ''
     @ ''VALUES (?, ?, ?, ?, ?, ?);''"

definition skill_select_sql :: string where
  "skill_select_sql = ''SELECT id, name, version, library_path, manifest_path, ''
     @ ''installed_at FROM skills WHERE id = ?;''"

definition sql_add_skill :: "'w sqlite3 \<Rightarrow> skill_record option \<Rightarrow> 'w \<times> sql_registry \<Rightarrow> hs_error \<times> 'w" where
  "sql_add_skill L rec s =
     (case rec of
        None \<Rightarrow> (ERR_INVALID_PARAM, fst s)
      | Some r \<Rightarrow> if skill_id r = [] then (ERR_INVALID_PARAM, fst s)
                  else sql_exec_locked L skill_insert_sql (bind_skill_row r) s)"

definition sql_get_skill ::
  "'w sqlite3 \<Rightarrow> airy \<Rightarrow> string option \<Rightarrow> bool \<Rightarrow> 'w \<times> sql_registry \<Rightarrow> hs_error \<times> skill_record option \<times> 'w" where
  "sql_get_skill L A rid out s =
     (case rid of
        None \<Rightarrow> (ERR_INVALID_PARAM, None, fst s)
      | Some k \<Rightarrow> if \<not> out then (ERR_INVALID_PARAM, None, fst s)
                  else registry_query_one L skill_select_sql (registry_bind_id k) (extract_skill_row L A) s)"

definition sql_delete_skill :: "'w sqlite3 \<Rightarrow> string option \<Rightarrow> 'w \<times> sql_registry \<Rightarrow> hs_error \<times> 'w" where
  "sql_delete_skill L rid s =
     (case rid of
        None \<Rightarrow> (ERR_INVALID_PARAM, fst s)
      | Some k \<Rightarrow> sql_exec_locked L ''DELETE FROM skills WHERE id = ?;'' (registry_bind_id k) s)"

definition sql_query_skills ::
  "'w sqlite3 \<Rightarrow> bool \<Rightarrow> allocator \<Rightarrow> 'w \<times> sql_registry \<Rightarrow> hs_error \<times> sql_iter option \<times> allocator \<times> 'w" where
  "sql_query_skills L iter al s =
     (let pre = query_precheck iter (snd s) in
      if pre \<noteq> SUCCESS then (pre, None, al, fst s)
      else registry_query_open L (''SELECT id, name, version, library_path, manifest_path, ''
             @ ''installed_at FROM skills ORDER BY installed_at DESC;'') REC_SKILL [] al s)"

definition skill_batch_sql :: string where
  "skill_batch_sql = ''INSERT INTO skills '' @ ''(id, name, version, library_path, manifest_path, '' @ '' installed_at) ''
     @ ''VALUES (?, ?, ?, ?, ?, ?);''"

definition sql_batch_insert_skills ::
  "'w sqlite3 \<Rightarrow> skill_record list option \<Rightarrow> nat \<Rightarrow> 'w \<times> sql_registry \<Rightarrow> hs_error \<times> 'w" where
  "sql_batch_insert_skills L records cnt s =
     (case records of
        None \<Rightarrow> (ERR_INVALID_PARAM, fst s)
      | Some rs \<Rightarrow> if cnt = 0 then (ERR_INVALID_PARAM, fst s)
                   else batch_exec_locked L skill_batch_sql (map bind_skill_row (take cnt rs)) s)"

subsection \<open>Sessions\<close>

definition bind_session_row :: "session_record \<Rightarrow> sqval list" where
  "bind_session_row r =
     [SqText (session_id r), SqText (user_id r), SqInt (session_created_at r), SqInt (last_active_at r),
      bind_int (ttl_seconds r), SqText (session_status r), SqText (metadata r)]"

definition bind_session_update :: "session_record \<Rightarrow> sqval list" where
  "bind_session_update r =
     [SqText (user_id r), SqInt (last_active_at r), bind_int (ttl_seconds r), SqText (session_status r),
      SqText (metadata r), SqText (session_id r)]"

definition extract_session_row :: "'w sqlite3 \<Rightarrow> airy \<Rightarrow> nat \<Rightarrow> 'w \<Rightarrow> session_record" where
  "extract_session_row L A st w =
     \<lparr>session_id = copy_text_col L A st 0 128 w, user_id = copy_text_col L A st 1 128 w,
      session_created_at = sqlite3_column_int64 L st 2 w, last_active_at = sqlite3_column_int64 L st 3 w,
      ttl_seconds = column_int L st 4 w, session_status = copy_text_col L A st 5 32 w,
      metadata = copy_text_col L A st 6 512 w\<rparr>"

definition session_insert_sql :: string where
  "session_insert_sql = ''INSERT INTO sessions '' @ ''(id, user_id, created_at, last_active_at, ttl_seconds, status, ''
     @ '' metadata) '' @ ''VALUES (?, ?, ?, ?, ?, ?, ?);''"

definition session_select_sql :: string where
  "session_select_sql = ''SELECT id, user_id, created_at, last_active_at, ttl_seconds, ''
     @ ''status, metadata FROM sessions WHERE id = ?;''"

definition session_update_sql :: string where
  "session_update_sql = ''UPDATE sessions SET user_id = ?, last_active_at = ?, ''
     @ ''ttl_seconds = ?, status = ?, metadata = ? WHERE id = ?;''"

definition sql_add_session :: "'w sqlite3 \<Rightarrow> session_record option \<Rightarrow> 'w \<times> sql_registry \<Rightarrow> hs_error \<times> 'w" where
  "sql_add_session L rec s =
     (case rec of
        None \<Rightarrow> (ERR_INVALID_PARAM, fst s)
      | Some r \<Rightarrow> if session_id r = [] then (ERR_INVALID_PARAM, fst s)
                  else sql_exec_locked L session_insert_sql (bind_session_row r) s)"

definition sql_get_session ::
  "'w sqlite3 \<Rightarrow> airy \<Rightarrow> string option \<Rightarrow> bool \<Rightarrow> 'w \<times> sql_registry \<Rightarrow> hs_error \<times> session_record option \<times> 'w" where
  "sql_get_session L A rid out s =
     (case rid of
        None \<Rightarrow> (ERR_INVALID_PARAM, None, fst s)
      | Some k \<Rightarrow> if \<not> out then (ERR_INVALID_PARAM, None, fst s)
                  else registry_query_one L session_select_sql (registry_bind_id k) (extract_session_row L A) s)"

definition sql_update_session :: "'w sqlite3 \<Rightarrow> session_record option \<Rightarrow> 'w \<times> sql_registry \<Rightarrow> hs_error \<times> 'w" where
  "sql_update_session L rec s =
     (case rec of
        None \<Rightarrow> (ERR_INVALID_PARAM, fst s)
      | Some r \<Rightarrow> if session_id r = [] then (ERR_INVALID_PARAM, fst s)
                  else sql_exec_locked L session_update_sql (bind_session_update r) s)"

definition sql_delete_session :: "'w sqlite3 \<Rightarrow> string option \<Rightarrow> 'w \<times> sql_registry \<Rightarrow> hs_error \<times> 'w" where
  "sql_delete_session L rid s =
     (case rid of
        None \<Rightarrow> (ERR_INVALID_PARAM, fst s)
      | Some k \<Rightarrow> sql_exec_locked L ''DELETE FROM sessions WHERE id = ?;'' (registry_bind_id k) s)"

definition sql_query_sessions ::
  "'w sqlite3 \<Rightarrow> string option \<Rightarrow> bool \<Rightarrow> allocator \<Rightarrow> 'w \<times> sql_registry \<Rightarrow> hs_error \<times> sql_iter option \<times> allocator \<times> 'w" where
  "sql_query_sessions L fstatus iter al s =
     (let pre = query_precheck iter (snd s) in
      if pre \<noteq> SUCCESS then (pre, None, al, fst s)
      else case fstatus of
        Some f \<Rightarrow>
          if f \<noteq> []
          then registry_query_open L (''SELECT id, user_id, created_at, last_active_at, ''
                 @ ''ttl_seconds, status, metadata FROM sessions '' @ ''WHERE status = ? ORDER BY last_active_at DESC;'')
                 REC_SESSION (registry_bind_id f) al s
          else registry_query_open L (''SELECT id, user_id, created_at, last_active_at, ttl_seconds, ''
                 @ ''status, metadata FROM sessions '' @ ''ORDER BY last_active_at DESC;'') REC_SESSION [] al s
      | None \<Rightarrow> registry_query_open L (''SELECT id, user_id, created_at, last_active_at, ttl_seconds, ''
                 @ ''status, metadata FROM sessions '' @ ''ORDER BY last_active_at DESC;'') REC_SESSION [] al s)"

definition session_batch_sql :: string where
  "session_batch_sql = ''INSERT INTO sessions '' @ ''(id, user_id, created_at, last_active_at, ttl_seconds, ''
     @ '' status, metadata) '' @ ''VALUES (?, ?, ?, ?, ?, ?, ?);''"

definition sql_batch_insert_sessions ::
  "'w sqlite3 \<Rightarrow> session_record list option \<Rightarrow> nat \<Rightarrow> 'w \<times> sql_registry \<Rightarrow> hs_error \<times> 'w" where
  "sql_batch_insert_sessions L records cnt s =
     (case records of
        None \<Rightarrow> (ERR_INVALID_PARAM, fst s)
      | Some rs \<Rightarrow> if cnt = 0 then (ERR_INVALID_PARAM, fst s)
                   else batch_exec_locked L session_batch_sql (map bind_session_row (take cnt rs)) s)"

subsection \<open>Iteration\<close>

datatype any_record = AgentRec agent_record | SkillRec skill_record | SessionRec session_record

text \<open>The caller's buffer must be a record of the iterator's type; the result is what is written to it.\<close>

definition sql_iter_next ::
  "'w sqlite3 \<Rightarrow> airy \<Rightarrow> sql_iter option \<Rightarrow> bool \<Rightarrow> 'w \<Rightarrow> hs_error \<times> any_record option \<times> sql_iter option \<times> 'w" where
  "sql_iter_next L A iter out w =
     (case iter of
        None \<Rightarrow> (ERR_INVALID_PARAM, None, iter, w)
      | Some it \<Rightarrow>
          if \<not> out then (ERR_INVALID_PARAM, None, iter, w)
          else case it_stmt it of
            None \<Rightarrow> (ERR_NOT_FOUND, None, iter, w)
          | Some st \<Rightarrow>
              if \<not> has_more it then (ERR_NOT_FOUND, None, iter, w)
              else case sqlite3_step L st w of
                (rc, w') \<Rightarrow>
                  if rc \<noteq> SQLITE_ROW then (ERR_NOT_FOUND, None, Some (it\<lparr>has_more := False\<rparr>), w')
                  else (SUCCESS, Some (case current_type it of
                            REC_AGENT \<Rightarrow> AgentRec (extract_agent_row L A st w')
                          | REC_SKILL \<Rightarrow> SkillRec (extract_skill_row L A st w')
                          | REC_SESSION \<Rightarrow> SessionRec (extract_session_row L A st w')), iter, w'))"

definition sql_iter_destroy :: "'w sqlite3 \<Rightarrow> sql_iter option \<Rightarrow> 'w \<Rightarrow> 'w" where
  "sql_iter_destroy L iter w =
     (case iter of
        None \<Rightarrow> w
      | Some it \<Rightarrow> (case it_stmt it of None \<Rightarrow> w | Some st \<Rightarrow> sqlite3_finalize L st w))"

end
