(* ===== verification/HS_Sqlite_Spec.thy ===== *)
theory HS_Sqlite_Spec
  imports HS_Sqlite
begin

text \<open>
  What the SQLite backend promises. A batch insertion is a transaction: under the documented
  behaviour of SQLite's transactions (\<open>sqlite_txn\<close>) it stores every row or none, except that a
  failing COMMIT leaves its transaction open. The binders and the row readers agree with the column
  lists in the texts of the statements, so that a stored record reads back unchanged.
\<close>

section \<open>Transactions\<close>

text \<open>
  The hypotheses on SQLite, over an abstract view of its state: \<open>tabs\<close> is the content of the tables
  as the connection sees it, \<open>saved\<close> the content when the open transaction began (None in autocommit
  mode), \<open>stext\<close> and \<open>sargs\<close> the text and the bound values of a statement. \<open>effect\<close> is what an
  insertion does to the tables, None when a constraint refuses it. An error inside a transaction
  either undoes its own statement only or rolls the transaction back.
\<close>

definition insert_texts :: "string set" where
  "insert_texts = {agent_insert_sql, skill_insert_sql, skill_batch_sql, session_insert_sql, session_batch_sql}"

definition kept_or_rolled_back :: "('w \<Rightarrow> 't) \<Rightarrow> ('w \<Rightarrow> 't option) \<Rightarrow> 'w \<Rightarrow> 'w \<Rightarrow> bool" where
  "kept_or_rolled_back tabs saved w w' \<longleftrightarrow>
     tabs w' = tabs w \<and> saved w' = saved w \<or> saved w = Some (tabs w') \<and> saved w' = None"

definition sqlite_statements ::
  "'w sqlite3 \<Rightarrow> ('w \<Rightarrow> 't) \<Rightarrow> ('w \<Rightarrow> 't option) \<Rightarrow> (nat \<Rightarrow> 'w \<Rightarrow> string) \<Rightarrow> (nat \<Rightarrow> 'w \<Rightarrow> nat \<Rightarrow> sqval option)
     \<Rightarrow> (string \<Rightarrow> (nat \<Rightarrow> sqval option) \<Rightarrow> 't \<Rightarrow> 't option) \<Rightarrow> bool" where
  "sqlite_statements L tabs saved stext sargs effect \<longleftrightarrow>
     (\<forall>db sql w st w'. sqlite3_prepare L db sql w = (st, w') \<longrightarrow>
        tabs w' = tabs w \<and> saved w' = saved w
        \<and> (st \<noteq> None \<longrightarrow> stext (the st) w' = sql \<and> sargs (the st) w' = Map.empty))
     \<and> (\<forall>st i v w. let w' = sqlite3_bind L st i v w in
          tabs w' = tabs w \<and> saved w' = saved w \<and> stext st w' = stext st w
          \<and> sargs st w' = (sargs st w)(i \<mapsto> v))
     \<and> (\<forall>st w. let w' = sqlite3_reset L st w in
          tabs w' = tabs w \<and> saved w' = saved w \<and> stext st w' = stext st w \<and> sargs st w' = sargs st w)
     \<and> (\<forall>st w. let w' = sqlite3_finalize L st w in tabs w' = tabs w \<and> saved w' = saved w)
     \<and> (\<forall>st w rc w'. sqlite3_step L st w = (rc, w') \<longrightarrow> stext st w \<in> insert_texts \<longrightarrow>
          stext st w' = stext st w \<and> sargs st w' = sargs st w
          \<and> (if rc = SQLITE_DONE
             then effect (stext st w) (sargs st w) (tabs w) = Some (tabs w') \<and> saved w' = saved w
             else kept_or_rolled_back tabs saved w w'))"

definition sqlite_txn ::
  "'w sqlite3 \<Rightarrow> ('w \<Rightarrow> 't) \<Rightarrow> ('w \<Rightarrow> 't option) \<Rightarrow> (nat \<Rightarrow> 'w \<Rightarrow> string) \<Rightarrow> (nat \<Rightarrow> 'w \<Rightarrow> nat \<Rightarrow> sqval option) \<Rightarrow> bool" where
  "sqlite_txn L tabs saved stext sargs \<longleftrightarrow>
     (\<forall>db w ok w'. sqlite3_exec L db ''BEGIN TRANSACTION;'' w = (ok, w') \<longrightarrow>
        tabs w' = tabs w \<and> (\<forall>st. stext st w' = stext st w \<and> sargs st w' = sargs st w)
        \<and> (if ok then saved w = None \<and> saved w' = Some (tabs w) else saved w' = saved w))
     \<and> (\<forall>db w ok w'. sqlite3_exec L db ''COMMIT;'' w = (ok, w') \<longrightarrow>
          (if ok then saved w \<noteq> None \<and> tabs w' = tabs w \<and> saved w' = None
           else kept_or_rolled_back tabs saved w w'))
     \<and> (\<forall>db w ok w'. sqlite3_exec L db ''ROLLBACK;'' w = (ok, w') \<longrightarrow>
          tabs w' = (case saved w of None \<Rightarrow> tabs w | Some t \<Rightarrow> t) \<and> saved w' = None)"

text \<open>The insertions of a batch, one row after the other; the first refused row ends it.\<close>

definition row_args :: "sqval list \<Rightarrow> nat \<Rightarrow> sqval option" where
  "row_args vals i = (if 1 \<le> i \<and> i \<le> length vals then Some (vals ! (i - 1)) else None)"

fun insert_rows :: "((nat \<Rightarrow> sqval option) \<Rightarrow> 't \<Rightarrow> 't option) \<Rightarrow> sqval list list \<Rightarrow> 't \<Rightarrow> 't option" where
  "insert_rows f [] t = Some t"
| "insert_rows f (r # rs) t = Option.bind (f (row_args r) t) (insert_rows f rs)"

subsection \<open>Binding\<close>

lemma prepare_laws:
  assumes "sqlite_statements L tabs saved stext sargs effect" and "sqlite3_prepare L db sql w = (st, w')"
  shows "tabs w' = tabs w" and "saved w' = saved w"
    and "st = Some k \<Longrightarrow> stext k w' = sql" and "st = Some k \<Longrightarrow> sargs k w' = Map.empty"
  using assms(2) assms(1) [unfolded sqlite_statements_def, THEN conjunct1] by force+

lemma bind_laws:
  assumes "sqlite_statements L tabs saved stext sargs effect"
  shows "tabs (sqlite3_bind L st i v w) = tabs w" and "saved (sqlite3_bind L st i v w) = saved w"
    and "stext st (sqlite3_bind L st i v w) = stext st w"
    and "sargs st (sqlite3_bind L st i v w) = (sargs st w)(i \<mapsto> v)"
  using assms [unfolded sqlite_statements_def, THEN conjunct2, THEN conjunct1] by (simp_all add: Let_def)

lemma reset_laws:
  assumes "sqlite_statements L tabs saved stext sargs effect"
  shows "tabs (sqlite3_reset L st w) = tabs w" and "saved (sqlite3_reset L st w) = saved w"
    and "stext st (sqlite3_reset L st w) = stext st w" and "sargs st (sqlite3_reset L st w) = sargs st w"
  using assms [unfolded sqlite_statements_def, THEN conjunct2, THEN conjunct2, THEN conjunct1]
  by (simp_all add: Let_def)

lemma finalize_laws:
  assumes "sqlite_statements L tabs saved stext sargs effect"
  shows "tabs (sqlite3_finalize L st w) = tabs w" and "saved (sqlite3_finalize L st w) = saved w"
  using assms [unfolded sqlite_statements_def, THEN conjunct2, THEN conjunct2, THEN conjunct2, THEN conjunct1]
  by (simp_all add: Let_def)

lemma step_laws:
  assumes "sqlite_statements L tabs saved stext sargs effect"
    and "sqlite3_step L st w = (rc, w')" and "stext st w \<in> insert_texts"
  shows "stext st w' = stext st w" and "sargs st w' = sargs st w"
    and "rc = SQLITE_DONE \<Longrightarrow> effect (stext st w) (sargs st w) (tabs w) = Some (tabs w') \<and> saved w' = saved w"
    and "rc \<noteq> SQLITE_DONE \<Longrightarrow> kept_or_rolled_back tabs saved w w'"
  using assms(2,3) assms(1) [unfolded sqlite_statements_def, THEN conjunct2, THEN conjunct2, THEN conjunct2, THEN conjunct2]
  by presburger+

lemma bind_from_keeps:
  assumes "sqlite_statements L tabs saved stext sargs effect"
  shows "tabs (bind_from L st i vs w) = tabs w \<and> saved (bind_from L st i vs w) = saved w
    \<and> stext st (bind_from L st i vs w) = stext st w"
  by (induction vs arbitrary: i w) (simp_all add: bind_laws [OF assms])

lemma bind_from_args:
  assumes "sqlite_statements L tabs saved stext sargs effect"
  shows "sargs st (bind_from L st i vs w)
    = (\<lambda>j. if i \<le> j \<and> j < i + length vs then Some (vs ! (j - i)) else sargs st w j)"
  by (induction vs arbitrary: i w)
    (auto simp: bind_laws [OF assms] fun_eq_iff nth_Cons' Suc_diff_le not_le le_Suc_eq)

text \<open>A row binds every parameter of its statement, so no value of the row before survives.\<close>

lemma bind_row:
  assumes "sqlite_statements L tabs saved stext sargs effect"
    and "sargs st w = Map.empty \<or> (\<exists>r. length r = length vs \<and> sargs st w = row_args r)"
  shows "sargs st (bind_from L st 1 vs w) = row_args vs"
  using assms(2) by (auto simp: bind_from_args [OF assms(1)] row_args_def fun_eq_iff)

subsection \<open>The transaction\<close>

lemma begin_laws:
  assumes "sqlite_txn L tabs saved stext sargs" and "sqlite3_exec L db ''BEGIN TRANSACTION;'' w = (ok, w')"
  shows "tabs w' = tabs w" and "stext st w' = stext st w" and "sargs st w' = sargs st w"
    and "ok \<Longrightarrow> saved w = None \<and> saved w' = Some (tabs w)" and "\<not> ok \<Longrightarrow> saved w' = saved w"
  using assms(2) assms(1) [unfolded sqlite_txn_def, THEN conjunct1] by presburger+

lemma commit_laws:
  assumes "sqlite_txn L tabs saved stext sargs" and "sqlite3_exec L db ''COMMIT;'' w = (ok, w')"
  shows "ok \<Longrightarrow> tabs w' = tabs w \<and> saved w' = None" and "\<not> ok \<Longrightarrow> kept_or_rolled_back tabs saved w w'"
  using assms(2) assms(1) [unfolded sqlite_txn_def, THEN conjunct2, THEN conjunct1] by presburger+

lemma rollback_laws:
  assumes "sqlite_txn L tabs saved stext sargs"
  shows "tabs (snd (sqlite3_exec L db ''ROLLBACK;'' w)) = (case saved w of None \<Rightarrow> tabs w | Some t \<Rightarrow> t)"
    and "saved (snd (sqlite3_exec L db ''ROLLBACK;'' w)) = None"
  using assms [unfolded sqlite_txn_def, THEN conjunct2, THEN conjunct2]
  by (metis prod.collapse)+

lemma rollback_after_error:
  assumes "sqlite_txn L tabs saved stext sargs"
    and "kept_or_rolled_back tabs saved w w1" and "saved w = Some t0"
  shows "tabs (snd (sqlite3_exec L db ''ROLLBACK;'' w1)) = t0"
  using assms(2,3) by (auto simp: rollback_laws [OF assms(1)] kept_or_rolled_back_def)

definition bound_alike :: "nat \<Rightarrow> (nat \<Rightarrow> sqval option) \<Rightarrow> bool" where
  "bound_alike n a \<longleftrightarrow> a = Map.empty \<or> (\<exists>r. length r = n \<and> a = row_args r)"

lemma batch_loop_outcome:
  assumes stm: "sqlite_statements L tabs saved stext sargs effect" and txn: "sqlite_txn L tabs saved stext sargs"
    and sql: "sql \<in> insert_texts"
  shows "\<lbrakk>batch_exec_loop L db st recs w = (r, w'); saved w = Some t0; stext st w = sql;
      \<forall>x\<in>set recs. length x = n; bound_alike n (sargs st w)\<rbrakk>
    \<Longrightarrow> (r = SUCCESS \<longrightarrow> saved w' = Some t0 \<and> insert_rows (effect sql) recs (tabs w) = Some (tabs w'))
      \<and> (r \<noteq> SUCCESS \<longrightarrow> saved w' = None \<and> tabs w' = t0)"
proof (induction recs arbitrary: w)
  case Nil
  then show ?case by simp
next
  case (Cons x recs)
  let ?b = "bind_from L st 1 x w"
  obtain rc w1 where step: "sqlite3_step L st ?b = (rc, w1)" by (cases "sqlite3_step L st ?b")
  have b: "tabs ?b = tabs w" "saved ?b = Some t0" "stext st ?b = sql"
    using Cons.prems(2,3) by (simp_all add: bind_from_keeps [OF stm])
  have a: "sargs st ?b = row_args x"
    using Cons.prems(4,5) by (intro bind_row [OF stm]) (simp add: bound_alike_def)
  note laws = step_laws [OF stm step, unfolded b(3) a, OF sql]
  show ?case
  proof (cases "rc = SQLITE_DONE")
    case True
    let ?w2 = "sqlite3_reset L st w1"
    have next_w: "saved ?w2 = Some t0" "stext st ?w2 = sql" "bound_alike n (sargs st ?w2)"
      "effect sql (row_args x) (tabs w) = Some (tabs ?w2)"
      using laws b Cons.prems(4) True by (auto simp: reset_laws [OF stm] bound_alike_def)
    have "batch_exec_loop L db st recs ?w2 = (r, w')"
      using Cons.prems(1) step True by simp
    from Cons.IH [OF this next_w(1,2) _ next_w(3)] Cons.prems(4) show ?thesis
      by (simp add: next_w(4))
  next
    case False
    then have "r = ERR_DB_QUERY_FAILED" and "w' = snd (sqlite3_exec L db ''ROLLBACK;'' w1)"
      using Cons.prems(1) step by simp_all
    then show ?thesis
      using rollback_after_error [OF txn laws(4) [OF False] b(2)] by (simp add: rollback_laws [OF txn])
  qed
qed

text \<open>Inside an open transaction every batch is refused.\<close>

lemma session_begin_laws:
  assumes stm: "sqlite_statements L tabs saved stext sargs effect" and run: "session_begin L sql (w, g) = (res, w1)"
  shows "tabs w1 = tabs w" and "saved w1 = saved w" and "res = Inl e \<Longrightarrow> e \<noteq> SUCCESS"
    and "res = Inr st \<Longrightarrow> stext st w1 = sql \<and> sargs st w1 = Map.empty"
  using run prepare_laws [OF stm] by (auto simp: session_begin_def split: if_splits prod.splits option.splits)

lemma batch_inside_transaction:
  assumes stm: "sqlite_statements L tabs saved stext sargs effect" and txn: "sqlite_txn L tabs saved stext sargs"
    and "saved w = Some t0" and "batch_exec_locked L sql recs (w, g) = (r, w')"
  shows "r \<noteq> SUCCESS \<and> tabs w' = tabs w \<and> saved w' = saved w"
proof (cases "session_begin L sql (w, g)")
  case (Pair res w1)
  note sb = session_begin_laws [OF stm Pair]
  show ?thesis
  proof (cases res)
    case (Inl e)
    then show ?thesis using assms(4) Pair sb by (simp add: batch_exec_locked_def)
  next
    case (Inr st)
    obtain ok w2 where b: "sqlite3_exec L (the (reg_db g)) ''BEGIN TRANSACTION;'' w1 = (ok, w2)"
      by (cases "sqlite3_exec L (the (reg_db g)) ''BEGIN TRANSACTION;'' w1")
    have "\<not> ok" using begin_laws(4) [OF txn b] sb(1,2) assms(3) by auto
    then have "r = ERR_DB_QUERY_FAILED" and "w' = sqlite3_finalize L st w2"
      using assms(4) Pair Inr b by (simp_all add: batch_exec_locked_def Let_def)
    then show ?thesis
      using begin_laws(1,5) [OF txn b] \<open>\<not> ok\<close> sb(1,2) by (simp add: finalize_laws [OF stm])
  qed
qed

text \<open>The part of a batch between an opened transaction and its end.\<close>

lemma batch_open_outcome:
  assumes stm: "sqlite_statements L tabs saved stext sargs effect" and txn: "sqlite_txn L tabs saved stext sargs"
    and sql: "sql \<in> insert_texts" "stext st w2 = sql" and len: "\<forall>x\<in>set recs. length x = n" and none: "sargs st w2 = Map.empty"
    and begun: "session_begin L sql (w, g) = (Inr st, w1)"
      "sqlite3_exec L (the (reg_db g)) ''BEGIN TRANSACTION;'' w1 = (True, w2)" "saved w2 = Some (tabs w)" "tabs w2 = tabs w"
    and run: "batch_exec_locked L sql recs (w, g) = (r, w')"
  shows "(r = SUCCESS \<longrightarrow> saved w' = None \<and> insert_rows (effect sql) recs (tabs w) = Some (tabs w'))
    \<and> (r \<noteq> SUCCESS \<longrightarrow> saved w' = None \<and> tabs w' = tabs w
         \<or> saved w' = Some (tabs w) \<and> insert_rows (effect sql) recs (tabs w) = Some (tabs w'))"
proof -
  let ?db = "the (reg_db g)"
  obtain r3 w3 where lp: "batch_exec_loop L ?db st recs w2 = (r3, w3)" by (cases "batch_exec_loop L ?db st recs w2")
  have "bound_alike n (sargs st w2)" using none by (simp add: bound_alike_def)
  note out = batch_loop_outcome [OF stm txn sql(1) lp begun(3) sql(2) len this, unfolded begun(4)]
  obtain ok4 w4 where c: "sqlite3_exec L ?db ''COMMIT;'' w3 = (ok4, w4)" by (cases "sqlite3_exec L ?db ''COMMIT;'' w3")
  note cl = commit_laws [OF txn c]
  show ?thesis
  proof (cases "r3 = SUCCESS")
    case False
    then have "r = r3" and "w' = sqlite3_finalize L st w3"
      using run begun lp by (simp_all add: batch_exec_locked_def Let_def)
    then show ?thesis using out False by (simp add: finalize_laws [OF stm])
  next
    case r3: True
    then have r: "r = (if ok4 then SUCCESS else ERR_DB_QUERY_FAILED)" "w' = sqlite3_finalize L st w4"
      using run begun lp c by (simp_all add: batch_exec_locked_def Let_def)
    then show ?thesis
      using out r3 cl by (cases ok4) (auto simp: finalize_laws [OF stm] kept_or_rolled_back_def)
  qed
qed

lemma batch_exec_outcome:
  assumes "sqlite_statements L tabs saved stext sargs effect" and "sqlite_txn L tabs saved stext sargs"
    and "sql \<in> insert_texts" and "\<forall>x\<in>set recs. length x = n"
    and "saved w = None" and "batch_exec_locked L sql recs (w, g) = (r, w')"
  shows "(r = SUCCESS \<longrightarrow> saved w' = None \<and> insert_rows (effect sql) recs (tabs w) = Some (tabs w'))
    \<and> (r \<noteq> SUCCESS \<longrightarrow> saved w' = None \<and> tabs w' = tabs w
         \<or> saved w' = Some (tabs w) \<and> insert_rows (effect sql) recs (tabs w) = Some (tabs w'))"
proof (cases "session_begin L sql (w, g)")
  case (Pair res w1)
  note stm = assms(1) and txn = assms(2)
  note sb = session_begin_laws [OF stm Pair]
  show ?thesis
  proof (cases res)
    case (Inl e)
    then show ?thesis using assms(5,6) Pair sb by (simp add: batch_exec_locked_def)
  next
    case (Inr st)
    obtain ok w2 where b: "sqlite3_exec L (the (reg_db g)) ''BEGIN TRANSACTION;'' w1 = (ok, w2)"
      by (cases "sqlite3_exec L (the (reg_db g)) ''BEGIN TRANSACTION;'' w1")
    note bl = begin_laws [OF txn b]
    show ?thesis
    proof (cases ok)
      case False
      then have "r = ERR_DB_QUERY_FAILED" and "w' = sqlite3_finalize L st w2"
        using assms(6) Pair Inr b by (simp_all add: batch_exec_locked_def Let_def)
      then show ?thesis using bl(1,5) False sb(1,2) assms(5) by (simp add: finalize_laws [OF stm])
    next
      case True
      have b1: "sqlite3_exec L (the (reg_db g)) ''BEGIN TRANSACTION;'' w1 = (True, w2)" using b True by simp
      have "stext st w2 = sql" "sargs st w2 = Map.empty" "saved w2 = Some (tabs w)" "tabs w2 = tabs w"
        using bl True sb(1) sb(4) [OF Inr] by simp_all
      from batch_open_outcome [OF stm txn assms(3) this(1) assms(4) this(2) Pair [unfolded Inr] b1 this(3,4) assms(6)]
      show ?thesis .
    qed
  qed
qed

text \<open>
  C7. A batch insertion is a transaction. On a connection in autocommit mode it returns SUCCESS only
  when every row was inserted, in the order given, and the transaction is closed. Any failure
  leaves the tables as they were with no transaction open, whichever call of SQLite failed - with
  one exception: when COMMIT fails and SQLite keeps the transaction, it stays open over all the
  inserted rows, and every later batch on the connection fails.
\<close>

theorem batch_all_or_nothing:
  assumes "sqlite_statements L tabs saved stext sargs effect" and "sqlite_txn L tabs saved stext sargs"
    and "sql \<in> insert_texts" and "\<forall>x\<in>set recs. length x = n"
    and "saved w = None" and "batch_exec_locked L sql recs (w, g) = (r, w')"
  shows "(r = SUCCESS \<longrightarrow> saved w' = None \<and> insert_rows (effect sql) recs (tabs w) = Some (tabs w'))
    \<and> (r \<noteq> SUCCESS \<longrightarrow>
         saved w' = None \<and> tabs w' = tabs w
         \<or> saved w' = Some (tabs w) \<and> insert_rows (effect sql) recs (tabs w) = Some (tabs w')
           \<and> (\<forall>sql' recs'. fst (batch_exec_locked L sql' recs' (w', g)) \<noteq> SUCCESS))"
proof -
  have "fst (batch_exec_locked L sql' recs' (w', g)) \<noteq> SUCCESS" if "saved w' = Some (tabs w)" for sql' recs'
    using batch_inside_transaction [OF assms(1,2) that, of sql' recs' g] by (metis prod.collapse)
  then show ?thesis using batch_exec_outcome [OF assms] by blast
qed

text \<open>
  A database of one connection and one statement that keeps the first two columns of every row and
  refuses a repeated key; \<open>busy\<close> makes COMMIT fail.
\<close>

record key_db =
  kept :: "(string \<times> sqval \<times> sqval option) list"
  kept_saved :: "(string \<times> sqval \<times> sqval option) list option"
  cur_text :: string
  cur_args :: "(nat \<times> sqval) list"
  busy :: bool

definition key_insert ::
  "string \<Rightarrow> (nat \<Rightarrow> sqval option) \<Rightarrow> (string \<times> sqval \<times> sqval option) list \<Rightarrow> (string \<times> sqval \<times> sqval option) list option" where
  "key_insert sql a t =
     (case a 1 of
        None \<Rightarrow> None
      | Some k \<Rightarrow> if (sql, k) \<in> set (map (\<lambda>(s, k, _). (s, k)) t) then None else Some (t @ [(sql, k, a 2)]))"

definition key_exec :: "nat \<Rightarrow> string \<Rightarrow> key_db \<Rightarrow> bool \<times> key_db" where
  "key_exec db sql w =
     (if sql = ''BEGIN TRANSACTION;''
      then if kept_saved w = None then (True, w\<lparr>kept_saved := Some (kept w)\<rparr>) else (False, w)
      else if sql = ''COMMIT;''
      then if busy w \<or> kept_saved w = None then (False, w) else (True, w\<lparr>kept_saved := None\<rparr>)
      else if sql = ''ROLLBACK;''
      then (case kept_saved w of None \<Rightarrow> (False, w) | Some t \<Rightarrow> (True, w\<lparr>kept := t, kept_saved := None\<rparr>))
      else (True, w))"

definition key_step :: "nat \<Rightarrow> key_db \<Rightarrow> sqrc \<times> key_db" where
  "key_step st w =
     (case key_insert (cur_text w) (map_of (cur_args w)) (kept w) of
        None \<Rightarrow> (SQLITE_ERROR, w)
      | Some t \<Rightarrow> (SQLITE_DONE, w\<lparr>kept := t\<rparr>))"

definition key_lib :: "key_db sqlite3" where
  "key_lib = \<lparr>sqlite3_open = (\<lambda>_ w. (True, Some 1, w)), sqlite3_close = (\<lambda>_ w. w), sqlite3_exec = key_exec,
     sqlite3_prepare = (\<lambda>_ sql w. (Some 1, w\<lparr>cur_text := sql, cur_args := []\<rparr>)),
     sqlite3_bind = (\<lambda>_ i v w. w\<lparr>cur_args := (i, v) # cur_args w\<rparr>), sqlite3_step = key_step,
     sqlite3_reset = (\<lambda>_ w. w), sqlite3_finalize = (\<lambda>_ w. w), sqlite3_column_text = (\<lambda>_ _ _. None),
     sqlite3_column_int64 = (\<lambda>_ _ _. 0), make_dir = (\<lambda>_ w. w)\<rparr>"

lemma key_lib_statements:
  "sqlite_statements key_lib kept kept_saved (\<lambda>_. cur_text) (\<lambda>_ w. map_of (cur_args w)) key_insert"
  by (auto simp: sqlite_statements_def key_lib_def key_step_def kept_or_rolled_back_def Let_def
      split: option.splits)

lemma key_lib_txn: "sqlite_txn key_lib kept kept_saved (\<lambda>_. cur_text) (\<lambda>_ w. map_of (cur_args w))"
  by (auto simp: sqlite_txn_def key_lib_def key_exec_def kept_or_rolled_back_def
      split: option.splits if_splits)

definition key_db0 :: "bool \<Rightarrow> key_db" where
  "key_db0 b = \<lparr>kept = [], kept_saved = None, cur_text = [], cur_args = [], busy = b\<rparr>"

definition demo_skill :: "string \<Rightarrow> skill_record" where
  "demo_skill k = \<lparr>skill_id = k, skill_name = ''n'', skill_version = ''1'', library_path = ''/l'',
     manifest_path = ''/m'', installed_at = 7\<rparr>"

definition demo_batch :: "bool \<Rightarrow> string list \<Rightarrow> hs_error \<times> key_db" where
  "demo_batch b ks =
     batch_exec_locked key_lib skill_batch_sql (map (bind_skill_row \<circ> demo_skill) ks)
       (key_db0 b, \<lparr>reg_db = Some 1, db_path = [], sql_initialized = True\<rparr>)"

lemma key_exec_eval:
  "key_exec db ''BEGIN TRANSACTION;'' w =
     (if kept_saved w = None then (True, w\<lparr>kept_saved := Some (kept w)\<rparr>) else (False, w))"
  "key_exec db ''COMMIT;'' w =
     (if busy w \<or> kept_saved w = None then (False, w) else (True, w\<lparr>kept_saved := None\<rparr>))"
  "key_exec db ''ROLLBACK;'' w =
     (case kept_saved w of None \<Rightarrow> (False, w) | Some t \<Rightarrow> (True, w\<lparr>kept := t, kept_saved := None\<rparr>))"
  by (simp_all add: key_exec_def)

lemma key_lib_sel:
  "sqlite3_exec key_lib = key_exec" "sqlite3_step key_lib = key_step"
  "sqlite3_prepare key_lib db sql w = (Some 1, w\<lparr>cur_text := sql, cur_args := []\<rparr>)"
  "sqlite3_reset key_lib st w = w" "sqlite3_finalize key_lib st w = w"
  by (simp_all add: key_lib_def)

lemma key_bound_row:
  "kept (bind_from key_lib st i vs w) = kept w" "kept_saved (bind_from key_lib st i vs w) = kept_saved w"
  "cur_text (bind_from key_lib st i vs w) = cur_text w"
  using bind_from_keeps [OF key_lib_statements, of st i vs w] by simp_all

lemma key_row:
  "key_step st (bind_from key_lib st (Suc 0) (k # v # r) w) =
     (let b = bind_from key_lib st (Suc 0) (k # v # r) w in
      if (cur_text w, k) \<in> set (map (\<lambda>(s, k, _). (s, k)) (kept w)) then (SQLITE_ERROR, b)
      else (SQLITE_DONE, b\<lparr>kept := kept w @ [(cur_text w, k, Some v)]\<rparr>))"
proof -
  have "map_of (cur_args (bind_from key_lib st (Suc 0) (k # v # r) w)) j =
    (if Suc 0 \<le> j \<and> j < Suc 0 + length (k # v # r) then Some ((k # v # r) ! (j - Suc 0))
     else map_of (cur_args w) j)" for j
    by (simp only: bind_from_args [OF key_lib_statements])
  then show ?thesis
    by (simp add: key_step_def key_insert_def key_bound_row Let_def del: bind_from.simps)
qed

lemma demo_batch_refused: "fst (demo_batch False [''a'', ''b'', ''a'']) = ERR_DB_QUERY_FAILED"
  by (simp add: demo_batch_def demo_skill_def batch_exec_locked_def session_begin_def bind_skill_row_def
      key_lib_sel key_db0_def key_exec_eval key_row key_bound_row Let_def del: bind_from.simps)

theorem batch_all_or_nothing_witness:
  "fst (demo_batch False [''a'', ''b'', ''a'']) = ERR_DB_QUERY_FAILED
   \<and> (kept_saved (snd (demo_batch False [''a'', ''b'', ''a''])) = None
        \<and> kept (snd (demo_batch False [''a'', ''b'', ''a''])) = []
      \<or> kept_saved (snd (demo_batch False [''a'', ''b'', ''a''])) = Some [])"
proof -
  have run: "batch_exec_locked key_lib skill_batch_sql (map (bind_skill_row \<circ> demo_skill) [''a'', ''b'', ''a''])
      (key_db0 False, \<lparr>reg_db = Some 1, db_path = [], sql_initialized = True\<rparr>)
    = (fst (demo_batch False [''a'', ''b'', ''a'']), snd (demo_batch False [''a'', ''b'', ''a'']))"
    by (simp only: demo_batch_def prod.collapse)
  have "kept_saved (key_db0 False) = None" "kept (key_db0 False) = []" by (simp_all add: key_db0_def)
  moreover have "skill_batch_sql \<in> insert_texts" by (simp add: insert_texts_def)
  moreover have "\<forall>x\<in>set (map (bind_skill_row \<circ> demo_skill) [''a'', ''b'', ''a'']). length x = 6"
    by (simp add: bind_skill_row_def)
  ultimately show ?thesis
    using batch_all_or_nothing [OF key_lib_statements key_lib_txn _ _ _ run, of 6] demo_batch_refused by simp blast
qed

section \<open>Columns\<close>

text \<open>
  The column lists of the statements, read from their texts: an INSERT names its columns between
  parentheses, a SELECT before FROM, an UPDATE between SET and WHERE, each followed by \<open>= ?\<close>; a
  CREATE TABLE names each column as the first word of its definition.
\<close>

fun starts_with :: "string \<Rightarrow> string \<Rightarrow> bool" where
  "starts_with [] s = True"
| "starts_with (p # ps) [] = False"
| "starts_with (p # ps) (c # s) = (if p = c then starts_with ps s else False)"

fun after_word :: "string \<Rightarrow> string \<Rightarrow> string" where
  "after_word pat [] = []"
| "after_word pat (c # s) = (if starts_with pat (c # s) then drop (length pat) (c # s) else after_word pat s)"

fun before_word :: "string \<Rightarrow> string \<Rightarrow> string" where
  "before_word pat [] = []"
| "before_word pat (c # s) = (if starts_with pat (c # s) then [] else c # before_word pat s)"

fun pieces :: "string \<Rightarrow> string \<Rightarrow> string list" where
  "pieces cur [] = [cur]"
| "pieces cur (c # s) = (if c = CHR '','' then cur # pieces [] s else pieces (cur @ [c]) s)"

definition first_word :: "string \<Rightarrow> string" where
  "first_word s = takeWhile (\<lambda>c. c \<notin> {CHR '' '', CHR ''=''}) (dropWhile (\<lambda>c. c = CHR '' '') s)"

definition column_names :: "string \<Rightarrow> string list" where
  "column_names s = map first_word (pieces [] s)"

definition insert_columns :: "string \<Rightarrow> string list" where
  "insert_columns sql = column_names (before_word '')'' (after_word ''('' sql))"

definition select_columns :: "string \<Rightarrow> string list" where
  "select_columns sql = column_names (before_word '' FROM '' (after_word ''SELECT '' sql))"

definition update_columns :: "string \<Rightarrow> string list" where
  "update_columns sql = column_names (before_word '' WHERE '' (after_word '' SET '' sql))"

definition table_columns :: "string \<Rightarrow> string list" where
  "table_columns sql = column_names (before_word '');'' (after_word ''('' sql))"

lemma agent_columns:
  "insert_columns agent_insert_sql = [''id'', ''name'', ''type'', ''version'', ''status'', ''config_path'',
     ''created_at'', ''updated_at'', ''priority'', ''tags'']"
  "select_columns agent_select_sql = [''id'', ''name'', ''type'', ''version'', ''status'', ''config_path'',
     ''created_at'', ''updated_at'', ''priority'', ''tags'']"
  "update_columns agent_update_sql = [''name'', ''type'', ''version'', ''status'', ''config_path'', ''updated_at'',
     ''priority'', ''tags'']"
  by code_simp+

lemma skill_columns:
  "insert_columns skill_insert_sql = [''id'', ''name'', ''version'', ''library_path'', ''manifest_path'', ''installed_at'']"
  "insert_columns skill_batch_sql = [''id'', ''name'', ''version'', ''library_path'', ''manifest_path'', ''installed_at'']"
  "select_columns skill_select_sql = [''id'', ''name'', ''version'', ''library_path'', ''manifest_path'', ''installed_at'']"
  by code_simp+

lemma session_columns:
  "insert_columns session_insert_sql = [''id'', ''user_id'', ''created_at'', ''last_active_at'', ''ttl_seconds'',
     ''status'', ''metadata'']"
  "insert_columns session_batch_sql = [''id'', ''user_id'', ''created_at'', ''last_active_at'', ''ttl_seconds'',
     ''status'', ''metadata'']"
  "select_columns session_select_sql = [''id'', ''user_id'', ''created_at'', ''last_active_at'', ''ttl_seconds'',
     ''status'', ''metadata'']"
  "update_columns session_update_sql = [''user_id'', ''last_active_at'', ''ttl_seconds'', ''status'', ''metadata'']"
  by code_simp+

lemma agents_table_columns: "table_columns agents_table_sql = insert_columns agent_insert_sql"
  unfolding agent_columns by code_simp

lemma skills_table_columns: "table_columns skills_table_sql = insert_columns skill_insert_sql"
  unfolding skill_columns by code_simp

lemma sessions_table_columns: "table_columns sessions_table_sql = insert_columns session_insert_sql"
  unfolding session_columns by code_simp

text \<open>The text of the filtered agent query never reaches its buffer's end and keeps the column list.\<close>

lemma agent_query_text:
  "agent_query_sql ft fs =
     ''SELECT id, name, type, version, status, config_path, created_at, ''
     @ ''updated_at, priority, tags FROM agents WHERE 1=1''
     @ (if ft \<noteq> None then '' AND type = ?'' else []) @ (if fs \<noteq> None then '' AND status = ?'' else [])"
  by (simp add: agent_query_sql_def append_buf_def snprintf_buf_def)

lemma agent_query_columns: "select_columns (agent_query_sql ft fs) = insert_columns agent_insert_sql"
  unfolding agent_columns agent_query_text by (cases ft; cases fs; simp; code_simp)

section \<open>Rows\<close>

text \<open>
  A statement stands on a row when its columns, in the order of the SELECT, hold the row's values.
\<close>

definition row_of :: "string list \<Rightarrow> sqval list \<Rightarrow> string \<Rightarrow> sqval option" where
  "row_of cols vals = map_of (zip cols vals)"

definition holds_value :: "'w sqlite3 \<Rightarrow> nat \<Rightarrow> nat \<Rightarrow> 'w \<Rightarrow> sqval option \<Rightarrow> bool" where
  "holds_value L st i w v =
     (case v of
        Some (SqText t) \<Rightarrow> sqlite3_column_text L st i w = Some t
      | Some (SqInt n) \<Rightarrow> sqlite3_column_int64 L st i w = n
      | None \<Rightarrow> sqlite3_column_text L st i w = None \<and> sqlite3_column_int64 L st i w = 0)"

definition on_row :: "'w sqlite3 \<Rightarrow> nat \<Rightarrow> 'w \<Rightarrow> string list \<Rightarrow> (string \<Rightarrow> sqval option) \<Rightarrow> bool" where
  "on_row L st w cols row \<longleftrightarrow> (\<forall>i<length cols. holds_value L st i w (row (cols ! i)))"

text \<open>The C records: every string is in its array, with the terminator.\<close>

definition agent_fits :: "agent_record \<Rightarrow> bool" where
  "agent_fits r \<longleftrightarrow> length (agent_id r) < 128 \<and> length (agent_name r) < 256 \<and> length (agent_type r) < 64
     \<and> length (agent_version r) < 32 \<and> length (agent_status r) < 32 \<and> length (config_path r) < 512
     \<and> length (tags r) < 256"

definition skill_fits :: "skill_record \<Rightarrow> bool" where
  "skill_fits r \<longleftrightarrow> length (skill_id r) < 128 \<and> length (skill_name r) < 256 \<and> length (skill_version r) < 32
     \<and> length (library_path r) < 512 \<and> length (manifest_path r) < 512"

definition session_fits :: "session_record \<Rightarrow> bool" where
  "session_fits r \<longleftrightarrow> length (session_id r) < 128 \<and> length (user_id r) < 128
     \<and> length (session_status r) < 32 \<and> length (metadata r) < 512"

lemma text_back:
  "strncpy_ok A \<Longrightarrow> holds_value L st i w (Some (SqText t)) \<Longrightarrow> length t < n \<Longrightarrow> copy_text_col L A st i n w = t"
  by (simp add: strncpy_ok_def holds_value_def copy_text_col_def)

lemma int_back: "holds_value L st i w (Some (SqInt n)) \<Longrightarrow> sqlite3_column_int64 L st i w = n"
  by (simp add: holds_value_def)

lemma scast_back: "ucast (scast (n :: u32) :: u64) = n"
  by (rule bit_word_eqI) (auto simp: bit_simps)

lemma int32_back: "holds_value L st i w (Some (bind_int n)) \<Longrightarrow> column_int L st i w = n"
  by (simp add: holds_value_def bind_int_def column_int_def scast_back)

lemmas value_back = text_back int_back int32_back

lemmas read_row = on_row_def row_of_def All_less_Suc numeral_eq_Suc value_back

lemma agent_row_back:
  assumes "strncpy_ok A" and "agent_fits r"
    and "on_row L st w (insert_columns agent_insert_sql) (row_of (insert_columns agent_insert_sql) (bind_agent_record r))"
  shows "extract_agent_row L A st w = r"
  using assms
  by (cases r) (simp add: agent_columns extract_agent_row_def agent_fits_def bind_agent_record_def read_row)

lemma agent_row_updated:
  assumes "strncpy_ok A" and "agent_fits r" and "agent_id r = agent_id r0"
    and "on_row L st w (select_columns agent_select_sql)
           (row_of (insert_columns agent_insert_sql) (bind_agent_record r0)
            ++ row_of (update_columns agent_update_sql) (bind_agent_update r))"
  shows "extract_agent_row L A st w = r\<lparr>agent_created_at := agent_created_at r0\<rparr>"
  using assms
  by (cases r) (simp add: agent_columns extract_agent_row_def agent_fits_def bind_agent_record_def
      bind_agent_update_def read_row)

lemma skill_row_back:
  assumes "strncpy_ok A" and "skill_fits r" and "ins \<in> {skill_insert_sql, skill_batch_sql}"
    and "on_row L st w (select_columns skill_select_sql) (row_of (insert_columns ins) (bind_skill_row r))"
  shows "extract_skill_row L A st w = r"
  using assms
  by (cases r) (auto simp: skill_columns extract_skill_row_def skill_fits_def bind_skill_row_def read_row)

lemma session_row_back:
  assumes "strncpy_ok A" and "session_fits r" and "ins \<in> {session_insert_sql, session_batch_sql}"
    and "on_row L st w (select_columns session_select_sql) (row_of (insert_columns ins) (bind_session_row r))"
  shows "extract_session_row L A st w = r"
  using assms
  by (cases r) (auto simp: session_columns extract_session_row_def session_fits_def bind_session_row_def read_row)

lemma session_row_updated:
  assumes "strncpy_ok A" and "session_fits r" and "session_id r = session_id r0"
    and "on_row L st w (select_columns session_select_sql)
           (row_of (insert_columns session_insert_sql) (bind_session_row r0)
            ++ row_of (update_columns session_update_sql) (bind_session_update r))"
  shows "extract_session_row L A st w = r\<lparr>session_created_at := session_created_at r0\<rparr>"
  using assms
  by (cases r) (simp add: session_columns extract_session_row_def session_fits_def bind_session_row_def
      bind_session_update_def read_row)

text \<open>
  C27. What the binders store is what the readers return. Read under the column names in the texts
  of the statements: an agent, skill or session whose strings fit their arrays, inserted singly or
  in a batch, is returned unchanged by the row reader on a row of its SELECT (for agents also of every
  filtered query), with the 32-bit fields sign-extended and cut back; after its UPDATE the reader
  returns the new record, except that the creation time stays that of the insertion.
\<close>

theorem sql_rows_roundtrip:
  assumes "strncpy_ok A"
  shows "(agent_fits a \<and> sel \<in> {agent_select_sql, agent_query_sql ft fs}
        \<and> on_row L st w (select_columns sel) (row_of (insert_columns agent_insert_sql) (bind_agent_record a))
      \<longrightarrow> extract_agent_row L A st w = a)
    \<and> (agent_fits a \<and> agent_id a = agent_id a0
        \<and> on_row L st w (select_columns agent_select_sql)
            (row_of (insert_columns agent_insert_sql) (bind_agent_record a0)
             ++ row_of (update_columns agent_update_sql) (bind_agent_update a))
      \<longrightarrow> extract_agent_row L A st w = a\<lparr>agent_created_at := agent_created_at a0\<rparr>)
    \<and> (skill_fits k \<and> ins \<in> {skill_insert_sql, skill_batch_sql}
        \<and> on_row L st w (select_columns skill_select_sql) (row_of (insert_columns ins) (bind_skill_row k))
      \<longrightarrow> extract_skill_row L A st w = k)
    \<and> (session_fits s \<and> ins' \<in> {session_insert_sql, session_batch_sql}
        \<and> on_row L st w (select_columns session_select_sql)
            (row_of (insert_columns ins') (bind_session_row s))
      \<longrightarrow> extract_session_row L A st w = s)
    \<and> (session_fits s \<and> session_id s = session_id s0
        \<and> on_row L st w (select_columns session_select_sql)
            (row_of (insert_columns session_insert_sql) (bind_session_row s0)
             ++ row_of (update_columns session_update_sql) (bind_session_update s))
      \<longrightarrow> extract_session_row L A st w = s\<lparr>session_created_at := session_created_at s0\<rparr>)"
proof (intro conjI impI)
  assume a: "agent_fits a \<and> sel \<in> {agent_select_sql, agent_query_sql ft fs}
    \<and> on_row L st w (select_columns sel) (row_of (insert_columns agent_insert_sql) (bind_agent_record a))"
  then have "select_columns sel = insert_columns agent_insert_sql"
    using agent_query_columns agent_columns(1,2) by auto
  then show "extract_agent_row L A st w = a" using a agent_row_back [OF assms, of a L st w] by simp
qed (elim conjE, rule agent_row_updated [OF assms] skill_row_back [OF assms] session_row_back [OF assms]
    session_row_updated [OF assms]; assumption)+

text \<open>A statement whose state is the row it stands on.\<close>

definition row_lib :: "sqval list sqlite3" where
  "row_lib = \<lparr>sqlite3_open = (\<lambda>_ w. (True, Some 1, w)), sqlite3_close = (\<lambda>_ w. w), sqlite3_exec = (\<lambda>_ _ w. (True, w)),
     sqlite3_prepare = (\<lambda>_ sql w. (Some 1, w)), sqlite3_bind = (\<lambda>_ i v w. w), sqlite3_step = (\<lambda>_ w. (SQLITE_ROW, w)),
     sqlite3_reset = (\<lambda>_ w. w), sqlite3_finalize = (\<lambda>_ w. w),
     sqlite3_column_text = (\<lambda>_ i w. case w ! i of SqText t \<Rightarrow> Some t | SqInt _ \<Rightarrow> None),
     sqlite3_column_int64 = (\<lambda>_ i w. case w ! i of SqInt n \<Rightarrow> n | SqText _ \<Rightarrow> 0), make_dir = (\<lambda>_ w. w)\<rparr>"

definition demo_agent :: "string \<Rightarrow> u64 \<Rightarrow> agent_record" where
  "demo_agent nm created = \<lparr>agent_id = ''a1'', agent_name = nm, agent_type = ''planner'', agent_version = ''1'',
     agent_status = ''on'', config_path = ''/c'', agent_created_at = created, agent_updated_at = 9,
     priority = - 1, tags = []\<rparr>"

theorem sql_rows_roundtrip_witness:
  "extract_agent_row row_lib demo_airy 1 (bind_agent_record (demo_agent ''n'' 5)) = demo_agent ''n'' 5"
proof -
  have A: "strncpy_ok demo_airy" by (simp add: strncpy_ok_def demo_airy_def)
  have "on_row row_lib 1 (bind_agent_record r) (select_columns agent_select_sql)
      (row_of (insert_columns agent_insert_sql) (bind_agent_record r))" for r
    by (simp add: agent_columns bind_agent_record_def on_row_def row_of_def All_less_Suc numeral_eq_Suc
        holds_value_def row_lib_def bind_int_def)
  moreover have "agent_fits (demo_agent ''n'' 5)" by (simp add: agent_fits_def demo_agent_def)
  ultimately show ?thesis
    using sql_rows_roundtrip [OF A, of "demo_agent ''n'' 5" agent_select_sql None None row_lib 1] by blast
qed

end
