(* ===== verification/HS_Sqlite_Rows.thy ===== *)
theory HS_Sqlite_Rows
  imports HS_Sqlite_Spec
begin

text \<open>
  The SQLite backend as a store of records. The statements of the backend have four shapes (INSERT,
  UPDATE and DELETE by id, SELECT by id); what SQLite does for them is written down as functions
  on tables of rows that read table and columns from the text of the statement. Under the hypothesis
  that SQLite does this (\<open>sqlite_crud\<close>) every operation on agents, skills and sessions is an
  operation on a map from ids to records, through one contract for the three kinds of record (\<open>sql_domain\<close>).
\<close>

section \<open>The statements on rows\<close>

text \<open>A row gives each column its value, None for NULL; a table is its rows in insertion order.\<close>

type_synonym sql_row = "string \<Rightarrow> sqval option"
type_synonym sql_tables = "string \<Rightarrow> sql_row list"

definition table_after :: "string \<Rightarrow> string \<Rightarrow> string" where
  "table_after kw sql = first_word (after_word kw sql)"

text \<open>The values of the parameters 1, 2, ... under the names of their columns.\<close>

definition bound_row :: "string list \<Rightarrow> (nat \<Rightarrow> sqval option) \<Rightarrow> sql_row" where
  "bound_row cols a c = Option.bind (map_of (zip cols (map a [1..<Suc (length cols)])) c) (\<lambda>v. v)"

definition has_id :: "sqval option \<Rightarrow> sql_row \<Rightarrow> bool" where
  "has_id v row \<longleftrightarrow> v \<noteq> None \<and> row ''id'' = v"

text \<open>
  id is the primary key: an insertion of an id that the table holds is refused. An update sets its
  columns in the rows with the id that is the parameter after them; a deletion and a selection take
  the id as their only parameter.
\<close>

definition sql_insert :: "string \<Rightarrow> (nat \<Rightarrow> sqval option) \<Rightarrow> sql_tables \<Rightarrow> sql_tables option" where
  "sql_insert sql a t =
     (let tb = table_after ''INSERT INTO '' sql; row = bound_row (insert_columns sql) a
      in if list_ex (has_id (row ''id'')) (t tb) then None else Some (t(tb := t tb @ [row])))"

definition sql_update :: "string \<Rightarrow> (nat \<Rightarrow> sqval option) \<Rightarrow> sql_tables \<Rightarrow> sql_tables" where
  "sql_update sql a t =
     (let tb = table_after ''UPDATE '' sql; cols = update_columns sql
      in t(tb := map (\<lambda>row. if has_id (a (Suc (length cols))) row
                            then (\<lambda>c. if c \<in> set cols then bound_row cols a c else row c) else row) (t tb)))"

definition sql_delete :: "string \<Rightarrow> (nat \<Rightarrow> sqval option) \<Rightarrow> sql_tables \<Rightarrow> sql_tables" where
  "sql_delete sql a t = (let tb = table_after ''DELETE FROM '' sql in t(tb := filter (\<lambda>row. \<not> has_id (a 1) row) (t tb)))"

definition sql_select :: "string \<Rightarrow> (nat \<Rightarrow> sqval option) \<Rightarrow> sql_tables \<Rightarrow> sql_row option" where
  "sql_select sql a t = find (has_id (a 1)) (t (table_after '' FROM '' sql))"

definition update_texts :: "string set" where
  "update_texts = {agent_update_sql, session_update_sql}"

definition delete_texts :: "string set" where
  "delete_texts = {''DELETE FROM agents WHERE id = ?;'', ''DELETE FROM skills WHERE id = ?;'',
     ''DELETE FROM sessions WHERE id = ?;''}"

definition select_texts :: "string set" where
  "select_texts = {agent_select_sql, skill_select_sql, session_select_sql}"

definition write_effect :: "string \<Rightarrow> (nat \<Rightarrow> sqval option) \<Rightarrow> sql_tables \<Rightarrow> sql_tables option" where
  "write_effect sql a t =
     (if sql \<in> insert_texts then sql_insert sql a t
      else if sql \<in> update_texts then Some (sql_update sql a t)
      else Some (sql_delete sql a t))"

text \<open>
  The hypothesis on SQLite: a step of a writing statement has the effect above and is done, or it
  fails and undoes its own changes (or the whole open transaction); a step of a selection stands
  on the row or reports that there is none, or fails.
\<close>

definition sqlite_crud ::
  "'w sqlite3 \<Rightarrow> ('w \<Rightarrow> sql_tables) \<Rightarrow> ('w \<Rightarrow> sql_tables option) \<Rightarrow> (nat \<Rightarrow> 'w \<Rightarrow> string)
     \<Rightarrow> (nat \<Rightarrow> 'w \<Rightarrow> nat \<Rightarrow> sqval option) \<Rightarrow> bool" where
  "sqlite_crud L tabs saved stext sargs \<longleftrightarrow>
     sqlite_statements L tabs saved stext sargs sql_insert
     \<and> (\<forall>st w rc w'. sqlite3_step L st w = (rc, w') \<longrightarrow>
          (stext st w \<in> insert_texts \<union> update_texts \<union> delete_texts \<longrightarrow> rc \<noteq> SQLITE_ROW
             \<and> (if rc = SQLITE_DONE
                then write_effect (stext st w) (sargs st w) (tabs w) = Some (tabs w') \<and> saved w' = saved w
                else kept_or_rolled_back tabs saved w w'))
          \<and> (stext st w \<in> select_texts \<longrightarrow> tabs w' = tabs w \<and> saved w' = saved w
             \<and> (rc = SQLITE_ROW \<longrightarrow> (\<exists>row. sql_select (stext st w) (sargs st w) (tabs w) = Some row
                  \<and> on_row L st w' (select_columns (stext st w)) row))
             \<and> (rc = SQLITE_DONE \<longrightarrow> sql_select (stext st w) (sargs st w) (tabs w) = None)))"

subsection \<open>The locked execution\<close>

lemma crud_statements: "sqlite_crud L tabs saved stext sargs \<Longrightarrow> sqlite_statements L tabs saved stext sargs sql_insert"
  by (simp add: sqlite_crud_def)

lemma crud_write:
  assumes "sqlite_crud L tabs saved stext sargs" and "sqlite3_step L st w = (rc, w')"
    and "stext st w \<in> insert_texts \<union> update_texts \<union> delete_texts" and "saved w = None"
  shows "saved w' = None \<and> rc \<noteq> SQLITE_ROW
    \<and> (if rc = SQLITE_DONE then write_effect (stext st w) (sargs st w) (tabs w) = Some (tabs w') else tabs w' = tabs w)"
  using assms unfolding sqlite_crud_def kept_or_rolled_back_def by (metis option.distinct(1))

lemma crud_select:
  assumes "sqlite_crud L tabs saved stext sargs" and "sqlite3_step L st w = (rc, w')" and "stext st w \<in> select_texts"
  shows "tabs w' = tabs w" and "saved w' = saved w"
    and "rc = SQLITE_ROW \<Longrightarrow> \<exists>row. sql_select (stext st w) (sargs st w) (tabs w) = Some row
      \<and> on_row L st w' (select_columns (stext st w)) row"
    and "rc = SQLITE_DONE \<Longrightarrow> sql_select (stext st w) (sargs st w) (tabs w) = None"
  using assms unfolding sqlite_crud_def by blast+

definition sql_usable :: "sql_registry \<Rightarrow> bool" where
  "sql_usable g \<longleftrightarrow> sql_initialized g \<and> reg_db g \<noteq> None"

text \<open>A SQLite that never fails for a reason of its own: no I/O error, no other process holding the file.\<close>

definition sqlite_grants ::
  "'w sqlite3 \<Rightarrow> ('w \<Rightarrow> sql_tables) \<Rightarrow> ('w \<Rightarrow> sql_tables option) \<Rightarrow> (nat \<Rightarrow> 'w \<Rightarrow> string)
     \<Rightarrow> (nat \<Rightarrow> 'w \<Rightarrow> nat \<Rightarrow> sqval option) \<Rightarrow> bool" where
  "sqlite_grants L tabs saved stext sargs \<longleftrightarrow>
     (\<forall>db sql w. fst (sqlite3_prepare L db sql w) \<noteq> None)
     \<and> (\<forall>st w. stext st w \<in> insert_texts \<union> update_texts \<union> delete_texts \<longrightarrow> saved w = None \<longrightarrow>
          write_effect (stext st w) (sargs st w) (tabs w) \<noteq> None \<longrightarrow> fst (sqlite3_step L st w) = SQLITE_DONE)
     \<and> (\<forall>st w. stext st w \<in> select_texts \<longrightarrow> fst (sqlite3_step L st w) \<noteq> SQLITE_ERROR)"

definition sql_failure :: "sql_registry \<Rightarrow> hs_error" where
  "sql_failure g = (if sql_usable g then ERR_DB_QUERY_FAILED else ERR_NOT_INITIALIZED)"

lemma session_begin_outcome:
  assumes "session_begin L sql (w, g) = (res, w1)"
  shows "res = Inr st \<Longrightarrow> sql_usable g" and "res = Inl e \<Longrightarrow> e = sql_failure g"
    and "res = Inl e \<Longrightarrow> sql_usable g \<Longrightarrow> fst (sqlite3_prepare L (the (reg_db g)) sql w) = None"
  using assms by (auto simp: session_begin_def sql_usable_def sql_failure_def split: if_splits prod.splits option.splits)

lemma exec_locked_outcome:
  assumes crud: "sqlite_crud L tabs saved stext sargs" and sql: "sql \<in> insert_texts \<union> update_texts \<union> delete_texts"
    and auto: "saved w = None" and run: "sql_exec_locked L sql vals (w, g) = (e, w')"
  shows "saved w' = None" and "e = SUCCESS \<or> e = sql_failure g"
    and "e = SUCCESS \<Longrightarrow> sql_usable g \<and> write_effect sql (row_args vals) (tabs w) = Some (tabs w')"
    and "e \<noteq> SUCCESS \<Longrightarrow> tabs w' = tabs w"
    and "sqlite_grants L tabs saved stext sargs \<Longrightarrow> sql_usable g \<Longrightarrow> write_effect sql (row_args vals) (tabs w) \<noteq> None
      \<Longrightarrow> e = SUCCESS"
proof -
  note stm = crud_statements [OF crud]
  obtain res w1 where b: "session_begin L sql (w, g) = (res, w1)" by fastforce
  note sb = session_begin_laws [OF stm b] and out = session_begin_outcome [OF b]
  have "saved w' = None \<and> (e = SUCCESS \<or> e = sql_failure g)
    \<and> (e = SUCCESS \<longrightarrow> sql_usable g \<and> write_effect sql (row_args vals) (tabs w) = Some (tabs w'))
    \<and> (e \<noteq> SUCCESS \<longrightarrow> tabs w' = tabs w)
    \<and> (sqlite_grants L tabs saved stext sargs \<longrightarrow> sql_usable g \<longrightarrow> write_effect sql (row_args vals) (tabs w) \<noteq> None
        \<longrightarrow> e = SUCCESS)"
  proof (cases res)
    case (Inl d)
    then have "e = d" "w' = w1" using run b by (simp_all add: sql_exec_locked_def)
    moreover have "\<not> (sqlite_grants L tabs saved stext sargs \<and> sql_usable g)"
      using out(3) [OF Inl] unfolding sqlite_grants_def by blast
    ultimately show ?thesis using sb(1,2) out(2) [OF Inl] sb(3) [OF Inl] auto by auto
  next
    case (Inr st)
    let ?b = "bind_from L st 1 vals w1"
    obtain rc w2 where step: "sqlite3_step L st ?b = (rc, w2)" by fastforce
    have bound: "tabs ?b = tabs w" "saved ?b = None" "stext st ?b = sql" "sargs st ?b = row_args vals"
      using sb(1,2) sb(4) [OF Inr] auto bind_row [OF stm, of st w1 vals] by (simp_all add: bind_from_keeps [OF stm])
    note law = crud_write [OF crud step, unfolded bound, OF sql refl]
    have "e = (if rc = SQLITE_DONE \<or> rc = SQLITE_ROW then SUCCESS else ERR_DB_QUERY_FAILED)"
      "w' = sqlite3_finalize L st w2"
      using run b Inr step by (simp_all add: sql_exec_locked_def)
    moreover have "write_effect sql (row_args vals) (tabs w) = None"
      if "sqlite_grants L tabs saved stext sargs" "rc \<noteq> SQLITE_DONE"
      using that(1) [unfolded sqlite_grants_def, THEN conjunct2, THEN conjunct1, rule_format, of st ?b, unfolded bound, OF sql]
        that(2) step by (cases "write_effect sql (row_args vals) (tabs w)") auto
    moreover have "sql_usable g" by (rule out(1) [OF Inr])
    ultimately show ?thesis using law
      by (cases "rc = SQLITE_DONE") (auto simp add: finalize_laws [OF stm] sql_failure_def)
  qed
  then show "saved w' = None" and "e = SUCCESS \<or> e = sql_failure g"
    and "e = SUCCESS \<Longrightarrow> sql_usable g \<and> write_effect sql (row_args vals) (tabs w) = Some (tabs w')"
    and "e \<noteq> SUCCESS \<Longrightarrow> tabs w' = tabs w"
    and "sqlite_grants L tabs saved stext sargs \<Longrightarrow> sql_usable g \<Longrightarrow> write_effect sql (row_args vals) (tabs w) \<noteq> None
      \<Longrightarrow> e = SUCCESS" by blast+
qed

lemma query_one_outcome:
  assumes crud: "sqlite_crud L tabs saved stext sargs" and sql: "sql \<in> select_texts"
    and run: "registry_query_one L sql vals extract (w, g) = (e, out, w')"
  shows "tabs w' = tabs w" and "saved w' = saved w"
    and "e = SUCCESS \<Longrightarrow> \<exists>row st w2. sql_select sql (row_args vals) (tabs w) = Some row
      \<and> on_row L st w2 (select_columns sql) row \<and> out = Some (extract st w2)"
    and "e = ERR_NOT_FOUND \<Longrightarrow> sql_select sql (row_args vals) (tabs w) = None"
    and "e \<noteq> SUCCESS \<Longrightarrow> out = None"
    and "sqlite_grants L tabs saved stext sargs \<Longrightarrow> sql_usable g \<Longrightarrow> e = SUCCESS \<or> e = ERR_NOT_FOUND"
proof -
  note stm = crud_statements [OF crud]
  obtain res w1 where b: "session_begin L sql (w, g) = (res, w1)" by fastforce
  note sb = session_begin_laws [OF stm b] and out = session_begin_outcome [OF b]
  have "tabs w' = tabs w \<and> saved w' = saved w
    \<and> (e = SUCCESS \<longrightarrow> (\<exists>row st w2. sql_select sql (row_args vals) (tabs w) = Some row
      \<and> on_row L st w2 (select_columns sql) row \<and> out = Some (extract st w2)))
    \<and> (e = ERR_NOT_FOUND \<longrightarrow> sql_select sql (row_args vals) (tabs w) = None) \<and> (e \<noteq> SUCCESS \<longrightarrow> out = None)
    \<and> (sqlite_grants L tabs saved stext sargs \<longrightarrow> sql_usable g \<longrightarrow> e = SUCCESS \<or> e = ERR_NOT_FOUND)"
  proof (cases res)
    case (Inl d)
    then have "e = d" "w' = w1" "out = None" using run b by (simp_all add: registry_query_one_def)
    moreover have "\<not> (sqlite_grants L tabs saved stext sargs \<and> sql_usable g)"
      using out(3) [OF Inl] unfolding sqlite_grants_def by blast
    ultimately show ?thesis using sb(1,2) sb(3) [OF Inl] out(2) [OF Inl] by (auto simp: sql_failure_def)
  next
    case (Inr st)
    let ?b = "bind_from L st 1 vals w1"
    obtain rc w2 where step: "sqlite3_step L st ?b = (rc, w2)" by fastforce
    have bound: "tabs ?b = tabs w" "saved ?b = saved w" "stext st ?b = sql" "sargs st ?b = row_args vals"
      using sb(1,2) sb(4) [OF Inr] bind_row [OF stm, of st w1 vals] by (simp_all add: bind_from_keeps [OF stm])
    note sel = crud_select [OF crud step, unfolded bound, OF sql]
    have "rc \<noteq> SQLITE_ERROR" if "sqlite_grants L tabs saved stext sargs"
      using that [unfolded sqlite_grants_def, THEN conjunct2, THEN conjunct2, rule_format, of st ?b, unfolded bound, OF sql]
        step by simp
    then show ?thesis
      using run b Inr step sel
      by (cases rc) (auto simp: registry_query_one_def finalize_laws [OF stm] split: if_splits)
  qed
  then show "tabs w' = tabs w" and "saved w' = saved w"
    and "e = SUCCESS \<Longrightarrow> \<exists>row st w2. sql_select sql (row_args vals) (tabs w) = Some row
      \<and> on_row L st w2 (select_columns sql) row \<and> out = Some (extract st w2)"
    and "e = ERR_NOT_FOUND \<Longrightarrow> sql_select sql (row_args vals) (tabs w) = None"
    and "e \<noteq> SUCCESS \<Longrightarrow> out = None"
    and "sqlite_grants L tabs saved stext sargs \<Longrightarrow> sql_usable g \<Longrightarrow> e = SUCCESS \<or> e = ERR_NOT_FOUND" by blast+
qed

lemma write_texts:
  "agent_insert_sql \<in> insert_texts" "skill_insert_sql \<in> insert_texts" "session_insert_sql \<in> insert_texts"
  "skill_batch_sql \<in> insert_texts" "session_batch_sql \<in> insert_texts"
  "agent_update_sql \<in> update_texts" "session_update_sql \<in> update_texts"
  "''DELETE FROM agents WHERE id = ?;'' \<in> delete_texts" "''DELETE FROM skills WHERE id = ?;'' \<in> delete_texts"
  "''DELETE FROM sessions WHERE id = ?;'' \<in> delete_texts"
  "agent_select_sql \<in> select_texts" "skill_select_sql \<in> select_texts" "session_select_sql \<in> select_texts"
  by (simp_all add: insert_texts_def update_texts_def delete_texts_def select_texts_def)

lemma texts_disjoint:
  "update_texts \<inter> insert_texts = {}" "delete_texts \<inter> insert_texts = {}" "delete_texts \<inter> update_texts = {}"
  by (simp_all add: insert_texts_def update_texts_def delete_texts_def agent_insert_sql_def skill_insert_sql_def
      skill_batch_sql_def session_insert_sql_def session_batch_sql_def agent_update_sql_def session_update_sql_def)

lemma write_effects:
  "sql \<in> insert_texts \<Longrightarrow> write_effect sql a t = sql_insert sql a t"
  "sql \<in> update_texts \<Longrightarrow> write_effect sql a t = Some (sql_update sql a t)"
  "sql \<in> delete_texts \<Longrightarrow> write_effect sql a t = Some (sql_delete sql a t)"
  using texts_disjoint by (auto simp: write_effect_def)

lemma bound_row_args:
  assumes "length cols \<le> length vals"
  shows "bound_row cols (row_args vals) = row_of cols vals"
proof -
  have "map (row_args vals) [1..<Suc (length cols)] = map Some (take (length cols) vals)"
    using assms by (intro nth_equalityI) (simp_all add: row_args_def nth_upt del: upt_Suc)
  moreover have "zip cols (map Some (take (length cols) vals)) = map (\<lambda>(c, v). (c, Some v)) (zip cols vals)"
    using take_zip [of "length cols" cols vals] assms by (simp add: zip_map2)
  moreover have "Option.bind (map_option Some v) (\<lambda>v. v) = v" for v :: "sqval option" by (cases v) simp_all
  ultimately show ?thesis by (simp add: bound_row_def row_of_def map_of_map fun_eq_iff del: upt_Suc)
qed

section \<open>Tables of records\<close>

text \<open>A table that holds the records \<open>rs\<close>, one row each, and the record found under an id.\<close>

definition holds_records :: "string \<Rightarrow> ('r \<Rightarrow> string) \<Rightarrow> ('r \<Rightarrow> sql_row) \<Rightarrow> 'r list \<Rightarrow> sql_tables \<Rightarrow> bool" where
  "holds_records tb key row rs t \<longleftrightarrow> t tb = map row rs \<and> distinct (map key rs)"

definition row_lookup :: "string \<Rightarrow> (sql_row \<Rightarrow> 'r) \<Rightarrow> sql_tables \<Rightarrow> string \<Rightarrow> 'r option" where
  "row_lookup tb read t k = map_option read (find (has_id (Some (SqText k))) (t tb))"

text \<open>
  The operations of the backend on the list of a table's records, in the terms of \<open>reg_abs\<close> for the
  other backend: \<open>usable\<close> says that the registry is open, \<open>ok\<close> that SQLite did not fail by itself,
  and \<open>keep x r\<close> is the record that an update with \<open>r\<close> makes of \<open>x\<close>.
\<close>

fun sql_abs ::
  "('r \<Rightarrow> string) \<Rightarrow> ('r \<Rightarrow> 'r \<Rightarrow> 'r) \<Rightarrow> bool \<Rightarrow> bool \<Rightarrow> 'r reg_call \<Rightarrow> 'r list \<Rightarrow> hs_error \<times> 'r list" where
  "sql_abs key keep usable ok (RAdd None) rs = (ERR_INVALID_PARAM, rs)"
| "sql_abs key keep usable ok (RAdd (Some r)) rs =
     (if key r = [] then (ERR_INVALID_PARAM, rs)
      else if \<not> usable then (ERR_NOT_INITIALIZED, rs)
      else if key r \<in> key ` set rs \<or> \<not> ok then (ERR_DB_QUERY_FAILED, rs)
      else (SUCCESS, rs @ [r]))"
| "sql_abs key keep usable ok (RUpdate None) rs = (ERR_INVALID_PARAM, rs)"
| "sql_abs key keep usable ok (RUpdate (Some r)) rs =
     (if key r = [] then (ERR_INVALID_PARAM, rs)
      else if \<not> usable then (ERR_NOT_INITIALIZED, rs)
      else if \<not> ok then (ERR_DB_QUERY_FAILED, rs)
      else (SUCCESS, map (\<lambda>x. if key x = key r then keep x r else x) rs))"
| "sql_abs key keep usable ok (RDelete None) rs = (ERR_INVALID_PARAM, rs)"
| "sql_abs key keep usable ok (RDelete (Some k)) rs =
     (if \<not> usable then (ERR_NOT_INITIALIZED, rs)
      else if \<not> ok then (ERR_DB_QUERY_FAILED, rs)
      else (SUCCESS, filter (\<lambda>x. key x \<noteq> k) rs))"

text \<open>One operation on one table: outcome and records as specified, the other tables as they were.\<close>

definition sql_does ::
  "('w \<Rightarrow> sql_tables) \<Rightarrow> ('w \<Rightarrow> sql_tables option) \<Rightarrow> string \<Rightarrow> ('r \<Rightarrow> string) \<Rightarrow> ('r \<Rightarrow> sql_row) \<Rightarrow> 'w \<Rightarrow> hs_error \<times> 'w
     \<Rightarrow> hs_error \<times> 'r list \<Rightarrow> bool" where
  "sql_does tabs saved tb key row w = (\<lambda>(e, w') (e', rs'). e = e' \<and> holds_records tb key row rs' (tabs w')
     \<and> saved w' = None \<and> (\<forall>x. x \<noteq> tb \<longrightarrow> tabs w' x = tabs w x))"

text \<open>What the backend relies on in a record type: its row carries the key as id and determines the record.\<close>

locale sql_domain =
  fixes tb :: string
    and key :: "'r \<Rightarrow> string"
    and row :: "'r \<Rightarrow> sql_row"
    and read :: "sql_row \<Rightarrow> 'r"
  assumes row_id: "row r ''id'' = Some (SqText (key r))"
    and read_row: "read (row r) = r"
begin

lemma has_id_row [simp]: "has_id (Some (SqText k)) (row r) \<longleftrightarrow> key r = k"
  by (auto simp: has_id_def row_id)

lemma find_row: "find (has_id (Some (SqText k))) (map row rs) = map_option row (table_map key rs k)"
  by (induction rs) auto

lemma lookup_records: "holds_records tb key row rs t \<Longrightarrow> row_lookup tb read t = table_map key rs"
  by (auto simp: holds_records_def row_lookup_def find_row read_row fun_eq_iff option.map_comp o_def option.map_ident)

lemma records_insert:
  assumes "holds_records tb key row rs t" and "table_after ''INSERT INTO '' sql = tb" and "bound_row (insert_columns sql) a = row r"
  shows "sql_insert sql a t = (if key r \<in> key ` set rs then None else Some (t(tb := t tb @ [row r])))"
    and "key r \<notin> key ` set rs \<Longrightarrow> holds_records tb key row (rs @ [r]) (t(tb := t tb @ [row r]))"
  using assms by (auto simp: holds_records_def sql_insert_def Let_def row_id list_ex_iff image_iff intro: sym bexI)

lemma records_delete:
  assumes "holds_records tb key row rs t" and "table_after ''DELETE FROM '' sql = tb"
  shows "holds_records tb key row (filter (\<lambda>r. key r \<noteq> k) rs) (sql_delete sql (row_args [SqText k]) t)"
  using assms
  by (auto simp: holds_records_def sql_delete_def Let_def row_args_def filter_map o_def distinct_map_filter)

lemma records_update:
  assumes "holds_records tb key row rs t" and "table_after ''UPDATE '' sql = tb"
    and "a (Suc (length (update_columns sql))) = Some (SqText (key r))"
    and set: "\<And>x. key x = key r \<Longrightarrow>
      (\<lambda>c. if c \<in> set (update_columns sql) then bound_row (update_columns sql) a c else row x c) = row (merge x)"
    and same: "\<And>x. key x = key r \<Longrightarrow> key (merge x) = key r"
  shows "holds_records tb key row (map (\<lambda>x. if key x = key r then merge x else x) rs) (sql_update sql a t)"
proof -
  have "map key (map (\<lambda>x. if key x = key r then merge x else x) rs) = map key rs"
    using same by (auto simp: o_def)
  moreover have "sql_update sql a t tb = map row (map (\<lambda>x. if key x = key r then merge x else x) rs)"
    using assms(1-3) set by (auto simp: holds_records_def sql_update_def Let_def)
  ultimately show ?thesis using assms(1) by (simp only: holds_records_def)
qed

text \<open>The three writing operations, after their checks of the arguments.\<close>

lemma exec_add:
  assumes crud: "sqlite_crud L tabs saved stext sargs" and holds: "holds_records tb key row rs (tabs w)"
    and auto: "saved w = None" and id: "key r \<noteq> []"
    and sql: "sql \<in> insert_texts" "table_after ''INSERT INTO '' sql = tb" "bound_row (insert_columns sql) (row_args vals) = row r"
  shows "\<exists>ok. sql_does tabs saved tb key row w (sql_exec_locked L sql vals (w, g)) (sql_abs key keep (sql_usable g) ok (RAdd (Some r)) rs)
    \<and> (sqlite_grants L tabs saved stext sargs \<longrightarrow> ok)"
proof -
  obtain e w' where run: "sql_exec_locked L sql vals (w, g) = (e, w')" by fastforce
  have "sql \<in> insert_texts \<union> update_texts \<union> delete_texts" using sql(1) by simp
  note out = exec_locked_outcome [OF crud this auto run, unfolded write_effects(1) [OF sql(1)]]
  note ins = records_insert [OF holds sql(2,3)]
  show ?thesis
  proof (cases "e = SUCCESS")
    case True
    then have "sql_usable g" "key r \<notin> key ` set rs" "tabs w' = (tabs w)(tb := tabs w tb @ [row r])"
      using out(3) ins(1) by (auto split: if_splits)
    then show ?thesis using True run ins(2) out(1) id by (intro exI [of _ True]) (simp add: sql_does_def)
  next
    case False
    then have e: "e = sql_failure g" "tabs w' = tabs w" using out(2,4) by auto
    let ?ok = "key r \<in> key ` set rs"
    have "\<not> sql_usable g \<or> ?ok" if "sqlite_grants L tabs saved stext sargs" using out(5) [OF that] False ins(1)
      by (cases ?ok) auto
    then have "sql_does tabs saved tb key row w (e, w') (sql_abs key keep (sql_usable g) (\<not> sql_usable g \<or> ?ok) (RAdd (Some r)) rs)
      \<and> (sqlite_grants L tabs saved stext sargs \<longrightarrow> \<not> sql_usable g \<or> ?ok)"
      using e out(1) holds id False by (auto simp: sql_does_def sql_failure_def)
    then show ?thesis unfolding run by blast
  qed
qed

lemma exec_edit:
  assumes crud: "sqlite_crud L tabs saved stext sargs" and auto: "saved w = None"
    and sql: "sql \<in> update_texts \<union> delete_texts" and holds: "holds_records tb key row rs (tabs w)"
    and effect: "write_effect sql (row_args vals) (tabs w) = Some t" "holds_records tb key row rs' t" "\<And>x. x \<noteq> tb \<Longrightarrow> t x = tabs w x"
  shows "\<exists>ok. sql_does tabs saved tb key row w (sql_exec_locked L sql vals (w, g))
      (if \<not> sql_usable g then (ERR_NOT_INITIALIZED, rs) else if \<not> ok then (ERR_DB_QUERY_FAILED, rs) else (SUCCESS, rs'))
    \<and> (sqlite_grants L tabs saved stext sargs \<longrightarrow> ok)"
proof -
  obtain e w' where run: "sql_exec_locked L sql vals (w, g) = (e, w')" by fastforce
  have "sql \<in> insert_texts \<union> update_texts \<union> delete_texts" using sql by simp
  note out = exec_locked_outcome [OF crud this auto run, unfolded effect(1)]
  show ?thesis
  proof (cases "e = SUCCESS")
    case True
    then show ?thesis using run out(1,3) effect(2,3) by (intro exI [of _ True]) (simp add: sql_does_def)
  next
    case False
    then have e: "e = sql_failure g" "tabs w' = tabs w" using out(2,4) by auto
    have "sqlite_grants L tabs saved stext sargs \<longrightarrow> \<not> sql_usable g" using out(5) False by auto
    then show ?thesis
      using run e out(1) holds False by (intro exI [of _ "\<not> sql_usable g"]) (auto simp: sql_does_def sql_failure_def)
  qed
qed

lemma exec_delete:
  assumes "sqlite_crud L tabs saved stext sargs" and "holds_records tb key row rs (tabs w)" and "saved w = None"
    and "sql \<in> delete_texts" and "table_after ''DELETE FROM '' sql = tb"
  shows "\<exists>ok. sql_does tabs saved tb key row w (sql_exec_locked L sql (registry_bind_id k) (w, g))
      (sql_abs key keep (sql_usable g) ok (RDelete (Some k)) rs)
    \<and> (sqlite_grants L tabs saved stext sargs \<longrightarrow> ok)"
proof -
  let ?t = "sql_delete sql (row_args (registry_bind_id k)) (tabs w)" and ?rs = "filter (\<lambda>x. key x \<noteq> k) rs"
  have "holds_records tb key row ?rs ?t" using records_delete [OF assms(2,5), of k] by (simp add: registry_bind_id_def)
  moreover have "?t x = tabs w x" if "x \<noteq> tb" for x using that assms(5) by (simp add: sql_delete_def Let_def)
  ultimately show ?thesis
    using exec_edit [OF assms(1,3) UnI2 [OF assms(4)] assms(2) write_effects(3) [OF assms(4)], where rs' = ?rs and g = g]
    by (simp cong: if_cong)
qed

lemma exec_update:
  assumes "sqlite_crud L tabs saved stext sargs" and holds: "holds_records tb key row rs (tabs w)" and "saved w = None"
    and id: "key r \<noteq> []" and sql: "sql \<in> update_texts" "table_after ''UPDATE '' sql = tb"
    and vals: "row_args vals (Suc (length (update_columns sql))) = Some (SqText (key r))"
    and set: "\<And>x. key x = key r \<Longrightarrow> (\<lambda>c. if c \<in> set (update_columns sql) then bound_row (update_columns sql) (row_args vals) c
        else row x c) = row (keep x r)"
    and same: "\<And>x. key x = key r \<Longrightarrow> key (keep x r) = key r"
  shows "\<exists>ok. sql_does tabs saved tb key row w (sql_exec_locked L sql vals (w, g)) (sql_abs key keep (sql_usable g) ok (RUpdate (Some r)) rs)
    \<and> (sqlite_grants L tabs saved stext sargs \<longrightarrow> ok)"
proof -
  let ?t = "sql_update sql (row_args vals) (tabs w)" and ?rs = "map (\<lambda>x. if key x = key r then keep x r else x) rs"
  have "holds_records tb key row ?rs ?t" by (rule records_update [OF holds sql(2) vals set same])
  moreover have "?t x = tabs w x" if "x \<noteq> tb" for x using that sql(2) by (simp add: sql_update_def Let_def)
  ultimately show ?thesis
    using exec_edit [OF assms(1,3) UnI1 [OF sql(1)] holds write_effects(2) [OF sql(1)], where rs' = ?rs and g = g] id
    by (simp cong: if_cong)
qed

lemma select_record:
  assumes "holds_records tb key row rs t" and "table_after '' FROM '' sql = tb"
  shows "sql_select sql (row_args [SqText k]) t = map_option row (row_lookup tb read t k)"
  using assms lookup_records [OF assms(1)] by (simp add: sql_select_def holds_records_def row_args_def find_row)

end

lemma table_map_merge:
  assumes "\<And>x. key x = k \<Longrightarrow> key (merge x) = k"
  shows "table_map key (map (\<lambda>x. if key x = k then merge x else x) rs)
    = (table_map key rs)(k := map_option merge (table_map key rs k))"
  using assms by (induction rs) (auto simp: fun_eq_iff)

text \<open>The rows of the three tables, under the names of their columns, and the records read back.\<close>

definition row_text :: "sql_row \<Rightarrow> string \<Rightarrow> string" where
  "row_text row c = (case row c of Some (SqText t) \<Rightarrow> t | _ \<Rightarrow> [])"

definition row_int :: "sql_row \<Rightarrow> string \<Rightarrow> u64" where
  "row_int row c = (case row c of Some (SqInt n) \<Rightarrow> n | _ \<Rightarrow> 0)"

definition agent_row :: "agent_record \<Rightarrow> sql_row" where
  "agent_row r = row_of (insert_columns agent_insert_sql) (bind_agent_record r)"

definition skill_row :: "skill_record \<Rightarrow> sql_row" where
  "skill_row r = row_of (insert_columns skill_insert_sql) (bind_skill_row r)"

definition session_row :: "session_record \<Rightarrow> sql_row" where
  "session_row r = row_of (insert_columns session_insert_sql) (bind_session_row r)"

definition agent_of_row :: "sql_row \<Rightarrow> agent_record" where
  "agent_of_row row = \<lparr>agent_id = row_text row ''id'', agent_name = row_text row ''name'', agent_type = row_text row ''type'',
     agent_version = row_text row ''version'', agent_status = row_text row ''status'', config_path = row_text row ''config_path'',
     agent_created_at = row_int row ''created_at'', agent_updated_at = row_int row ''updated_at'',
     priority = ucast (row_int row ''priority''), tags = row_text row ''tags''\<rparr>"

definition skill_of_row :: "sql_row \<Rightarrow> skill_record" where
  "skill_of_row row = \<lparr>skill_id = row_text row ''id'', skill_name = row_text row ''name'', skill_version = row_text row ''version'',
     library_path = row_text row ''library_path'', manifest_path = row_text row ''manifest_path'',
     installed_at = row_int row ''installed_at''\<rparr>"

definition session_of_row :: "sql_row \<Rightarrow> session_record" where
  "session_of_row row = \<lparr>session_id = row_text row ''id'', user_id = row_text row ''user_id'',
     session_created_at = row_int row ''created_at'', last_active_at = row_int row ''last_active_at'',
     ttl_seconds = ucast (row_int row ''ttl_seconds''), session_status = row_text row ''status'', metadata = row_text row ''metadata''\<rparr>"

lemmas row_values = row_of_def row_text_def row_int_def bind_int_def scast_back

interpretation agent_rows: sql_domain "''agents''" agent_id agent_row agent_of_row
  by unfold_locales (simp_all add: agent_row_def agent_of_row_def agent_columns bind_agent_record_def row_values)

interpretation skill_rows: sql_domain "''skills''" skill_id skill_row skill_of_row
  by unfold_locales (simp_all add: skill_row_def skill_of_row_def skill_columns bind_skill_row_def row_values)

interpretation session_rows: sql_domain "''sessions''" session_id session_row session_of_row
  by unfold_locales (simp_all add: session_row_def session_of_row_def session_columns bind_session_row_def row_values)

text \<open>The tables named in the statements.\<close>

lemma insert_tables:
  "table_after ''INSERT INTO '' agent_insert_sql = ''agents''" "table_after ''INSERT INTO '' skill_insert_sql = ''skills''"
  "table_after ''INSERT INTO '' skill_batch_sql = ''skills''" "table_after ''INSERT INTO '' session_insert_sql = ''sessions''"
  "table_after ''INSERT INTO '' session_batch_sql = ''sessions''"
  by code_simp+

lemma update_tables:
  "table_after ''UPDATE '' agent_update_sql = ''agents''" "table_after ''UPDATE '' session_update_sql = ''sessions''"
  by code_simp+

lemma delete_tables:
  "table_after ''DELETE FROM '' ''DELETE FROM agents WHERE id = ?;'' = ''agents''"
  "table_after ''DELETE FROM '' ''DELETE FROM skills WHERE id = ?;'' = ''skills''"
  "table_after ''DELETE FROM '' ''DELETE FROM sessions WHERE id = ?;'' = ''sessions''"
  by code_simp+

lemma select_tables:
  "table_after '' FROM '' agent_select_sql = ''agents''" "table_after '' FROM '' skill_select_sql = ''skills''"
  "table_after '' FROM '' session_select_sql = ''sessions''"
  by code_simp+

text \<open>The three tables as lists of records, in autocommit mode.\<close>

type_synonym record_lists = "agent_record list \<times> skill_record list \<times> session_record list"

definition holds_lists :: "('w \<Rightarrow> sql_tables) \<Rightarrow> ('w \<Rightarrow> sql_tables option) \<Rightarrow> record_lists \<Rightarrow> 'w \<Rightarrow> bool" where
  "holds_lists tabs saved = (\<lambda>(as, ks, ss) w. saved w = None \<and> holds_records ''agents'' agent_id agent_row as (tabs w)
     \<and> holds_records ''skills'' skill_id skill_row ks (tabs w) \<and> holds_records ''sessions'' session_id session_row ss (tabs w))"

end
