(* ===== verification/HS_Sqlite_Query.thy ===== *)
theory HS_Sqlite_Query
  imports HS_Sqlite_Rows "HOL-Library.Multiset" "HOL-Library.Sublist"
begin

text \<open>
  The queries of the SQLite backend: an iterator is a prepared SELECT that hands out one row at a
  time. Filters and order are read from the texts of the statements; a client that iterates to the end
  gets the matching records, sorted, and the same records as from the in-memory backend.
\<close>

section \<open>Query statements\<close>

definition skill_query_sql :: string where
  "skill_query_sql = ''SELECT id, name, version, library_path, manifest_path, '' @ ''installed_at FROM skills ORDER BY installed_at DESC;''"

definition session_query_sql :: string where
  "session_query_sql = ''SELECT id, user_id, created_at, last_active_at, ttl_seconds, ''
     @ ''status, metadata FROM sessions '' @ ''ORDER BY last_active_at DESC;''"

definition session_status_sql :: string where
  "session_status_sql = ''SELECT id, user_id, created_at, last_active_at, ''
     @ ''ttl_seconds, status, metadata FROM sessions '' @ ''WHERE status = ? ORDER BY last_active_at DESC;''"

definition query_texts :: "string set" where
  "query_texts = {skill_query_sql, session_query_sql, session_status_sql} 
     \<union> (\<Union>ft\<in>{None, Some []}. \<Union>fs\<in>{None, Some []}. {agent_query_sql ft fs})"

text \<open>The columns compared with parameters, in the order of the parameters, and the column of ORDER BY ... DESC.\<close>

fun sql_words :: "string \<Rightarrow> string \<Rightarrow> string list" where
  "sql_words cur [] = [cur]"
| "sql_words cur (c # s) = (if c = CHR '' '' then cur # sql_words [] s else sql_words (cur @ [c]) s)"

fun compared :: "string list \<Rightarrow> string list" where
  "compared (c # e # q # ws) = (if e = ''='' \<and> starts_with ''?'' q then c # compared ws else compared (e # q # ws))"
| "compared ws = []"

definition where_columns :: "string \<Rightarrow> string list" where
  "where_columns sql = compared (sql_words [] (after_word '' WHERE '' sql))"

definition order_column :: "string \<Rightarrow> string" where
  "order_column sql = first_word (after_word ''ORDER BY '' sql)"

definition row_matches :: "string \<Rightarrow> (nat \<Rightarrow> sqval option) \<Rightarrow> sql_row \<Rightarrow> bool" where
  "row_matches sql a row \<longleftrightarrow> (\<forall>i<length (where_columns sql). a (Suc i) \<noteq> None \<and> row (where_columns sql ! i) = a (Suc i))"

text \<open>A result: the matching rows in some order, by the column of ORDER BY when the statement has one.\<close>

definition query_result :: "string \<Rightarrow> (nat \<Rightarrow> sqval option) \<Rightarrow> sql_tables \<Rightarrow> sql_row list \<Rightarrow> bool" where
  "query_result sql a t rows \<longleftrightarrow> mset rows = mset (filter (row_matches sql a) (t (table_after '' FROM '' sql)))
     \<and> (order_column sql \<noteq> [] \<longrightarrow> sorted_wrt (\<lambda>r1 r2. \<forall>x y. r1 (order_column sql) = Some (SqInt x)
          \<longrightarrow> r2 (order_column sql) = Some (SqInt y) \<longrightarrow> sint y \<le> sint x) rows)"

text \<open>
  The hypothesis on SQLite: \<open>pending st w\<close> is the rows that a started SELECT has still to hand out, None
  before its first step. Each step hands out the next row, reports the end, or fails.
\<close>

definition rows_to_come ::
  "('w \<Rightarrow> sql_tables) \<Rightarrow> (nat \<Rightarrow> 'w \<Rightarrow> string) \<Rightarrow> (nat \<Rightarrow> 'w \<Rightarrow> nat \<Rightarrow> sqval option) \<Rightarrow> (nat \<Rightarrow> 'w \<Rightarrow> sql_row list option)
     \<Rightarrow> nat \<Rightarrow> 'w \<Rightarrow> sql_row list \<Rightarrow> bool" where
  "rows_to_come tabs stext sargs pending st w rows \<longleftrightarrow>
     (case pending st w of None \<Rightarrow> query_result (stext st w) (sargs st w) (tabs w) rows | Some p \<Rightarrow> rows = p)"

definition sqlite_queries ::
  "'w sqlite3 \<Rightarrow> ('w \<Rightarrow> sql_tables) \<Rightarrow> ('w \<Rightarrow> sql_tables option) \<Rightarrow> (nat \<Rightarrow> 'w \<Rightarrow> string)
     \<Rightarrow> (nat \<Rightarrow> 'w \<Rightarrow> nat \<Rightarrow> sqval option) \<Rightarrow> (nat \<Rightarrow> 'w \<Rightarrow> sql_row list option) \<Rightarrow> bool" where
  "sqlite_queries L tabs saved stext sargs pending \<longleftrightarrow>
     (\<forall>db sql w st w'. sqlite3_prepare L db sql w = (Some st, w') \<longrightarrow> pending st w' = None)
     \<and> (\<forall>st i v w. pending st (sqlite3_bind L st i v w) = pending st w)
     \<and> (\<forall>st w rc w'. sqlite3_step L st w = (rc, w') \<longrightarrow> stext st w \<in> query_texts \<longrightarrow>
          tabs w' = tabs w \<and> saved w' = saved w \<and> stext st w' = stext st w
          \<and> (\<exists>rows. rows_to_come tabs stext sargs pending st w rows
               \<and> (rc = SQLITE_ROW \<longrightarrow> (\<exists>r rs. rows = r # rs \<and> on_row L st w' (select_columns (stext st w)) r
                    \<and> pending st w' = Some rs))
               \<and> (rc = SQLITE_DONE \<longrightarrow> rows = [])))"

definition query_grants :: "'w sqlite3 \<Rightarrow> (nat \<Rightarrow> 'w \<Rightarrow> string) \<Rightarrow> bool" where
  "query_grants L stext \<longleftrightarrow> (\<forall>st w. stext st w \<in> query_texts \<longrightarrow> fst (sqlite3_step L st w) \<noteq> SQLITE_ERROR)"

text \<open>A client's loop over an iterator: call iter_next until it returns NOT_FOUND.\<close>

fun sql_collect :: "nat \<Rightarrow> 'w sqlite3 \<Rightarrow> airy \<Rightarrow> sql_iter \<Rightarrow> 'w \<Rightarrow> (any_record list \<times> 'w) option" where
  "sql_collect 0 L A it w = None"
| "sql_collect (Suc n) L A it w =
     (case sql_iter_next L A (Some it) True w of
        (SUCCESS, Some r, Some it', w') \<Rightarrow> map_option (\<lambda>(rs, w2). (r # rs, w2)) (sql_collect n L A it' w')
      | (ERR_NOT_FOUND, _, _, w') \<Rightarrow> Some ([], w')
      | _ \<Rightarrow> None)"

section \<open>Iteration\<close>

definition read_current :: "'w sqlite3 \<Rightarrow> airy \<Rightarrow> rec_type \<Rightarrow> nat \<Rightarrow> 'w \<Rightarrow> any_record" where
  "read_current L A ty st w = (case ty of
     REC_AGENT \<Rightarrow> AgentRec (extract_agent_row L A st w)
   | REC_SKILL \<Rightarrow> SkillRec (extract_skill_row L A st w)
   | REC_SESSION \<Rightarrow> SessionRec (extract_session_row L A st w))"

lemma step_queries:
  assumes "sqlite_queries L tabs saved stext sargs pending" and "sqlite3_step L st w = (rc, w')" and "stext st w \<in> query_texts"
  obtains rows where "tabs w' = tabs w" and "saved w' = saved w" and "stext st w' = stext st w"
    and "rows_to_come tabs stext sargs pending st w rows"
    and "rc = SQLITE_ROW \<Longrightarrow> \<exists>r rs. rows = r # rs \<and> on_row L st w' (select_columns (stext st w)) r \<and> pending st w' = Some rs"
    and "rc = SQLITE_DONE \<Longrightarrow> rows = []"
  using assms unfolding sqlite_queries_def by blast

lemma collect_rows:
  assumes law: "sqlite_queries L tabs saved stext sargs pending"
  shows "\<lbrakk>stext st w = sql; sql \<in> query_texts; it_stmt it = Some st; has_more it;
      \<And>rows. rows_to_come tabs stext sargs pending st w rows \<Longrightarrow> length rows < n \<and> set rows \<subseteq> row ` R;
      \<And>r st w. r \<in> R \<Longrightarrow> on_row L st w (select_columns sql) (row r) \<Longrightarrow> read_current L A (current_type it) st w = C r\<rbrakk>
    \<Longrightarrow> \<exists>rows rs w'. rows_to_come tabs stext sargs pending st w rows \<and> sql_collect n L A it w = Some (map C rs, w')
      \<and> tabs w' = tabs w \<and> saved w' = saved w \<and> set rs \<subseteq> R \<and> prefix (map row rs) rows
      \<and> (query_grants L stext \<longrightarrow> map row rs = rows)"
proof (induction n arbitrary: w)
  case 0
  obtain rc w1 where step: "sqlite3_step L st w = (rc, w1)" by fastforce
  with 0 show ?case by (metis step_queries [OF law] not_less_zero)
next
  case (Suc n)
  obtain rc w1 where step: "sqlite3_step L st w = (rc, w1)" by fastforce
  have "stext st w \<in> query_texts" using Suc.prems by simp
  from step_queries [OF law step this] obtain rows where
    rows: "tabs w1 = tabs w" "saved w1 = saved w" "stext st w1 = sql" "rows_to_come tabs stext sargs pending st w rows"
      "rc = SQLITE_ROW \<Longrightarrow> \<exists>r rs. rows = r # rs \<and> on_row L st w1 (select_columns sql) r \<and> pending st w1 = Some rs"
      "rc = SQLITE_DONE \<Longrightarrow> rows = []"
    using Suc.prems(1) by metis
  show ?case
  proof (cases "rc = SQLITE_ROW")
    case True
    then obtain r0 rest where r0: "rows = r0 # rest" "on_row L st w1 (select_columns sql) r0" "pending st w1 = Some rest"
      using rows(5) by blast
    have bound: "length rows < Suc n" "set rows \<subseteq> row ` R" using Suc.prems(5) [OF rows(4)] by auto
    then obtain r where r: "r \<in> R" "r0 = row r" using r0(1) by auto
    have "rows_to_come tabs stext sargs pending st w1 x \<Longrightarrow> length x < n \<and> set x \<subseteq> row ` R" for x
      using bound r0 by (simp add: rows_to_come_def)
    from Suc.IH [OF rows(3) Suc.prems(2-4) this Suc.prems(6)] obtain rs w' where
      IH: "sql_collect n L A it w1 = Some (map C rs, w')" "tabs w' = tabs w1" "saved w' = saved w1" "set rs \<subseteq> R"
        "prefix (map row rs) rest" "query_grants L stext \<longrightarrow> map row rs = rest"
      using r0(3) by (auto simp: rows_to_come_def)
    have "sql_iter_next L A (Some it) True w = (SUCCESS, Some (C r), Some it, w1)"
      using step True Suc.prems(3,4) Suc.prems(6) [OF r(1)] r0(2) r(2) by (simp add: sql_iter_next_def read_current_def)
    then have "sql_collect (Suc n) L A it w = Some (map C (r # rs), w')" using IH(1) by simp
    moreover have "prefix (map row (r # rs)) rows" using IH(5) r0(1) r(2) by simp
    moreover have "query_grants L stext \<longrightarrow> map row (r # rs) = rows" using IH(6) r0(1) r(2) by simp
    moreover have "set (r # rs) \<subseteq> R" using IH(4) r(1) by simp
    ultimately show ?thesis using rows(1,2,4) IH(2,3) by metis
  next
    case False
    then have "sql_iter_next L A (Some it) True w = (ERR_NOT_FOUND, None, Some (it\<lparr>has_more := False\<rparr>), w1)"
      using step Suc.prems(3,4) by (simp add: sql_iter_next_def)
    then have "sql_collect (Suc n) L A it w = Some (map C [], w1)" by simp
    moreover have "rc = SQLITE_DONE" if "query_grants L stext"
      using that False step Suc.prems(1,2) unfolding query_grants_def by (metis fst_conv sqrc.exhaust)
    ultimately show ?thesis using rows by fastforce
  qed
qed

lemma query_open_outcome:
  assumes crud: "sqlite_crud L tabs saved stext sargs" and law: "sqlite_queries L tabs saved stext sargs pending"
    and run: "registry_query_open L sql ty vals al (w, g) = (e, it, al', w')"
  shows "tabs w' = tabs w" and "saved w' = saved w" and "e \<noteq> SUCCESS \<Longrightarrow> it = None"
    and "e = SUCCESS \<Longrightarrow> \<exists>st. it = Some \<lparr>it_stmt = Some st, current_type = ty, has_more = True\<rparr> \<and> stext st w' = sql
      \<and> sargs st w' = row_args vals \<and> pending st w' = None"
proof -
  note stm = crud_statements [OF crud]
  obtain res w1 where b: "session_begin L sql (w, g) = (res, w1)" by fastforce
  note sb = session_begin_laws [OF stm b]
  have "tabs w' = tabs w \<and> saved w' = saved w \<and> (e \<noteq> SUCCESS \<longrightarrow> it = None)
    \<and> (e = SUCCESS \<longrightarrow> (\<exists>st. it = Some \<lparr>it_stmt = Some st, current_type = ty, has_more = True\<rparr> \<and> stext st w' = sql
      \<and> sargs st w' = row_args vals \<and> pending st w' = None))"
  proof (cases res)
    case (Inl d)
    then show ?thesis using run b sb by (auto simp: registry_query_open_def)
  next
    case (Inr st)
    have prep: "sqlite3_prepare L (the (reg_db g)) sql w = (Some st, w1)"
      using b Inr by (auto simp: session_begin_def split: if_splits prod.splits option.splits)
    let ?b = "bind_from L st 1 vals w1"
    have "pending st (bind_from L st i vs x) = pending st x" for i vs x
      using law by (induction vs arbitrary: i x) (simp_all add: sqlite_queries_def)
    then have "pending st ?b = None" using law prep by (simp add: sqlite_queries_def)
    moreover have "sargs st ?b = row_args vals" using bind_row [OF stm, of st w1 vals] sb(4) [OF Inr] by simp
    ultimately show ?thesis
      using run b Inr sb by (auto simp: registry_query_open_def bind_from_keeps [OF stm] finalize_laws [OF stm] Let_def
          split: option.splits prod.splits)
  qed
  then show "tabs w' = tabs w" and "saved w' = saved w" and "e \<noteq> SUCCESS \<Longrightarrow> it = None"
    and "e = SUCCESS \<Longrightarrow> \<exists>st. it = Some \<lparr>it_stmt = Some st, current_type = ty, has_more = True\<rparr> \<and> stext st w' = sql
      \<and> sargs st w' = row_args vals \<and> pending st w' = None" by blast+
qed

text \<open>
  What a client gets from an iterator: a beginning of some arrangement of the wanted records, in
  order; all of it when no step fails.
\<close>

definition sql_yields ::
  "'w sqlite3 \<Rightarrow> airy \<Rightarrow> ('w \<Rightarrow> sql_tables) \<Rightarrow> bool \<Rightarrow> nat \<Rightarrow> sql_iter option \<Rightarrow> 'w \<Rightarrow> ('r \<Rightarrow> any_record) \<Rightarrow> 'r list
     \<Rightarrow> ('r \<Rightarrow> 'r \<Rightarrow> bool) \<Rightarrow> bool" where
  "sql_yields L A tabs grants n it w C wanted le \<longleftrightarrow>
     (\<exists>xs ys w'. it \<noteq> None \<and> sql_collect n L A (the it) w = Some (map C xs, w') \<and> tabs w' = tabs w
        \<and> prefix xs ys \<and> mset ys = mset wanted \<and> sorted_wrt le ys \<and> (grants \<longrightarrow> xs = ys))"

context sql_domain
begin

lemma query_yields:
  assumes crud: "sqlite_crud L tabs saved stext sargs" and law: "sqlite_queries L tabs saved stext sargs pending"
    and holds: "holds_records tb key row rs (tabs w)" and sql: "sql \<in> query_texts" "table_after '' FROM '' sql = tb"
    and opened: "registry_query_open L sql ty vals al (w, g) = (SUCCESS, it, al', w')" and n: "length rs < n"
    and reads: "\<And>r st w. r \<in> set rs \<Longrightarrow> on_row L st w (select_columns sql) (row r) \<Longrightarrow> read_current L A ty st w = C r"
    and wanted: "\<And>r. row_matches sql (row_args vals) (row r) \<longleftrightarrow> P r"
    and le: "\<And>r1 r2. order_column sql \<noteq> [] \<longrightarrow> (\<forall>x y. row r1 (order_column sql) = Some (SqInt x)
      \<longrightarrow> row r2 (order_column sql) = Some (SqInt y) \<longrightarrow> sint y \<le> sint x) \<Longrightarrow> le r1 r2"
  shows "sql_yields L A tabs (query_grants L stext) n it w' C (filter P rs) le \<and> tabs w' = tabs w"
proof -
  note out = query_open_outcome [OF crud law opened]
  obtain st where it: "it = Some \<lparr>it_stmt = Some st, current_type = ty, has_more = True\<rparr>" "stext st w' = sql"
      "sargs st w' = row_args vals" "pending st w' = None"
    using out(4) by blast
  have rows: "rows_to_come tabs stext sargs pending st w' x \<longleftrightarrow> query_result sql (row_args vals) (tabs w) x" for x
    by (simp add: rows_to_come_def it out(1))
  have result: "mset x = mset (map row (filter P rs))" if "query_result sql (row_args vals) (tabs w) x" for x
    using that holds by (simp add: query_result_def sql(2) holds_records_def filter_map comp_def wanted del: mset_filter mset_map)
  have bound: "length x < n \<and> set x \<subseteq> row ` set rs" if "rows_to_come tabs stext sargs pending st w' x" for x
  proof -
    note m = result [OF that [unfolded rows]]
    have "length x \<le> length rs" using mset_eq_length [OF m] length_filter_le [of P rs] by simp
    moreover have "set x \<subseteq> row ` set rs" using mset_eq_setD [OF m] by auto
    ultimately show ?thesis using n by simp
  qed
  obtain rows xs w2 where got: "rows_to_come tabs stext sargs pending st w' rows" "sql_collect n L A (the it) w' = Some (map C xs, w2)"
      "tabs w2 = tabs w'" "prefix (map row xs) rows" "query_grants L stext \<longrightarrow> map row xs = rows"
    using collect_rows [OF law it(2) sql(1), of "the it" n row "set rs" A C] bound reads it(1) by auto
  define ys where "ys = map read rows"
  note m = result [OF got(1) [unfolded rows]]
  have ys_rows: "map row ys = rows"
    using mset_eq_setD [OF m] by (auto simp: ys_def o_def read_row intro!: map_idI)
  have "mset ys = image_mset read (mset rows)" by (simp add: ys_def)
  also have "\<dots> = mset (filter P rs)" by (simp add: m read_row comp_def multiset.map_comp)
  finally have same: "mset ys = mset (filter P rs)" .
  have "sorted_wrt le ys"
  proof (cases "order_column sql = []")
    case True
    then show ?thesis using le by (simp add: sorted_wrt_iff_nth_less)
  next
    case False
    then have "sorted_wrt (\<lambda>r1 r2. \<forall>x y. row r1 (order_column sql) = Some (SqInt x)
        \<longrightarrow> row r2 (order_column sql) = Some (SqInt y) \<longrightarrow> sint y \<le> sint x) ys"
      using got(1) [unfolded rows query_result_def] by (simp add: sorted_wrt_map flip: ys_rows)
    then show ?thesis by (rule sorted_wrt_mono_rel [rotated]) (use le in blast)
  qed
  moreover have "prefix xs ys" using map_mono_prefix [OF got(4), of read] by (simp add: ys_def o_def read_row)
  moreover have "query_grants L stext \<longrightarrow> xs = ys" using got(5) by (auto simp: ys_def o_def read_row)
  ultimately show ?thesis using same got(2,3) it(1) out(1) unfolding sql_yields_def by blast
qed

end

section \<open>The three queries\<close>

lemma session_queries:
  "select_columns session_query_sql = select_columns session_select_sql"
  "select_columns session_status_sql = select_columns session_select_sql"
  "table_after '' FROM '' session_query_sql = ''sessions''" "table_after '' FROM '' session_status_sql = ''sessions''"
  "where_columns session_query_sql = []" "where_columns session_status_sql = [''status'']"
  "order_column session_query_sql = ''last_active_at''" "order_column session_status_sql = ''last_active_at''"
  unfolding session_columns by code_simp+

lemma skill_query:
  "select_columns skill_query_sql = select_columns skill_select_sql" "table_after '' FROM '' skill_query_sql = ''skills''"
  "where_columns skill_query_sql = []" "order_column skill_query_sql = ''installed_at''"
  unfolding skill_columns by code_simp+

lemma agent_query:
  "table_after '' FROM '' (agent_query_sql ft fs) = ''agents''"
  "where_columns (agent_query_sql ft fs) = (if ft \<noteq> None then [''type''] else []) @ (if fs \<noteq> None then [''status''] else [])"
  "order_column (agent_query_sql ft fs) = []"
  unfolding agent_query_text by (cases ft; cases fs; simp; code_simp)+

lemma query_members:
  "agent_query_sql ft fs \<in> query_texts" "skill_query_sql \<in> query_texts" "session_query_sql \<in> query_texts"
  "session_status_sql \<in> query_texts"
  by (cases ft; cases fs; simp add: query_texts_def agent_query_text) (simp_all add: query_texts_def)

definition agent_wanted :: "string option \<Rightarrow> string option \<Rightarrow> agent_record \<Rightarrow> bool" where
  "agent_wanted ft fs r \<longleftrightarrow> (ft = None \<or> ft = Some (agent_type r)) \<and> (fs = None \<or> fs = Some (agent_status r))"

definition session_wanted :: "string option \<Rightarrow> session_record \<Rightarrow> bool" where
  "session_wanted fs r \<longleftrightarrow> fs = None \<or> fs = Some [] \<or> fs = Some (session_status r)"

lemma agent_matches: "row_matches (agent_query_sql ft fs) (row_args (bind_agent_filters ft fs)) (agent_row r) \<longleftrightarrow> agent_wanted ft fs r"
  by (cases ft; cases fs; auto simp: row_matches_def agent_query agent_wanted_def bind_agent_filters_def row_args_def
      agent_row_def agent_columns row_of_def bind_agent_record_def All_less_Suc)

lemma skill_matches: "row_matches skill_query_sql a (skill_row r)"
  by (simp add: row_matches_def skill_query)

lemma session_matches:
  "row_matches session_query_sql a (session_row r)"
  "row_matches session_status_sql (row_args (registry_bind_id f)) (session_row r) \<longleftrightarrow> f = session_status r"
  by (auto simp: row_matches_def session_queries registry_bind_id_def row_args_def session_row_def session_columns
      row_of_def bind_session_row_def)

definition newest_session :: "session_record \<Rightarrow> session_record \<Rightarrow> bool" where
  "newest_session r1 r2 \<longleftrightarrow> sint (last_active_at r2) \<le> sint (last_active_at r1)"

definition newest_skill :: "skill_record \<Rightarrow> skill_record \<Rightarrow> bool" where
  "newest_skill r1 r2 \<longleftrightarrow> sint (installed_at r2) \<le> sint (installed_at r1)"

lemma order_values:
  "skill_row k ''installed_at'' = Some (SqInt (installed_at k))"
  "session_row r ''last_active_at'' = Some (SqInt (last_active_at r))"
  by (simp_all add: skill_row_def session_row_def skill_columns session_columns row_of_def bind_skill_row_def bind_session_row_def)

lemma sql_query_sessions_text:
  assumes "sql_usable g"
  shows "sql_query_sessions L fs True al (w, g) =
    (if fs = None \<or> fs = Some [] then registry_query_open L session_query_sql REC_SESSION [] al (w, g)
     else registry_query_open L session_status_sql REC_SESSION (registry_bind_id (the fs)) al (w, g))"
  using assms by (auto simp: sql_query_sessions_def query_precheck_def sql_usable_def session_query_sql_def session_status_sql_def
      Let_def split: option.splits)

lemma query_usable:
  "sql_query_agents L ft fs True al (w, g) = (SUCCESS, it, r) \<Longrightarrow> sql_usable g"
  "sql_query_skills L True al (w, g) = (SUCCESS, it, r) \<Longrightarrow> sql_usable g"
  "sql_query_sessions L fs True al (w, g) = (SUCCESS, it, r) \<Longrightarrow> sql_usable g"
  by (auto simp: sql_query_agents_def sql_query_skills_def sql_query_sessions_def query_precheck_def sql_usable_def Let_def
      split: if_splits)

definition lists_fit :: "record_lists \<Rightarrow> bool" where
  "lists_fit = (\<lambda>(as, ks, ss). list_all agent_fits as \<and> list_all skill_fits ks \<and> list_all session_fits ss)"

text \<open>Each query, from its opening to the end of the iteration.\<close>

lemma agent_query_yields:
  assumes crud: "sqlite_crud L tabs saved stext sargs" and law: "sqlite_queries L tabs saved stext sargs pending"
    and holds: "holds_records ''agents'' agent_id agent_row as (tabs w)" and fit: "list_all agent_fits as" and A: "strncpy_ok A"
    and n: "length as < n" and run: "sql_query_agents L ft fs True al (w, g) = (SUCCESS, it, al', w')"
  shows "sql_yields L A tabs (query_grants L stext) n it w' AgentRec (filter (agent_wanted ft fs) as) (\<lambda>_ _. True) \<and> tabs w' = tabs w"
proof -
  have open_run: "registry_query_open L (agent_query_sql ft fs) REC_AGENT (bind_agent_filters ft fs) al (w, g) = (SUCCESS, it, al', w')"
    using run query_usable(1) [OF run] by (auto simp: sql_query_agents_def query_precheck_def sql_usable_def Let_def)
  have reads: "read_current L A REC_AGENT st v = AgentRec a"
    if "a \<in> set as" "on_row L st v (select_columns (agent_query_sql ft fs)) (agent_row a)" for a st v
    using agent_row_back [OF A, of a L st v] fit that by (simp add: list_all_iff read_current_def agent_query_columns agent_row_def)
  from agent_rows.query_yields [OF crud law holds query_members(1) agent_query(1) open_run n reads agent_matches]
  show ?thesis by auto
qed

lemma skill_query_yields:
  assumes crud: "sqlite_crud L tabs saved stext sargs" and law: "sqlite_queries L tabs saved stext sargs pending"
    and holds: "holds_records ''skills'' skill_id skill_row ks (tabs w)" and fit: "list_all skill_fits ks" and A: "strncpy_ok A"
    and n: "length ks < n" and run: "sql_query_skills L True al (w, g) = (SUCCESS, it, al', w')"
  shows "sql_yields L A tabs (query_grants L stext) n it w' SkillRec ks newest_skill \<and> tabs w' = tabs w"
proof -
  have open_run: "registry_query_open L skill_query_sql REC_SKILL [] al (w, g) = (SUCCESS, it, al', w')"
    using run query_usable(2) [OF run] by (auto simp: sql_query_skills_def query_precheck_def sql_usable_def skill_query_sql_def Let_def)
  have reads: "read_current L A REC_SKILL st v = SkillRec k"
    if "k \<in> set ks" "on_row L st v (select_columns skill_query_sql) (skill_row k)" for k st v
    using skill_row_back [OF A, of k skill_insert_sql L st v] fit that by (simp add: list_all_iff read_current_def skill_query skill_row_def)
  from skill_rows.query_yields [where P = "\<lambda>_. True" and le = newest_skill,
      OF crud law holds query_members(2) skill_query(2) open_run n reads]
  show ?thesis by (auto simp: skill_matches skill_query order_values newest_skill_def)
qed

lemma session_query_yields:
  assumes crud: "sqlite_crud L tabs saved stext sargs" and law: "sqlite_queries L tabs saved stext sargs pending"
    and holds: "holds_records ''sessions'' session_id session_row ss (tabs w)" and fit: "list_all session_fits ss" and A: "strncpy_ok A"
    and n: "length ss < n" and run: "sql_query_sessions L fs True al (w, g) = (SUCCESS, it, al', w')"
  shows "sql_yields L A tabs (query_grants L stext) n it w' SessionRec (filter (session_wanted fs) ss) newest_session \<and> tabs w' = tabs w"
proof -
  note open_run = run [unfolded sql_query_sessions_text [OF query_usable(3) [OF run]]]
  have reads: "read_current L A REC_SESSION st v = SessionRec s"
    if "s \<in> set ss" "on_row L st v (select_columns session_select_sql) (session_row s)" for s st v
    using session_row_back [OF A, of s session_insert_sql L st v] fit that by (simp add: list_all_iff read_current_def session_row_def)
  note yields = session_rows.query_yields [where P = "session_wanted fs" and le = newest_session and C = SessionRec and A = A
      and ty = REC_SESSION, OF crud law holds _ _ _ n]
  show ?thesis
  proof (cases "fs = None \<or> fs = Some []")
    case True
    then show ?thesis
      using yields [where sql = session_query_sql and vals = "[]"] open_run reads query_members(3)
      by (auto simp: session_queries session_matches order_values newest_session_def session_wanted_def)
  next
    case False
    then obtain f where "fs = Some f" "f \<noteq> []" by auto
    then show ?thesis
      using yields [where sql = session_status_sql and vals = "registry_bind_id f"] open_run reads query_members(4)
      by (auto simp: session_queries session_matches order_values newest_session_def session_wanted_def)
  qed
qed

text \<open>
  C24. The queries of the SQLite backend return exactly what was asked for. An iterator of
  query_agents, query_skills or query_sessions, called until it reports NOT_FOUND, hands out every
  record that matches the filters (a filter that is absent, or an empty status of sessions, matches
  all) once, unchanged, skills and sessions with the newest first, and changes nothing. When a step
  fails the client sees a shorter list and no error.
\<close>

theorem sql_queries_exact:
  assumes "sqlite_crud L tabs saved stext sargs" and "sqlite_queries L tabs saved stext sargs pending"
    and "holds_lists tabs saved (as, ks, ss) w" and "lists_fit (as, ks, ss)" and "strncpy_ok A"
    and "length as < n" and "length ks < n" and "length ss < n"
  shows "(sql_query_agents L ft fs True al (w, g) = (SUCCESS, it, al', w') \<longrightarrow>
        sql_yields L A tabs (query_grants L stext) n it w' AgentRec (filter (agent_wanted ft fs) as) (\<lambda>_ _. True) \<and> tabs w' = tabs w)
    \<and> (sql_query_skills L True al (w, g) = (SUCCESS, it, al', w') \<longrightarrow>
        sql_yields L A tabs (query_grants L stext) n it w' SkillRec ks newest_skill \<and> tabs w' = tabs w)
    \<and> (sql_query_sessions L fs True al (w, g) = (SUCCESS, it, al', w') \<longrightarrow>
        sql_yields L A tabs (query_grants L stext) n it w' SessionRec (filter (session_wanted fs) ss) newest_session \<and> tabs w' = tabs w)"
proof -
  have rec: "holds_records ''agents'' agent_id agent_row as (tabs w)" "holds_records ''skills'' skill_id skill_row ks (tabs w)"
      "holds_records ''sessions'' session_id session_row ss (tabs w)"
    using assms(3) by (simp_all add: holds_lists_def)
  have fit: "list_all agent_fits as" "list_all skill_fits ks" "list_all session_fits ss" using assms(4) by (simp_all add: lists_fit_def)
  show ?thesis
    using agent_query_yields [OF assms(1,2) rec(1) fit(1) assms(5,6), of ft fs al g it al' w']
      skill_query_yields [OF assms(1,2) rec(2) fit(2) assms(5,7), of al g it al' w']
      session_query_yields [OF assms(1,2) rec(3) fit(3) assms(5,8), of fs al g it al' w'] by blast
qed

section \<open>A small engine\<close>

text \<open>
  A database of one connection and one statement that runs the statements of the backend on tables
  of rows and never fails: an instance of the hypotheses.
\<close>

record mini_db =
  mini_tabs :: sql_tables
  mini_text :: string
  mini_args :: "nat \<Rightarrow> sqval option"
  mini_row :: "sql_row option"
  mini_rows :: "sql_row list option"

definition mini_result :: "mini_db \<Rightarrow> sql_row list" where
  "mini_result w =
     (let sql = mini_text w; rows = filter (row_matches sql (mini_args w)) (mini_tabs w (table_after '' FROM '' sql))
      in if order_column sql = [] then rows
         else rev (sort_key (\<lambda>row. case row (order_column sql) of Some (SqInt n) \<Rightarrow> sint n | _ \<Rightarrow> 0) rows))"

definition mini_step :: "nat \<Rightarrow> mini_db \<Rightarrow> sqrc \<times> mini_db" where
  "mini_step st w =
     (if mini_text w \<in> select_texts
      then (case sql_select (mini_text w) (mini_args w) (mini_tabs w) of
              None \<Rightarrow> (SQLITE_DONE, w)
            | Some row \<Rightarrow> (SQLITE_ROW, w\<lparr>mini_row := Some row\<rparr>))
      else if mini_text w \<in> query_texts
      then (case (case mini_rows w of None \<Rightarrow> mini_result w | Some rows \<Rightarrow> rows) of
              [] \<Rightarrow> (SQLITE_DONE, w)
            | row # rows \<Rightarrow> (SQLITE_ROW, w\<lparr>mini_row := Some row, mini_rows := Some rows\<rparr>))
      else (case write_effect (mini_text w) (mini_args w) (mini_tabs w) of
              None \<Rightarrow> (SQLITE_ERROR, w)
            | Some t \<Rightarrow> (SQLITE_DONE, w\<lparr>mini_tabs := t\<rparr>)))"

definition mini_column :: "nat \<Rightarrow> mini_db \<Rightarrow> sqval option" where
  "mini_column i w = Option.bind (mini_row w) (\<lambda>row. row (select_columns (mini_text w) ! i))"

definition mini_lib :: "mini_db sqlite3" where
  "mini_lib = \<lparr>sqlite3_open = (\<lambda>_ w. (True, Some 1, w)), sqlite3_close = (\<lambda>_ w. w), sqlite3_exec = (\<lambda>_ _ w. (True, w)),
     sqlite3_prepare = (\<lambda>_ sql w. (Some 1, w\<lparr>mini_text := sql, mini_args := Map.empty, mini_row := None, mini_rows := None\<rparr>)),
     sqlite3_bind = (\<lambda>_ i v w. w\<lparr>mini_args := (mini_args w)(i \<mapsto> v)\<rparr>), sqlite3_step = mini_step,
     sqlite3_reset = (\<lambda>_ w. w), sqlite3_finalize = (\<lambda>_ w. w),
     sqlite3_column_text = (\<lambda>_ i w. case mini_column i w of Some (SqText t) \<Rightarrow> Some t | _ \<Rightarrow> None),
     sqlite3_column_int64 = (\<lambda>_ i w. case mini_column i w of Some (SqInt n) \<Rightarrow> n | _ \<Rightarrow> 0), make_dir = (\<lambda>_ w. w)\<rparr>"

lemma select_disjoint: "sql \<in> insert_texts \<union> update_texts \<union> delete_texts \<Longrightarrow> sql \<notin> select_texts"
  by (auto simp: insert_texts_def update_texts_def delete_texts_def select_texts_def agent_insert_sql_def skill_insert_sql_def
      skill_batch_sql_def session_insert_sql_def session_batch_sql_def agent_update_sql_def session_update_sql_def
      agent_select_sql_def skill_select_sql_def session_select_sql_def)

lemma query_disjoint: "sql \<in> query_texts \<Longrightarrow> sql \<notin> insert_texts \<union> update_texts \<union> delete_texts \<union> select_texts"
  by (auto simp: insert_texts_def update_texts_def delete_texts_def select_texts_def agent_insert_sql_def skill_insert_sql_def
      skill_batch_sql_def session_insert_sql_def session_batch_sql_def agent_update_sql_def session_update_sql_def
      agent_select_sql_def skill_select_sql_def session_select_sql_def query_texts_def skill_query_sql_def session_query_sql_def
      session_status_sql_def agent_query_text)

lemma mini_steps:
  "mini_text w \<in> insert_texts \<union> update_texts \<union> delete_texts \<Longrightarrow>
    mini_step st w = (case write_effect (mini_text w) (mini_args w) (mini_tabs w) of
        None \<Rightarrow> (SQLITE_ERROR, w) | Some t \<Rightarrow> (SQLITE_DONE, w\<lparr>mini_tabs := t\<rparr>))"
  "mini_text w \<in> select_texts \<Longrightarrow>
    mini_step st w = (case sql_select (mini_text w) (mini_args w) (mini_tabs w) of
        None \<Rightarrow> (SQLITE_DONE, w) | Some row \<Rightarrow> (SQLITE_ROW, w\<lparr>mini_row := Some row\<rparr>))"
  "mini_text w \<in> query_texts \<Longrightarrow>
    mini_step st w = (case (case mini_rows w of None \<Rightarrow> mini_result w | Some rows \<Rightarrow> rows) of
        [] \<Rightarrow> (SQLITE_DONE, w) | row # rows \<Rightarrow> (SQLITE_ROW, w\<lparr>mini_row := Some row, mini_rows := Some rows\<rparr>))"
  using select_disjoint [of "mini_text w"] query_disjoint [of "mini_text w"] by (auto simp: mini_step_def)

lemma mini_on_row: "mini_text w = sql \<Longrightarrow> mini_row w = Some row \<Longrightarrow> on_row mini_lib st w (select_columns sql) row"
  by (auto simp: on_row_def holds_value_def mini_lib_def mini_column_def split: option.splits sqval.splits)

lemma mini_lib_step: "sqlite3_step mini_lib = mini_step"
  by (simp add: mini_lib_def)

lemma mini_statements: "sqlite_statements mini_lib mini_tabs (\<lambda>_. None) (\<lambda>_. mini_text) (\<lambda>_. mini_args) sql_insert"
  unfolding sqlite_statements_def mini_lib_step
  by (auto simp: mini_lib_def kept_or_rolled_back_def mini_steps(1) write_effects(1) Let_def split: option.splits)

lemma mini_crud: "sqlite_crud mini_lib mini_tabs (\<lambda>_. None) (\<lambda>_. mini_text) (\<lambda>_. mini_args)"
  unfolding sqlite_crud_def mini_lib_step
  using mini_statements by (auto simp: mini_steps(1,2) kept_or_rolled_back_def intro!: mini_on_row split: option.splits)

lemma mini_grants: "sqlite_grants mini_lib mini_tabs (\<lambda>_. None) (\<lambda>_. mini_text) (\<lambda>_. mini_args)"
  unfolding sqlite_grants_def mini_lib_step
  by (auto simp: mini_lib_def mini_steps(1,2) split: option.splits)

lemma sorted_descending: "sorted_wrt (\<lambda>x y. f y \<le> f x) (rev (sort_key (f :: 'a \<Rightarrow> int) xs))"
  using sorted_sort_key [of f xs] by (simp add: sorted_wrt_rev sorted_map)

lemma mini_result: "query_result (mini_text w) (mini_args w) (mini_tabs w) (mini_result w)"
  unfolding query_result_def mini_result_def Let_def
  by (auto intro!: sorted_wrt_mono_rel [OF _ sorted_descending])

lemma mini_queries: "sqlite_queries mini_lib mini_tabs (\<lambda>_. None) (\<lambda>_. mini_text) (\<lambda>_. mini_args) (\<lambda>_. mini_rows)"
proof -
  let ?come = "rows_to_come mini_tabs (\<lambda>_. mini_text) (\<lambda>_. mini_args) (\<lambda>_. mini_rows)"
  have "mini_tabs w' = mini_tabs w \<and> mini_text w' = mini_text w \<and> (\<exists>rows. ?come st w rows
      \<and> (rc = SQLITE_ROW \<longrightarrow> (\<exists>r rs. rows = r # rs \<and> on_row mini_lib st w' (select_columns (mini_text w)) r \<and> mini_rows w' = Some rs))
      \<and> (rc = SQLITE_DONE \<longrightarrow> rows = []))"
    if step: "mini_step st w = (rc, w')" and sql: "mini_text w \<in> query_texts" for st w rc w'
  proof -
    define rows where "rows = (case mini_rows w of None \<Rightarrow> mini_result w | Some rows \<Rightarrow> rows)"
    have "?come st w rows" by (simp add: rows_to_come_def rows_def mini_result split: option.splits)
    with step show ?thesis
      unfolding mini_steps(3) [OF sql] rows_def [symmetric] by (intro conjI exI [of _ rows]; cases rows) (auto intro!: mini_on_row)
  qed
  then show ?thesis unfolding sqlite_queries_def mini_lib_step by (simp add: mini_lib_def)
qed

lemma mini_query_grants: "query_grants mini_lib (\<lambda>_. mini_text)"
  unfolding query_grants_def mini_lib_step by (auto simp: mini_steps(3) split: option.splits list.splits)

definition mini_db0 :: mini_db where
  "mini_db0 = \<lparr>mini_tabs = (\<lambda>_. []), mini_text = [], mini_args = Map.empty, mini_row = None, mini_rows = None\<rparr>"

definition mini_reg :: sql_registry where
  "mini_reg = \<lparr>reg_db = Some 1, db_path = [], sql_initialized = True\<rparr>"

text \<open>Two stored sessions with one status, the older inserted first.\<close>

definition late_session :: session_record where
  "late_session = \<lparr>session_id = ''s2'', user_id = ''u'', session_created_at = 5, last_active_at = 9, ttl_seconds = 60,
     session_status = ''active'', metadata = []\<rparr>"

definition two_sessions :: mini_db where
  "two_sessions = mini_db0\<lparr>mini_tabs := (\<lambda>_. [])(''sessions'' := [session_row (demo_session ''s1''), session_row late_session])\<rparr>"

theorem sql_queries_exact_witness:
  "\<exists>it w'. sql_query_sessions mini_lib (Some ''active'') True demo_alloc (two_sessions, mini_reg) = (SUCCESS, Some it, demo_alloc\<lparr>tick := 1\<rparr>, w')
    \<and> (\<exists>w2. sql_collect 3 mini_lib demo_airy it w' = Some ([SessionRec late_session, SessionRec (demo_session ''s1'')], w2))"
proof -
  let ?ss = "[demo_session ''s1'', late_session]"
  have holds: "holds_lists mini_tabs (\<lambda>_. None) ([], [], ?ss) two_sessions"
    by (simp add: holds_lists_def holds_records_def two_sessions_def mini_db0_def demo_session_def late_session_def)
  have fit: "lists_fit ([], [], ?ss)"
    by (simp add: lists_fit_def session_fits_def demo_session_def late_session_def)
  have A: "strncpy_ok demo_airy" by (simp add: strncpy_ok_def demo_airy_def)
  obtain it w' where run: "sql_query_sessions mini_lib (Some ''active'') True demo_alloc (two_sessions, mini_reg)
      = (SUCCESS, Some it, demo_alloc\<lparr>tick := 1\<rparr>, w')"
    by (simp add: sql_query_sessions_text sql_usable_def mini_reg_def registry_query_open_def session_begin_def mini_lib_def
        registry_bind_id_def airy_alloc_def demo_alloc_def)
  have "sql_yields mini_lib demo_airy mini_tabs (query_grants mini_lib (\<lambda>_. mini_text)) 3 (Some it) w' SessionRec
      (filter (session_wanted (Some ''active'')) ?ss) newest_session"
    using sql_queries_exact [OF mini_crud mini_queries holds fit A, of 3] run by auto
  then obtain xs w2 where got: "sql_collect 3 mini_lib demo_airy it w' = Some (map SessionRec xs, w2)"
      "mset xs = mset ?ss" "sorted_wrt newest_session xs"
    using mini_query_grants by (auto simp: sql_yields_def session_wanted_def demo_session_def late_session_def)
  have "length xs = 2" using mset_eq_length [OF got(2)] by simp
  then obtain a b where xs: "xs = [a, b]" by (auto simp: length_Suc_conv numeral_2_eq_2)
  have "xs = [late_session, demo_session ''s1'']"
    using got(2,3) by (auto simp: xs newest_session_def demo_session_def late_session_def add_eq_conv_ex)
  then show ?thesis using run got(1) by auto
qed

end
