(* ===== verification/HS_Batch.thy ===== *)
theory HS_Batch
  imports HS_Registry
begin

text \<open>
  The write batch of src/heapstore_core_batch.c: session records are collected in a context and
  written to the registry one by one by the commit. A context is a record of its capacity, its
  counter and the chain of items from head to tail (an item is the session record it carries; the
  tail pointer is the end of the chain). A context pointer is an option, None is NULL. The commit
  is given the add function of the registry back end it is linked with. The last section models
  several threads that add to one context, where the capacity is tested outside the lock.
\<close>

section \<open>Context and operations\<close>

definition BATCH_MAX_ITEMS :: size_t where "BATCH_MAX_ITEMS = 1024"

record batch_context =
  capacity :: size_t
  batch_count :: size_t
  items :: "session_record list"

definition zero_session :: session_record where
  "zero_session = \<lparr>session_id = [], user_id = [], session_created_at = 0, last_active_at = 0,
     ttl_seconds = 0, session_status = [], metadata = []\<rparr>"

text \<open>The capacity test that both helpers make without the lock, and the locked region of the append.\<close>

definition batch_full :: "batch_context \<Rightarrow> bool" where
  "batch_full ctx \<longleftrightarrow> capacity ctx \<le> batch_count ctx"

definition batch_link :: "session_record \<Rightarrow> batch_context \<Rightarrow> batch_context" where
  "batch_link item ctx = ctx\<lparr>items := items ctx @ [item], batch_count := batch_count ctx + 1\<rparr>"

definition batch_append_item ::
  "batch_context option \<Rightarrow> session_record option \<Rightarrow> hs_error \<times> batch_context option" where
  "batch_append_item ctx item =
     (case (ctx, item) of
        (Some c, Some i) \<Rightarrow>
          if batch_full c then (ERR_OUT_OF_MEMORY, Some c) else (SUCCESS, Some (batch_link i c))
      | _ \<Rightarrow> (ERR_INVALID_PARAM, ctx))"

definition batch_item_new ::
  "batch_context option \<Rightarrow> allocator \<Rightarrow> session_record option \<times> allocator" where
  "batch_item_new ctx al =
     (case ctx of
        None \<Rightarrow> (None, al)
      | Some c \<Rightarrow>
          if batch_full c then (None, al)
          else case airy_alloc al of
                 (None, al') \<Rightarrow> (None, al')
               | (Some _, al') \<Rightarrow> (Some zero_session, al'))"

definition heapstore_batch_begin :: "size_t \<Rightarrow> allocator \<Rightarrow> batch_context option \<times> allocator" where
  "heapstore_batch_begin batch_size al =
     (case airy_alloc al of
        (None, al') \<Rightarrow> (None, al')
      | (Some _, al') \<Rightarrow>
          let cap = (if 0 < batch_size then batch_size else BATCH_MAX_ITEMS);
              cap' = (if BATCH_MAX_ITEMS < cap then BATCH_MAX_ITEMS else cap)
          in (Some \<lparr>capacity = cap', batch_count = 0, items = []\<rparr>, al'))"

definition heapstore_batch_add_session ::
  "batch_context option \<Rightarrow> session_record option \<Rightarrow> allocator \<Rightarrow> hs_error \<times> batch_context option \<times> allocator" where
  "heapstore_batch_add_session ctx rec al =
     (case (ctx, rec) of
        (Some c, Some r) \<Rightarrow>
          (case batch_item_new ctx al of
             (None, al') \<Rightarrow> (ERR_OUT_OF_MEMORY, ctx, al')
           | (Some item, al') \<Rightarrow>
               (case batch_append_item ctx (Some r) of (e, ctx') \<Rightarrow> (e, ctx', al')))
      | _ \<Rightarrow> (ERR_INVALID_PARAM, ctx, al))"

text \<open>The locked region shared by discard and commit: take the chain, reset the counter.\<close>

definition batch_detach :: "batch_context \<Rightarrow> session_record list \<times> batch_context" where
  "batch_detach ctx = (items ctx, ctx\<lparr>items := [], batch_count := 0\<rparr>)"

definition batch_discard :: "batch_context option \<Rightarrow> batch_context option" where
  "batch_discard ctx = map_option (snd \<circ> batch_detach) ctx"

text \<open>Destroying a context discards its items and frees it: the pointer is gone.\<close>

definition heapstore_batch_context_destroy :: "batch_context option \<Rightarrow> batch_context option" where
  "heapstore_batch_context_destroy ctx = (case batch_discard ctx of None \<Rightarrow> None | Some _ \<Rightarrow> None)"

definition heapstore_batch_get_count :: "batch_context option \<Rightarrow> size_t" where
  "heapstore_batch_get_count ctx = (case ctx of None \<Rightarrow> 0 | Some c \<Rightarrow> batch_count c)"

fun batch_commit_loop ::
  "('r option \<Rightarrow> 's \<Rightarrow> (hs_error \<times> 's) option) \<Rightarrow> 'r list \<Rightarrow> hs_error \<Rightarrow> 's \<Rightarrow> (hs_error \<times> 's) option" where
  "batch_commit_loop add_session [] result s = Some (result, s)"
| "batch_commit_loop add_session (item # next) result s =
     (case add_session (Some item) s of
        None \<Rightarrow> None
      | Some (err, s') \<Rightarrow>
          batch_commit_loop add_session next
            (if err \<noteq> SUCCESS \<and> result = SUCCESS then err else result) s')"

definition heapstore_batch_commit ::
  "(session_record option \<Rightarrow> 's \<Rightarrow> (hs_error \<times> 's) option) \<Rightarrow> batch_context option \<Rightarrow> 's
     \<Rightarrow> (hs_error \<times> batch_context option \<times> 's) option" where
  "heapstore_batch_commit add_session ctx s =
     (case ctx of
        None \<Rightarrow> Some (ERR_INVALID_PARAM, None, s)
      | Some c \<Rightarrow>
          (case batch_detach c of
             (item, c') \<Rightarrow>
               (case batch_commit_loop add_session item SUCCESS s of
                  None \<Rightarrow> None
                | Some (result, s') \<Rightarrow> Some (result, Some c', s'))))"

section \<open>The context\<close>

definition batch_inv :: "batch_context \<Rightarrow> bool" where
  "batch_inv c \<longleftrightarrow> 0 < capacity c \<and> capacity c \<le> BATCH_MAX_ITEMS
     \<and> unat (batch_count c) = length (items c) \<and> batch_count c \<le> capacity c"

lemma batch_begin_inv:
  "heapstore_batch_begin n al = (Some c, al') \<Longrightarrow> batch_inv c"
  by (auto simp: heapstore_batch_begin_def batch_inv_def BATCH_MAX_ITEMS_def Let_def
      word_gt_0 split: option.splits prod.splits if_splits)

lemma batch_link_inv:
  assumes "batch_inv c" and "\<not> batch_full c"
  shows "batch_inv (batch_link r c)"
proof -
  have less: "batch_count c < capacity c" using assms(2) by (simp add: batch_full_def)
  then have "unat (batch_count c + 1) = Suc (unat (batch_count c))"
    by (rule unat_inc_below)
  with assms less show ?thesis
    by (auto simp: batch_inv_def batch_link_def word_le_nat_alt word_less_nat_alt)
qed

lemma batch_add_session_inv:
  assumes "batch_inv c" and "heapstore_batch_add_session (Some c) r al = (e, ctx', al')"
  shows "\<exists>c'. ctx' = Some c' \<and> batch_inv c' \<and> capacity c' = capacity c"
  using assms batch_link_inv [OF assms(1)]
  by (auto simp: heapstore_batch_add_session_def batch_item_new_def batch_append_item_def
      batch_link_def split: option.splits prod.splits if_splits)

lemma batch_detach_inv: "batch_inv c \<Longrightarrow> batch_inv (snd (batch_detach c))"
  by (simp add: batch_inv_def batch_detach_def)

section \<open>The commit\<close>

text \<open>The commit loop over any back end that promises the contract of a strict store.\<close>

context strict_store
begin

lemma commit_loop_defined:
  assumes "inv s" and add: "\<And>r. add (Some r) = insert r"
  shows "\<exists>e s'. batch_commit_loop add rs res s = Some (e, s') \<and> inv s'
    \<and> (\<forall>k v. lookup s k = Some v \<longrightarrow> lookup s' k = Some v)
    \<and> (res \<noteq> SUCCESS \<longrightarrow> e = res)
    \<and> (e = SUCCESS \<longrightarrow> (\<forall>r\<in>set rs. lookup s' (key r) = Some r))
    \<and> dom (lookup s') \<subseteq> dom (lookup s) \<union> key ` set rs"
  using assms(1)
proof (induction rs arbitrary: res s)
  case Nil
  then show ?case by simp
next
  case (Cons r rs)
  obtain e1 s1 where run: "insert r s = Some (e1, s1)" using insert_defined [OF Cons.prems] by blast
  let ?res = "if e1 \<noteq> SUCCESS \<and> res = SUCCESS then e1 else res"
  obtain e s' where rest: "batch_commit_loop add rs ?res s1 = Some (e, s')" "inv s'"
      "\<forall>k v. lookup s1 k = Some v \<longrightarrow> lookup s' k = Some v" "?res \<noteq> SUCCESS \<longrightarrow> e = ?res"
      "e = SUCCESS \<longrightarrow> (\<forall>r\<in>set rs. lookup s' (key r) = Some r)"
      "dom (lookup s') \<subseteq> dom (lookup s1) \<union> key ` set rs"
    using Cons.IH [OF insert_inv [OF Cons.prems run]] by blast
  have kept: "\<forall>k v. lookup s k = Some v \<longrightarrow> lookup s' k = Some v"
    using insert_keeps [OF Cons.prems run] rest(3) by blast
  have here: "lookup s' (key r) = Some r" if "e = SUCCESS"
    using that rest(3,4) insert_success [OF Cons.prems] run by (auto split: if_splits)
  have sub: "dom (lookup s') \<subseteq> dom (lookup s) \<union> key ` set (r # rs)"
    using rest(6) lookup_after [OF Cons.prems run] by (auto split: if_splits)
  show ?case using kept here sub rest run by (auto simp: add)
qed

end

text \<open>In an accepting store the first item with a new id wins, and the outcome is exact.\<close>

context open_store
begin

lemma commit_loop_first_wins:
  assumes "inv s" and "accepting s" and "[] \<notin> key ` set rs" and add: "\<And>r. add (Some r) = insert r"
  shows "\<exists>e s'. batch_commit_loop add rs res s = Some (e, s')
    \<and> lookup s' = table_map key rs ++ lookup s
    \<and> (e = SUCCESS \<longleftrightarrow> res = SUCCESS \<and> distinct (map key rs) \<and> key ` set rs \<inter> dom (lookup s) = {})"
  using assms(1-3)
proof (induction rs arbitrary: res s)
  case Nil
  then show ?case by (simp add: fun_eq_iff map_add_def table_map_def)
next
  case (Cons r rs)
  obtain e1 s1 where run: "insert r s = Some (e1, s1)" using insert_defined [OF Cons.prems(1)] by blast
  let ?res = "if e1 \<noteq> SUCCESS \<and> res = SUCCESS then e1 else res"
  have "[] \<notin> key ` set rs" using Cons.prems(3) by simp
  from Cons.IH [OF insert_inv [OF Cons.prems(1) run] accepting_keeps [OF Cons.prems(1,2) run] this, of ?res]
  obtain e s' where rest: "batch_commit_loop add rs ?res s1 = Some (e, s')"
      "lookup s' = table_map key rs ++ lookup s1"
      "e = SUCCESS \<longleftrightarrow> ?res = SUCCESS \<and> distinct (map key rs) \<and> key ` set rs \<inter> dom (lookup s1) = {}"
    by blast
  have out: "e1 = SUCCESS \<longleftrightarrow> lookup s (key r) = None"
    using accepting_outcome [OF Cons.prems(1,2) _ run] Cons.prems(3) by auto
  have after: "lookup s1 = (if e1 = SUCCESS then (lookup s)(key r \<mapsto> r) else lookup s)"
    by (rule lookup_after [OF Cons.prems(1) run])
  have "lookup s' = table_map key (r # rs) ++ lookup s"
    using out by (auto simp: rest(2) after fun_eq_iff map_add_def table_map_Cons split: option.splits)
  moreover have "e = SUCCESS \<longleftrightarrow> res = SUCCESS \<and> distinct (map key (r # rs))
      \<and> key ` set (r # rs) \<inter> dom (lookup s) = {}"
    using out by (auto simp: rest(3) after)
  ultimately show ?case using rest(1) run by (simp add: add fun_upd_def)
qed

end


text \<open>
  C28. With memory to spare and no empty id, the commit of a batch has exactly this effect: an id
  that the registry holds keeps its record, any other id gets the first item of the batch that
  carries it; the commit succeeds if and only if no item was a duplicate.
\<close>

theorem batch_commit_first_wins:
  assumes "registry_inv s" and "registry_accepting s" and "[] \<notin> session_id ` set (items c)"
  shows "\<exists>e c' s'. heapstore_batch_commit heapstore_registry_add_session (Some c) s = Some (e, Some c', s')
    \<and> session_lookup s' = table_map session_id (items c) ++ session_lookup s
    \<and> (e = SUCCESS \<longleftrightarrow> distinct (map session_id (items c))
                       \<and> session_id ` set (items c) \<inter> dom (session_lookup s) = {})"
proof -
  obtain e s' where run: "batch_commit_loop heapstore_registry_add_session (items c) SUCCESS s = Some (e, s')"
    and post: "session_lookup s' = table_map session_id (items c) ++ session_lookup s"
      "e = SUCCESS \<longleftrightarrow> distinct (map session_id (items c))
         \<and> session_id ` set (items c) \<inter> dom (session_lookup s) = {}"
    using session_open.commit_loop_first_wins [OF assms refl, of SUCCESS] by blast
  have "heapstore_batch_commit heapstore_registry_add_session (Some c) s
      = Some (e, Some (snd (batch_detach c)), s')"
    using run by (simp add: heapstore_batch_commit_def batch_detach_def)
  with post show ?thesis by blast
qed

definition demo_batch :: batch_context where
  "demo_batch = \<lparr>capacity = 2, batch_count = 2, items = [demo_session ''s1'', demo_session ''s2'']\<rparr>"

definition demo_registry :: registry where
  "demo_registry = \<lparr>agents = empty_domain, skills = empty_domain, sessions = empty_domain, reg_initialized = True\<rparr>"

lemma demo_registry_inv: "registry_inv (demo_alloc, demo_registry)"
  using dom_rep_empty [of agent_id] dom_rep_empty [of skill_id] dom_rep_empty [of session_id]
  unfolding registry_inv_def demo_registry_def by (simp only: registry.simps case_prod_conv) blast


theorem batch_commit_first_wins_witness:
  "\<exists>c' s'. heapstore_batch_commit heapstore_registry_add_session (Some demo_batch) (demo_alloc, demo_registry)
       = Some (SUCCESS, Some c', s') \<and> session_lookup s' ''s2'' = Some (demo_session ''s2'')"
proof -
  have acc: "registry_accepting (demo_alloc, demo_registry)"
    by (simp add: registry_accepting_def demo_alloc_def demo_registry_def)
  have ids: "[] \<notin> session_id ` set (items demo_batch)"
    by (simp add: demo_batch_def demo_session_def)
  obtain e c' s' where
    run: "heapstore_batch_commit heapstore_registry_add_session (Some demo_batch) (demo_alloc, demo_registry)
        = Some (e, Some c', s')"
    and look: "session_lookup s' = table_map session_id (items demo_batch)
        ++ session_lookup (demo_alloc, demo_registry)"
    and ok: "e = SUCCESS \<longleftrightarrow> distinct (map session_id (items demo_batch))
        \<and> session_id ` set (items demo_batch) \<inter> dom (session_lookup (demo_alloc, demo_registry)) = {}"
    using batch_commit_first_wins [OF demo_registry_inv acc ids] by blast
  have empty: "session_lookup (demo_alloc, demo_registry) = Map.empty"
    using domain_lookup_rep [OF dom_rep_empty [of session_id demo_alloc], of True]
    unfolding session_lookup_def demo_registry_def by simp
  with ok have "e = SUCCESS" by (simp add: demo_batch_def demo_session_def)
  moreover have "session_lookup s' ''s2'' = Some (demo_session ''s2'')"
    unfolding look empty by (simp add: demo_batch_def demo_session_def)
  ultimately show ?thesis using run by blast
qed

section \<open>Several threads adding to one context\<close>

text \<open>
  A thread inside heapstore_batch_add_session passes two tests of the capacity (in batch_item_new
  and again in batch_append_item), neither under the lock, and then appends under it. Between any
  two of these steps other threads may run; a committing or destroying thread may detach the
  chain. The state is the context and the position of each of the threads.
\<close>

datatype adder =
    Idle
  | Entered session_record
  | Has_item session_record
  | Passed session_record
  | Returned hs_error

inductive batch_thread :: "batch_context \<times> adder list \<Rightarrow> batch_context \<times> adder list \<Rightarrow> bool" where
  call: "i < length ts \<Longrightarrow> ts ! i = Idle \<or> ts ! i = Returned e \<Longrightarrow>
    batch_thread (c, ts) (c, ts[i := Entered r])"
| item_new: "i < length ts \<Longrightarrow> ts ! i = Entered r \<Longrightarrow> \<not> batch_full c \<Longrightarrow>
    batch_thread (c, ts) (c, ts[i := Has_item r])"
| item_refused: "i < length ts \<Longrightarrow> ts ! i = Entered r \<Longrightarrow>
    batch_thread (c, ts) (c, ts[i := Returned ERR_OUT_OF_MEMORY])"
| test_passed: "i < length ts \<Longrightarrow> ts ! i = Has_item r \<Longrightarrow> \<not> batch_full c \<Longrightarrow>
    batch_thread (c, ts) (c, ts[i := Passed r])"
| test_failed: "i < length ts \<Longrightarrow> ts ! i = Has_item r \<Longrightarrow> batch_full c \<Longrightarrow>
    batch_thread (c, ts) (c, ts[i := Returned ERR_OUT_OF_MEMORY])"
| append: "i < length ts \<Longrightarrow> ts ! i = Passed r \<Longrightarrow>
    batch_thread (c, ts) (batch_link r c, ts[i := Returned SUCCESS])"
| detach: "batch_thread (c, ts) (snd (batch_detach c), ts)"

inductive_cases batch_thread_cases: "batch_thread (c, ts) (c', ts')"

definition is_passed :: "adder \<Rightarrow> bool" where
  "is_passed a \<longleftrightarrow> (case a of Passed r \<Rightarrow> True | _ \<Rightarrow> False)"

definition in_append :: "adder list \<Rightarrow> nat" where
  "in_append ts = length (filter is_passed ts)"

definition threads_inv :: "batch_context \<times> adder list \<Rightarrow> bool" where
  "threads_inv = (\<lambda>(c, ts). 0 < capacity c \<and> capacity c \<le> BATCH_MAX_ITEMS
     \<and> unat (batch_count c) = length (items c)
     \<and> length (items c) + in_append ts < unat (capacity c) + length ts)"

lemma in_append_update:
  assumes "i < length ts"
  shows "in_append (ts[i := a]) + of_bool (is_passed (ts ! i)) = in_append ts + of_bool (is_passed a)"
  using assms
proof (induction ts arbitrary: i)
  case (Cons t ts)
  then show ?case by (cases i) (auto simp: in_append_def)
qed simp

lemma in_append_passes:
  assumes "i < length ts" and "\<not> is_passed (ts ! i)"
  shows "in_append (ts[i := a]) = in_append ts + of_bool (is_passed a)" and "in_append ts < length ts"
  using in_append_update [OF assms(1), of a] assms length_filter_less [of "ts ! i" ts is_passed]
  by (auto simp: in_append_def)

lemma batch_thread_inv:
  assumes "batch_thread s s'" and "threads_inv s" and bound: "length (snd s) < 2 ^ 32"
  shows "threads_inv s' \<and> length (snd s') = length (snd s) \<and> capacity (fst s') = capacity (fst s)"
  using assms
proof (induction rule: batch_thread.induct)
  case (test_passed i ts r c)
  have quiet: "\<not> is_passed (ts ! i)" using test_passed by (simp add: is_passed_def)
  have "batch_count c < capacity c" using test_passed by (simp add: batch_full_def)
  then have "length (items c) < unat (capacity c)"
    using test_passed by (simp add: threads_inv_def word_less_nat_alt)
  with in_append_passes(1) [OF test_passed(1) quiet, of "Passed r"]
    in_append_passes(2) [OF test_passed(1) quiet] test_passed show ?case
    by (simp add: threads_inv_def is_passed_def)
next
  case (append i ts r c)
  have less: "length (items c) + in_append ts < unat (capacity c) + length ts" "unat (capacity c) \<le> 1024"
    using append by (auto simp: threads_inv_def BATCH_MAX_ITEMS_def word_le_nat_alt)
  have "in_append (ts[i := Returned SUCCESS]) + 1 = in_append ts"
    using in_append_update [OF append(1), of "Returned SUCCESS"] append(2) by (simp add: is_passed_def)
  moreover have "unat (batch_count c + 1) = Suc (unat (batch_count c))"
    using less append by (intro unat_inc) (simp add: threads_inv_def)
  ultimately show ?case using append by (simp add: threads_inv_def batch_link_def)
qed (auto simp: threads_inv_def is_passed_def batch_detach_def in_append_passes)

lemma batch_threads_inv:
  assumes "batch_thread\<^sup>*\<^sup>* s s'" and "threads_inv s" and "length (snd s) < 2 ^ 32"
  shows "threads_inv s' \<and> length (snd s') = length (snd s) \<and> capacity (fst s') = capacity (fst s)"
  using assms
proof (induction rule: rtranclp_induct)
  case (step y z)
  then show ?case using batch_thread_inv [of y z] by simp
qed simp

text \<open>
  C19. Whatever n threads do to one context at the same time, the counter is the length of the
  chain, and the chain exceeds the capacity by less than n: with one thread the capacity holds.
\<close>

theorem batch_overshoot_bounded:
  assumes "batch_inv c" and "0 < n" and "n < 2 ^ 32"
    and "batch_thread\<^sup>*\<^sup>* (c, replicate n Idle) (c', ts)"
  shows "unat (heapstore_batch_get_count (Some c')) = length (items c')
    \<and> length (items c') < unat (capacity c) + n"
proof -
  have "in_append (replicate n Idle) = 0" by (simp add: in_append_def is_passed_def)
  then have "threads_inv (c, replicate n Idle)"
    using assms(1,2) by (simp add: batch_inv_def threads_inv_def word_le_nat_alt)
  from batch_threads_inv [OF assms(4) this] assms(3) show ?thesis
    by (auto simp: threads_inv_def heapstore_batch_get_count_def)
qed

text \<open>
  The bound is met: two threads that add to a context of capacity one can both pass the
  capacity tests before either appends, which leaves two items in it.
\<close>

theorem batch_capacity_race:
  "\<exists>c' ts. batch_thread\<^sup>*\<^sup>* (\<lparr>capacity = 1, batch_count = 0, items = []\<rparr>, [Idle, Idle]) (c', ts)
     \<and> length (items c') = 2 \<and> ts = [Returned SUCCESS, Returned SUCCESS]"
proof -
  let ?c = "\<lparr>capacity = 1, batch_count = 0, items = []\<rparr>"
  let ?r = zero_session
  have free: "\<not> batch_full ?c" by (simp add: batch_full_def)
  have enter: "batch_thread\<^sup>*\<^sup>* (?c, [Idle, Idle]) (?c, [Entered ?r, Entered ?r])"
    using batch_thread.call [of 0 "[Idle, Idle]" SUCCESS ?c ?r]
      batch_thread.call [of 1 "[Entered ?r, Idle]" SUCCESS ?c ?r]
    by (simp add: rtranclp.rtrancl_into_rtrancl)
  have alloc: "batch_thread\<^sup>*\<^sup>* (?c, [Entered ?r, Entered ?r]) (?c, [Has_item ?r, Has_item ?r])"
    using batch_thread.item_new [of 0 "[Entered ?r, Entered ?r]" ?r ?c]
      batch_thread.item_new [of 1 "[Has_item ?r, Entered ?r]" ?r ?c] free
    by (simp add: rtranclp.rtrancl_into_rtrancl)
  have test: "batch_thread\<^sup>*\<^sup>* (?c, [Has_item ?r, Has_item ?r]) (?c, [Passed ?r, Passed ?r])"
    using batch_thread.test_passed [of 0 "[Has_item ?r, Has_item ?r]" ?r ?c]
      batch_thread.test_passed [of 1 "[Passed ?r, Has_item ?r]" ?r ?c] free
    by (simp add: rtranclp.rtrancl_into_rtrancl)
  have link: "batch_thread\<^sup>*\<^sup>* (?c, [Passed ?r, Passed ?r])
      (batch_link ?r (batch_link ?r ?c), [Returned SUCCESS, Returned SUCCESS])"
    using batch_thread.append [of 0 "[Passed ?r, Passed ?r]" ?r ?c]
      batch_thread.append [of 1 "[Returned SUCCESS, Passed ?r]" ?r "batch_link ?r ?c"]
    by (simp add: rtranclp.rtrancl_into_rtrancl)
  have "length (items (batch_link ?r (batch_link ?r ?c))) = 2" by (simp add: batch_link_def)
  with enter alloc test link show ?thesis by (meson rtranclp_trans)
qed

theorem batch_overshoot_bounded_witness:
  "unat (heapstore_batch_get_count (Some (batch_link zero_session \<lparr>capacity = 1, batch_count = 0, items = []\<rparr>))) = 1
   \<and> (1::nat) < 1 + 1"
proof -
  let ?c = "\<lparr>capacity = 1, batch_count = 0, items = []\<rparr>" and ?r = zero_session
  have free: "\<not> batch_full ?c" by (simp add: batch_full_def)
  have run: "batch_thread\<^sup>*\<^sup>* (?c, replicate 1 Idle) (batch_link ?r ?c, [Returned SUCCESS])"
    using batch_thread.call [of 0 "[Idle]" SUCCESS ?c ?r]
      batch_thread.item_new [of 0 "[Entered ?r]" ?r ?c]
      batch_thread.test_passed [of 0 "[Has_item ?r]" ?r ?c]
      batch_thread.append [of 0 "[Passed ?r]" ?r ?c] free
    by (simp add: rtranclp.rtrancl_into_rtrancl)
  have "batch_inv ?c" by (simp add: batch_inv_def BATCH_MAX_ITEMS_def)
  from batch_overshoot_bounded [OF this _ _ run] show ?thesis by (simp add: batch_link_def)
qed

end
