(* ===== verification/HS_Backends.thy ===== *)
theory HS_Backends
  imports HS_Sqlite_Query HS_Batch
begin

text \<open>
  The two backends of the registry side by side. One abstract registry, three maps from ids to
  records with their error codes (\<open>view_call\<close>), is what a client may rely on; the in-memory
  backend implements it exactly and the SQLite backend up to two error codes and the creation
  times of updates. Sequences of calls have the same effect on both, the getters return the same, and
  the write batch works on either.
\<close>

section \<open>The abstract registry\<close>

datatype registry_op =
    Agent_op "agent_record reg_call"
  | Add_skill "skill_record option"
  | Delete_skill "string option"
  | Session_op "session_record reg_call"

record registry_view =
  v_agents :: "string \<Rightarrow> agent_record option"
  v_skills :: "string \<Rightarrow> skill_record option"
  v_sessions :: "string \<Rightarrow> session_record option"

text \<open>One call on the map of one kind of records, when nothing but the arguments can make it fail.\<close>

fun map_call :: "('r \<Rightarrow> string) \<Rightarrow> 'r reg_call \<Rightarrow> (string \<Rightarrow> 'r option) \<Rightarrow> hs_error \<times> (string \<Rightarrow> 'r option)" where
  "map_call key (RAdd None) m = (ERR_INVALID_PARAM, m)"
| "map_call key (RAdd (Some r)) m =
     (if key r = [] then (ERR_INVALID_PARAM, m)
      else if m (key r) \<noteq> None then (ERR_ALREADY_INITIALIZED, m)
      else (SUCCESS, m(key r \<mapsto> r)))"
| "map_call key (RUpdate None) m = (ERR_INVALID_PARAM, m)"
| "map_call key (RUpdate (Some r)) m =
     (if key r = [] then (ERR_INVALID_PARAM, m)
      else if m (key r) = None then (ERR_NOT_FOUND, m)
      else (SUCCESS, m(key r \<mapsto> r)))"
| "map_call key (RDelete None) m = (ERR_INVALID_PARAM, m)"
| "map_call key (RDelete (Some k)) m =
     (if m k = None then (ERR_NOT_FOUND, m) else (SUCCESS, m(k := None)))"

fun view_call :: "registry_op \<Rightarrow> registry_view \<Rightarrow> hs_error \<times> registry_view" where
  "view_call (Agent_op c) v = (case map_call agent_id c (v_agents v) of (e, m) \<Rightarrow> (e, v\<lparr>v_agents := m\<rparr>))"
| "view_call (Add_skill r) v = (case map_call skill_id (RAdd r) (v_skills v) of (e, m) \<Rightarrow> (e, v\<lparr>v_skills := m\<rparr>))"
| "view_call (Delete_skill k) v = (case map_call skill_id (RDelete k) (v_skills v) of (e, m) \<Rightarrow> (e, v\<lparr>v_skills := m\<rparr>))"
| "view_call (Session_op c) v = (case map_call session_id c (v_sessions v) of (e, m) \<Rightarrow> (e, v\<lparr>v_sessions := m\<rparr>))"

fun view_run :: "registry_op list \<Rightarrow> registry_view \<Rightarrow> hs_error list \<times> registry_view" where
  "view_run [] v = ([], v)"
| "view_run (c # cs) v = (case view_call c v of (e, v1) \<Rightarrow> case view_run cs v1 of (es, v') \<Rightarrow> (e # es, v'))"

section \<open>The calls of the backends\<close>

fun mem_call :: "registry_op \<Rightarrow> allocator \<times> registry \<Rightarrow> (hs_error \<times> allocator \<times> registry) option" where
  "mem_call (Agent_op (RAdd r)) s = heapstore_registry_add_agent r s"
| "mem_call (Agent_op (RUpdate r)) (al, g) = map_option (\<lambda>(e, g'). (e, al, g')) (heapstore_registry_update_agent r g)"
| "mem_call (Agent_op (RDelete k)) (al, g) = map_option (\<lambda>(e, g'). (e, al, g')) (heapstore_registry_delete_agent k g)"
| "mem_call (Add_skill r) s = heapstore_registry_add_skill r s"
| "mem_call (Delete_skill k) (al, g) = map_option (\<lambda>(e, g'). (e, al, g')) (heapstore_registry_delete_skill k g)"
| "mem_call (Session_op (RAdd r)) s = heapstore_registry_add_session r s"
| "mem_call (Session_op (RUpdate r)) (al, g) = map_option (\<lambda>(e, g'). (e, al, g')) (heapstore_registry_update_session r g)"
| "mem_call (Session_op (RDelete k)) (al, g) = map_option (\<lambda>(e, g'). (e, al, g')) (heapstore_registry_delete_session k g)"

fun sql_call :: "'w sqlite3 \<Rightarrow> registry_op \<Rightarrow> 'w \<times> sql_registry \<Rightarrow> hs_error \<times> 'w" where
  "sql_call L (Agent_op (RAdd r)) s = sql_add_agent L r s"
| "sql_call L (Agent_op (RUpdate r)) s = sql_update_agent L r s"
| "sql_call L (Agent_op (RDelete k)) s = sql_delete_agent L k s"
| "sql_call L (Add_skill r) s = sql_add_skill L r s"
| "sql_call L (Delete_skill k) s = sql_delete_skill L k s"
| "sql_call L (Session_op (RAdd r)) s = sql_add_session L r s"
| "sql_call L (Session_op (RUpdate r)) s = sql_update_session L r s"
| "sql_call L (Session_op (RDelete k)) s = sql_delete_session L k s"

fun mem_run :: "registry_op list \<Rightarrow> allocator \<times> registry \<Rightarrow> (hs_error list \<times> allocator \<times> registry) option" where
  "mem_run [] s = Some ([], s)"
| "mem_run (c # cs) s =
     (case mem_call c s of
        None \<Rightarrow> None
      | Some (e, s1) \<Rightarrow> map_option (\<lambda>(es, s'). (e # es, s')) (mem_run cs s1))"

fun sql_run :: "'w sqlite3 \<Rightarrow> registry_op list \<Rightarrow> 'w \<times> sql_registry \<Rightarrow> hs_error list \<times> 'w" where
  "sql_run L [] (w, g) = ([], w)"
| "sql_run L (c # cs) (w, g) = (case sql_call L c (w, g) of (e, w1) \<Rightarrow> case sql_run L cs (w1, g) of (es, w') \<Rightarrow> (e # es, w'))"

section \<open>The in-memory backend\<close>

definition mem_view :: "allocator \<times> registry \<Rightarrow> registry_view" where
  "mem_view s = \<lparr>v_agents = agent_lookup s, v_skills = skill_lookup s, v_sessions = session_lookup s\<rparr>"

lemma table_map_replace:
  "k \<in> key ` set rs \<Longrightarrow> key r = k \<Longrightarrow>
   table_map key (map (\<lambda>x. if key x = k then r else x) rs) = (table_map key rs)(k \<mapsto> r)"
  using table_map_merge [of key k "\<lambda>_. r" rs] table_map_None [of key rs k] by (cases "table_map key rs k") auto

lemma reg_abs_map:
  "fst (reg_abs key True True c rs) = fst (map_call key c (table_map key rs))"
  "table_map key (snd (reg_abs key True True c rs)) = snd (map_call key c (table_map key rs))"
  by (cases "(key, True, True, c, rs)" rule: reg_abs.cases;
      auto simp: table_map_None table_map_replace table_map_filter)+

text \<open>One call on one domain, with memory to spare.\<close>

lemma mem_domain_call:
  assumes rep: "dom_rep key al d rs" and mem: "\<forall>t\<ge>tick al. \<not> fails al t"
  shows "\<exists>al' d' rs'. reg_exec key True c (al, d) = Some (fst (map_call key c (table_map key rs)), al', d')
    \<and> dom_rep key al' d' rs' \<and> table_map key rs' = snd (map_call key c (table_map key rs))
    \<and> tick al \<le> tick al' \<and> (\<forall>t\<ge>tick al'. \<not> fails al' t)"
proof -
  have "memory_granted al" using mem by (simp add: memory_granted_def)
  with reg_exec_rep [OF rep, of True c] obtain al' d' where
    run: "reg_exec key True c (al, d) = Some (fst (reg_abs key True True c rs), al', d')"
    "dom_rep key al' d' (snd (reg_abs key True True c rs))" by auto
  moreover have "tick al \<le> tick al' \<and> fails al' = fails al"
  proof (cases c)
    case (RAdd r)
    then show ?thesis using run(1) reg_add_rep [OF rep, of True r] reg_add_fails [of key True r al d] by auto
  qed (use run(1) in auto)
  ultimately show ?thesis using mem reg_abs_map [of key c rs] by (auto intro!: exI)
qed

lemma mem_calls:
  "mem_call (Agent_op c) (al, g) = map_option (\<lambda>(e, al', d). (e, al', g\<lparr>agents := d\<rparr>))
     (reg_exec agent_id (reg_initialized g) c (al, agents g))"
  "mem_call (Add_skill r) (al, g) = map_option (\<lambda>(e, al', d). (e, al', g\<lparr>skills := d\<rparr>))
     (reg_exec skill_id (reg_initialized g) (RAdd r) (al, skills g))"
  "mem_call (Delete_skill k) (al, g) = map_option (\<lambda>(e, al', d). (e, al', g\<lparr>skills := d\<rparr>))
     (reg_exec skill_id (reg_initialized g) (RDelete k) (al, skills g))"
  "mem_call (Session_op c') (al, g) = map_option (\<lambda>(e, al', d). (e, al', g\<lparr>sessions := d\<rparr>))
     (reg_exec session_id (reg_initialized g) c' (al, sessions g))"
  by (cases c; cases c'; simp add: heapstore_registry_add_agent_def heapstore_registry_update_agent_def
      heapstore_registry_delete_agent_def heapstore_registry_add_skill_def heapstore_registry_delete_skill_def
      heapstore_registry_add_session_def heapstore_registry_update_session_def heapstore_registry_delete_session_def
      option.map_comp comp_def case_prod_beta)+

lemma lookup_of_rep:
  "dom_rep agent_id al (agents g) rs \<Longrightarrow> reg_initialized g \<Longrightarrow> agent_lookup (al, g) = table_map agent_id rs"
  "dom_rep skill_id al (skills g) ks \<Longrightarrow> reg_initialized g \<Longrightarrow> skill_lookup (al, g) = table_map skill_id ks"
  "dom_rep session_id al (sessions g) ss \<Longrightarrow> reg_initialized g \<Longrightarrow> session_lookup (al, g) = table_map session_id ss"
  using domain_lookup_rep [of agent_id al "agents g" rs True] domain_lookup_rep [of skill_id al "skills g" ks True]
    domain_lookup_rep [of session_id al "sessions g" ss True]
  by (simp_all add: agent_lookup_def skill_lookup_def session_lookup_def)

text \<open>The backend answers every call as the abstract registry does.\<close>

lemma mem_call_view:
  assumes inv: "registry_inv s" and acc: "registry_accepting s"
  shows "\<exists>s'. mem_call op s = Some (fst (view_call op (mem_view s)), s') \<and> registry_inv s' \<and> registry_accepting s'
    \<and> mem_view s' = snd (view_call op (mem_view s))"
proof -
  obtain al g where s: "s = (al, g)" by (cases s)
  have on: "reg_initialized g" and mem: "\<forall>t\<ge>tick al. \<not> fails al t" using acc by (auto simp: s registry_accepting_def)
  obtain as ks ss where rep: "dom_rep agent_id al (agents g) as" "dom_rep skill_id al (skills g) ks"
      "dom_rep session_id al (sessions g) ss"
    using inv by (auto simp: s registry_inv_def)
  have view: "mem_view s = \<lparr>v_agents = table_map agent_id as, v_skills = table_map skill_id ks, v_sessions = table_map session_id ss\<rparr>"
    using lookup_of_rep rep on by (simp add: s mem_view_def)
  have goal: "registry_inv (al', g') \<and> registry_accepting (al', g')
      \<and> mem_view (al', g') = \<lparr>v_agents = table_map agent_id as', v_skills = table_map skill_id ks', v_sessions = table_map session_id ss'\<rparr>"
    if "dom_rep agent_id al' (agents g') as'" "dom_rep skill_id al' (skills g') ks'" "dom_rep session_id al' (sessions g') ss'"
      "reg_initialized g'" "\<forall>t\<ge>tick al'. \<not> fails al' t" for al' g' as' ks' ss'
    using that lookup_of_rep that(1-4) by (auto simp: registry_inv_def registry_accepting_def mem_view_def)
  note later = dom_rep_later [OF rep(1)] dom_rep_later [OF rep(2)] dom_rep_later [OF rep(3)]
  show ?thesis
  proof (cases op)
    case (Agent_op c)
    obtain al' d' rs' where run: "reg_exec agent_id True c (al, agents g) = Some (fst (map_call agent_id c (table_map agent_id as)), al', d')"
      "dom_rep agent_id al' d' rs'" "table_map agent_id rs' = snd (map_call agent_id c (table_map agent_id as))"
      "tick al \<le> tick al'" "\<forall>t\<ge>tick al'. \<not> fails al' t" using mem_domain_call [OF rep(1) mem] by blast
    from goal [of al' "g\<lparr>agents := d'\<rparr>" rs' ks ss] run later on show ?thesis
      by (auto simp: Agent_op s mem_calls view [unfolded s] case_prod_beta)
  next
    case (Add_skill r)
    obtain al' d' rs' where run: "reg_exec skill_id True (RAdd r) (al, skills g) = Some (fst (map_call skill_id (RAdd r) (table_map skill_id ks)), al', d')"
      "dom_rep skill_id al' d' rs'" "table_map skill_id rs' = snd (map_call skill_id (RAdd r) (table_map skill_id ks))"
      "tick al \<le> tick al'" "\<forall>t\<ge>tick al'. \<not> fails al' t" using mem_domain_call [OF rep(2) mem] by blast
    from goal [of al' "g\<lparr>skills := d'\<rparr>" as rs' ss] run later on show ?thesis
      by (auto simp: Add_skill s mem_calls view [unfolded s] case_prod_beta simp del: mem_call.simps map_call.simps reg_exec.simps)
  next
    case (Delete_skill k)
    obtain al' d' rs' where run: "reg_exec skill_id True (RDelete k) (al, skills g) = Some (fst (map_call skill_id (RDelete k) (table_map skill_id ks)), al', d')"
      "dom_rep skill_id al' d' rs'" "table_map skill_id rs' = snd (map_call skill_id (RDelete k) (table_map skill_id ks))"
      "tick al \<le> tick al'" "\<forall>t\<ge>tick al'. \<not> fails al' t" using mem_domain_call [OF rep(2) mem] by blast
    from goal [of al' "g\<lparr>skills := d'\<rparr>" as rs' ss] run later on show ?thesis
      by (auto simp: Delete_skill s mem_calls view [unfolded s] case_prod_beta simp del: mem_call.simps map_call.simps reg_exec.simps)
  next
    case (Session_op c)
    obtain al' d' rs' where run: "reg_exec session_id True c (al, sessions g) = Some (fst (map_call session_id c (table_map session_id ss)), al', d')"
      "dom_rep session_id al' d' rs'" "table_map session_id rs' = snd (map_call session_id c (table_map session_id ss))"
      "tick al \<le> tick al'" "\<forall>t\<ge>tick al'. \<not> fails al' t" using mem_domain_call [OF rep(3) mem] by blast
    from goal [of al' "g\<lparr>sessions := d'\<rparr>" as ks rs'] run later on show ?thesis
      by (auto simp: Session_op s mem_calls view [unfolded s] case_prod_beta)
  qed
qed

lemma mem_run_view:
  assumes "registry_inv s" and "registry_accepting s"
  shows "\<exists>s'. mem_run ops s = Some (fst (view_run ops (mem_view s)), s') \<and> registry_inv s' \<and> registry_accepting s'
    \<and> mem_view s' = snd (view_run ops (mem_view s))"
  using assms
proof (induction ops arbitrary: s)
  case (Cons c ops)
  obtain s1 where call: "mem_call c s = Some (fst (view_call c (mem_view s)), s1)" "registry_inv s1" "registry_accepting s1"
      "mem_view s1 = snd (view_call c (mem_view s))"
    using mem_call_view [OF Cons.prems] by blast
  obtain s' where "mem_run ops s1 = Some (fst (view_run ops (mem_view s1)), s')" "registry_inv s'" "registry_accepting s'"
      "mem_view s' = snd (view_run ops (mem_view s1))"
    using Cons.IH [OF call(2,3)] by blast
  with call show ?case by (auto simp: case_prod_beta)
qed simp

section \<open>The SQLite backend\<close>

definition sql_view :: "('w \<Rightarrow> sql_tables) \<Rightarrow> 'w \<Rightarrow> registry_view" where
  "sql_view tabs w = \<lparr>v_agents = row_lookup ''agents'' agent_of_row (tabs w), v_skills = row_lookup ''skills'' skill_of_row (tabs w),
     v_sessions = row_lookup ''sessions'' session_of_row (tabs w)\<rparr>"

text \<open>Autocommit mode, and tables that hold one row for each of some records with different ids.\<close>

definition sql_inv :: "('w \<Rightarrow> sql_tables) \<Rightarrow> ('w \<Rightarrow> sql_tables option) \<Rightarrow> 'w \<Rightarrow> bool" where
  "sql_inv tabs saved w \<longleftrightarrow> saved w = None
     \<and> (\<exists>as. holds_records ''agents'' agent_id agent_row as (tabs w))
     \<and> (\<exists>ks. holds_records ''skills'' skill_id skill_row ks (tabs w))
     \<and> (\<exists>ss. holds_records ''sessions'' session_id session_row ss (tabs w))"

definition keep_agent :: "agent_record \<Rightarrow> agent_record \<Rightarrow> agent_record" where
  "keep_agent x r = r\<lparr>agent_created_at := agent_created_at x\<rparr>"

definition keep_session :: "session_record \<Rightarrow> session_record \<Rightarrow> session_record" where
  "keep_session x r = r\<lparr>session_created_at := session_created_at x\<rparr>"

lemma keep_agent_id [simp]: "agent_id (keep_agent x r) = agent_id r"
  by (simp add: keep_agent_def)

lemma keep_session_id [simp]: "session_id (keep_session x r) = session_id r"
  by (simp add: keep_session_def)

lemma row_merge:
  assumes "row x = row_of cols vals0" and "row y = row_of cols vals1" and "length ucols \<le> length vals"
    and "\<And>c. (if c \<in> set ucols then row_of ucols vals c else row_of cols vals0 c) = row_of cols vals1 c"
  shows "(\<lambda>c. if c \<in> set ucols then bound_row ucols (row_args vals) c else row x c) = row y"
  unfolding assms(1,2) bound_row_args [OF assms(3)] assms(4) ..

lemma reg_call_cases [case_names no_add add no_update update no_delete delete]:
  assumes "c = RAdd None \<Longrightarrow> P" and "\<And>r. c = RAdd (Some r) \<Longrightarrow> P" and "c = RUpdate None \<Longrightarrow> P"
    and "\<And>r. c = RUpdate (Some r) \<Longrightarrow> P" and "c = RDelete None \<Longrightarrow> P" and "\<And>k. c = RDelete (Some k) \<Longrightarrow> P"
  shows P
  using assms by (metis option.exhaust reg_call.exhaust)

lemma agent_update_row:
  assumes "agent_id x = agent_id r"
  shows "(\<lambda>c. if c \<in> set (update_columns agent_update_sql)
      then bound_row (update_columns agent_update_sql) (row_args (bind_agent_update r)) c else agent_row x c) = agent_row (keep_agent x r)"
proof (rule row_merge)
  show "agent_row x = row_of (insert_columns agent_insert_sql) (bind_agent_record x)" by (simp add: agent_row_def)
  show "agent_row (keep_agent x r) = row_of (insert_columns agent_insert_sql) (bind_agent_record (keep_agent x r))"
    by (simp add: agent_row_def)
  show "length (update_columns agent_update_sql) \<le> length (bind_agent_update r)"
    by (simp add: agent_columns bind_agent_update_def)
  show "(if c \<in> set (update_columns agent_update_sql) then row_of (update_columns agent_update_sql) (bind_agent_update r) c
      else row_of (insert_columns agent_insert_sql) (bind_agent_record x) c)
    = row_of (insert_columns agent_insert_sql) (bind_agent_record (keep_agent x r)) c" for c
    using assms by (auto simp: agent_columns row_of_def bind_agent_update_def bind_agent_record_def keep_agent_def)
qed

lemma session_update_row:
  assumes "session_id x = session_id r"
  shows "(\<lambda>c. if c \<in> set (update_columns session_update_sql)
      then bound_row (update_columns session_update_sql) (row_args (bind_session_update r)) c else session_row x c)
    = session_row (keep_session x r)"
proof (rule row_merge)
  show "session_row x = row_of (insert_columns session_insert_sql) (bind_session_row x)" by (simp add: session_row_def)
  show "session_row (keep_session x r) = row_of (insert_columns session_insert_sql) (bind_session_row (keep_session x r))"
    by (simp add: session_row_def)
  show "length (update_columns session_update_sql) \<le> length (bind_session_update r)"
    by (simp add: session_columns bind_session_update_def)
  show "(if c \<in> set (update_columns session_update_sql) then row_of (update_columns session_update_sql) (bind_session_update r) c
      else row_of (insert_columns session_insert_sql) (bind_session_row x) c)
    = row_of (insert_columns session_insert_sql) (bind_session_row (keep_session x r)) c" for c
    using assms by (auto simp: session_columns row_of_def bind_session_update_def bind_session_row_def keep_session_def)
qed

lemma update_ids:
  "row_args (bind_agent_update r) (Suc (length (update_columns agent_update_sql))) = Some (SqText (agent_id r))"
  "row_args (bind_session_update s) (Suc (length (update_columns session_update_sql))) = Some (SqText (session_id s))"
  by (simp_all add: agent_columns session_columns bind_agent_update_def bind_session_update_def row_args_def)

lemma insert_rows_bound:
  "bound_row (insert_columns agent_insert_sql) (row_args (bind_agent_record a)) = agent_row a"
  "bound_row (insert_columns skill_insert_sql) (row_args (bind_skill_row k)) = skill_row k"
  "bound_row (insert_columns session_insert_sql) (row_args (bind_session_row r)) = session_row r"
  by (simp_all add: agent_row_def skill_row_def session_row_def bound_row_args agent_columns skill_columns session_columns
      bind_agent_record_def bind_skill_row_def bind_session_row_def)

text \<open>A call on a table does what the list specification says; SQLite alone decides on \<open>ok\<close>.\<close>

lemma sql_refused:
  assumes "holds_records tb key row rs (tabs w)" and "saved w = None"
  shows "sql_does tabs saved tb key row w (e, w) (e, rs)"
  using assms by (simp add: sql_does_def)

lemma sql_agent_call:
  assumes crud: "sqlite_crud L tabs saved stext sargs" and holds: "holds_records ''agents'' agent_id agent_row as (tabs w)"
    and auto: "saved w = None"
  shows "\<exists>ok. sql_does tabs saved ''agents'' agent_id agent_row w (sql_call L (Agent_op c) (w, g))
      (sql_abs agent_id keep_agent (sql_usable g) ok c as)
    \<and> (sqlite_grants L tabs saved stext sargs \<longrightarrow> ok)"
proof -
  note refused = sql_refused [of "''agents''" agent_id agent_row as tabs w saved, OF holds auto]
  show ?thesis
  proof (cases c rule: reg_call_cases)
    case (add r)
    then show ?thesis
      using agent_rows.exec_add [OF crud holds auto _ write_texts(1) insert_tables(1) insert_rows_bound(1), of r g keep_agent]
        refused by (cases "agent_id r = []") (auto simp: sql_add_agent_def)
  next
    case (update r)
    show ?thesis
      using agent_rows.exec_update [where keep = keep_agent and r = r and g = g,
          OF crud holds auto _ write_texts(6) update_tables(1) update_ids(1) agent_update_row keep_agent_id]
        refused update by (cases "agent_id r = []") (auto simp: sql_update_agent_def)
  next
    case (delete k)
    then show ?thesis
      using agent_rows.exec_delete [OF crud holds auto write_texts(8) delete_tables(1), of k g keep_agent]
      by (simp add: sql_delete_agent_def)
  qed (use refused in \<open>auto simp: sql_add_agent_def sql_update_agent_def sql_delete_agent_def\<close>)
qed

lemma sql_skill_call:
  assumes crud: "sqlite_crud L tabs saved stext sargs" and holds: "holds_records ''skills'' skill_id skill_row ks (tabs w)"
    and auto: "saved w = None"
  shows "\<exists>ok. sql_does tabs saved ''skills'' skill_id skill_row w (sql_call L (Add_skill r) (w, g))
      (sql_abs skill_id (\<lambda>x r. r) (sql_usable g) ok (RAdd r) ks) \<and> (sqlite_grants L tabs saved stext sargs \<longrightarrow> ok)"
    and "\<exists>ok. sql_does tabs saved ''skills'' skill_id skill_row w (sql_call L (Delete_skill k) (w, g))
      (sql_abs skill_id (\<lambda>x r. r) (sql_usable g) ok (RDelete k) ks) \<and> (sqlite_grants L tabs saved stext sargs \<longrightarrow> ok)"
proof -
  note refused = sql_refused [of "''skills''" skill_id skill_row ks tabs w saved, OF holds auto]
  show "\<exists>ok. sql_does tabs saved ''skills'' skill_id skill_row w (sql_call L (Add_skill r) (w, g))
      (sql_abs skill_id (\<lambda>x r. r) (sql_usable g) ok (RAdd r) ks) \<and> (sqlite_grants L tabs saved stext sargs \<longrightarrow> ok)"
  proof (cases r)
    case (Some x)
    then show ?thesis
      using skill_rows.exec_add [OF crud holds auto _ write_texts(2) insert_tables(2) insert_rows_bound(2), of x g "\<lambda>x r. r"]
        refused by (cases "skill_id x = []") (auto simp: sql_add_skill_def)
  qed (use refused in \<open>auto simp: sql_add_skill_def\<close>)
  show "\<exists>ok. sql_does tabs saved ''skills'' skill_id skill_row w (sql_call L (Delete_skill k) (w, g))
      (sql_abs skill_id (\<lambda>x r. r) (sql_usable g) ok (RDelete k) ks) \<and> (sqlite_grants L tabs saved stext sargs \<longrightarrow> ok)"
  proof (cases k)
    case (Some i)
    then show ?thesis
      using skill_rows.exec_delete [OF crud holds auto write_texts(9) delete_tables(2), of i g "\<lambda>x r. r"]
      by (simp add: sql_delete_skill_def)
  qed (use refused in \<open>auto simp: sql_delete_skill_def\<close>)
qed

lemma sql_session_call:
  assumes crud: "sqlite_crud L tabs saved stext sargs" and holds: "holds_records ''sessions'' session_id session_row ss (tabs w)"
    and auto: "saved w = None"
  shows "\<exists>ok. sql_does tabs saved ''sessions'' session_id session_row w (sql_call L (Session_op c) (w, g))
      (sql_abs session_id keep_session (sql_usable g) ok c ss)
    \<and> (sqlite_grants L tabs saved stext sargs \<longrightarrow> ok)"
proof -
  note refused = sql_refused [of "''sessions''" session_id session_row ss tabs w saved, OF holds auto]
  show ?thesis
  proof (cases c rule: reg_call_cases)
    case (add r)
    then show ?thesis
      using session_rows.exec_add [OF crud holds auto _ write_texts(3) insert_tables(4) insert_rows_bound(3), of r g keep_session]
        refused by (cases "session_id r = []") (auto simp: sql_add_session_def)
  next
    case (update r)
    show ?thesis
      using session_rows.exec_update [where keep = keep_session and r = r and g = g,
          OF crud holds auto _ write_texts(7) update_tables(2) update_ids(2) session_update_row keep_session_id]
        refused update by (cases "session_id r = []") (auto simp: sql_update_session_def)
  next
    case (delete k)
    then show ?thesis
      using session_rows.exec_delete [OF crud holds auto write_texts(10) delete_tables(3), of k g keep_session]
      by (simp add: sql_delete_session_def)
  qed (use refused in \<open>auto simp: sql_add_session_def sql_update_session_def sql_delete_session_def\<close>)
qed

section \<open>Refinement of lists of records\<close>

text \<open>The list specification of all calls; \<open>ok\<close> is what SQLite grants, one answer for each call.\<close>

fun lists_call :: "bool \<Rightarrow> bool \<Rightarrow> registry_op \<Rightarrow> record_lists \<Rightarrow> hs_error \<times> record_lists" where
  "lists_call usable ok (Agent_op c) (as, ks, ss) =
     (case sql_abs agent_id keep_agent usable ok c as of (e, as') \<Rightarrow> (e, as', ks, ss))"
| "lists_call usable ok (Add_skill r) (as, ks, ss) =
     (case sql_abs skill_id (\<lambda>x r. r) usable ok (RAdd r) ks of (e, ks') \<Rightarrow> (e, as, ks', ss))"
| "lists_call usable ok (Delete_skill k) (as, ks, ss) =
     (case sql_abs skill_id (\<lambda>x r. r) usable ok (RDelete k) ks of (e, ks') \<Rightarrow> (e, as, ks', ss))"
| "lists_call usable ok (Session_op c) (as, ks, ss) =
     (case sql_abs session_id keep_session usable ok c ss of (e, ss') \<Rightarrow> (e, as, ks, ss'))"

fun lists_run :: "bool \<Rightarrow> (registry_op \<times> bool) list \<Rightarrow> record_lists \<Rightarrow> hs_error list \<times> record_lists" where
  "lists_run usable [] l = ([], l)"
| "lists_run usable ((c, ok) # cs) l =
     (case lists_call usable ok c l of (e, l1) \<Rightarrow> case lists_run usable cs l1 of (es, l') \<Rightarrow> (e # es, l'))"

lemma sql_does_lists:
  assumes "holds_lists tabs saved (as, ks, ss) w"
  shows "sql_does tabs saved ''agents'' agent_id agent_row w (e, w') (e', as') \<Longrightarrow> e = e' \<and> holds_lists tabs saved (as', ks, ss) w'"
    and "sql_does tabs saved ''skills'' skill_id skill_row w (e, w') (e', ks') \<Longrightarrow> e = e' \<and> holds_lists tabs saved (as, ks', ss) w'"
    and "sql_does tabs saved ''sessions'' session_id session_row w (e, w') (e', ss') \<Longrightarrow> e = e' \<and> holds_lists tabs saved (as, ks, ss') w'"
  using assms by (auto simp: sql_does_def holds_lists_def holds_records_def)

lemma sql_call_lists:
  assumes crud: "sqlite_crud L tabs saved stext sargs" and holds: "holds_lists tabs saved l w"
  shows "\<exists>ok w'. sql_call L op (w, g) = (fst (lists_call (sql_usable g) ok op l), w')
    \<and> holds_lists tabs saved (snd (lists_call (sql_usable g) ok op l)) w' \<and> (sqlite_grants L tabs saved stext sargs \<longrightarrow> ok)"
proof -
  obtain as ks ss where l: "l = (as, ks, ss)" by (cases l)
  obtain e w' where run: "sql_call L op (w, g) = (e, w')" by fastforce
  have rec: "holds_records ''agents'' agent_id agent_row as (tabs w)" "holds_records ''skills'' skill_id skill_row ks (tabs w)"
      "holds_records ''sessions'' session_id session_row ss (tabs w)" and auto: "saved w = None"
    using holds by (simp_all add: l holds_lists_def)
  note does = sql_does_lists [OF holds [unfolded l], of e w']
  show ?thesis
  proof (cases op)
    case (Agent_op c)
    obtain ok where ok: "sqlite_grants L tabs saved stext sargs \<longrightarrow> ok" "sql_does tabs saved ''agents'' agent_id agent_row w (e, w')
        (sql_abs agent_id keep_agent (sql_usable g) ok c as)"
      using sql_agent_call [OF crud rec(1) auto, of c g] run by (auto simp: Agent_op)
    then show ?thesis using does(1) run by (intro exI [of _ ok]) (auto simp: Agent_op l split: prod.splits)
  next
    case (Add_skill r)
    obtain ok where ok: "sqlite_grants L tabs saved stext sargs \<longrightarrow> ok" "sql_does tabs saved ''skills'' skill_id skill_row w (e, w')
        (sql_abs skill_id (\<lambda>x r. r) (sql_usable g) ok (RAdd r) ks)"
      using sql_skill_call(1) [OF crud rec(2) auto, of r g] run unfolding Add_skill by auto
    then show ?thesis using does(2) run by (intro exI [of _ ok]) (auto simp: Add_skill l split: prod.splits)
  next
    case (Delete_skill k)
    obtain ok where ok: "sqlite_grants L tabs saved stext sargs \<longrightarrow> ok" "sql_does tabs saved ''skills'' skill_id skill_row w (e, w')
        (sql_abs skill_id (\<lambda>x r. r) (sql_usable g) ok (RDelete k) ks)"
      using sql_skill_call(2) [OF crud rec(2) auto, of k g] run unfolding Delete_skill by auto
    then show ?thesis using does(2) run by (intro exI [of _ ok]) (auto simp: Delete_skill l split: prod.splits)
  next
    case (Session_op c)
    obtain ok where ok: "sqlite_grants L tabs saved stext sargs \<longrightarrow> ok" "sql_does tabs saved ''sessions'' session_id session_row w (e, w')
        (sql_abs session_id keep_session (sql_usable g) ok c ss)"
      using sql_session_call [OF crud rec(3) auto, of c g] run by (auto simp: Session_op)
    then show ?thesis using does(3) run by (intro exI [of _ ok]) (auto simp: Session_op l split: prod.splits)
  qed
qed

text \<open>
  C8. The SQLite backend implements operations on three lists of records. Whichever statements SQLite
  fails to prepare or to run, any sequence of additions, updates and deletions returns the codes and
  leaves the rows that the list specification gives for some choice of failures (for none, when SQLite
  does not fail by itself): a refused or failed call changes no table, a duplicate id is refused, an
  update overwrites all columns but the creation time, every table keeps one row for each record.
\<close>

theorem sqlite_refines_list:
  assumes "sqlite_crud L tabs saved stext sargs" and "holds_lists tabs saved l w" and "sql_run L ops (w, g) = (es, w')"
  shows "\<exists>oks l'. length oks = length ops \<and> lists_run (sql_usable g) (zip ops oks) l = (es, l') \<and> holds_lists tabs saved l' w'
    \<and> (sqlite_grants L tabs saved stext sargs \<longrightarrow> set oks \<subseteq> {True})"
  using assms(2,3)
proof (induction ops arbitrary: l w es)
  case Nil
  then show ?case by simp
next
  case (Cons c ops)
  obtain ok w1 where call: "sql_call L c (w, g) = (fst (lists_call (sql_usable g) ok c l), w1)"
      "holds_lists tabs saved (snd (lists_call (sql_usable g) ok c l)) w1" "sqlite_grants L tabs saved stext sargs \<longrightarrow> ok"
    using sql_call_lists [OF assms(1) Cons.prems(1), of c g] by blast
  obtain es1 where rest: "sql_run L ops (w1, g) = (es1, w')" "es = fst (lists_call (sql_usable g) ok c l) # es1"
    using Cons.prems(2) call(1) by (auto split: prod.splits)
  obtain oks l' where IH: "length oks = length ops" "holds_lists tabs saved l' w'"
      "lists_run (sql_usable g) (zip ops oks) (snd (lists_call (sql_usable g) ok c l)) = (es1, l')"
      "sqlite_grants L tabs saved stext sargs \<longrightarrow> set oks \<subseteq> {True}"
    using Cons.IH [OF call(2) rest(1)] by blast
  have "lists_run (sql_usable g) (zip (c # ops) (ok # oks)) l = (es, l')"
    by (simp add: case_prod_beta IH(3) rest(2) del: lists_call.simps)
  moreover have "length (ok # oks) = length (c # ops)" by (simp add: IH(1))
  moreover have "sqlite_grants L tabs saved stext sargs \<longrightarrow> set (ok # oks) \<subseteq> {True}" using IH(4) call(3) by simp
  ultimately show ?case using IH(2) by blast
qed

subsection \<open>The lists as maps\<close>

fun lists_view :: "record_lists \<Rightarrow> registry_view" where
  "lists_view (as, ks, ss) = \<lparr>v_agents = table_map agent_id as, v_skills = table_map skill_id ks, v_sessions = table_map session_id ss\<rparr>"

lemma sql_inv_lists: "sql_inv tabs saved w \<longleftrightarrow> (\<exists>l. holds_lists tabs saved l w)"
  by (auto simp: sql_inv_def holds_lists_def)

lemma sql_invI: "holds_lists tabs saved l w \<Longrightarrow> sql_inv tabs saved w"
  unfolding sql_inv_lists by blast

lemma sql_view_lists: "holds_lists tabs saved l w \<Longrightarrow> sql_view tabs w = lists_view l"
  by (cases l) (simp add: sql_view_def holds_lists_def agent_rows.lookup_records skill_rows.lookup_records session_rows.lookup_records)

text \<open>
  SQLite does not say whether an UPDATE or DELETE found its row, and reports a duplicate id as any
  other failure.
\<close>

definition sql_code :: "hs_error \<Rightarrow> hs_error" where
  "sql_code e = (if e = ERR_NOT_FOUND then SUCCESS else if e = ERR_ALREADY_INITIALIZED then ERR_DB_QUERY_FAILED else e)"

lemma sql_abs_map:
  assumes "\<And>x r. key (keep x r) = key r" and "\<And>r x. c = RUpdate (Some r) \<Longrightarrow> table_map key rs (key r) = Some x \<Longrightarrow> keep x r = r"
  shows "fst (sql_abs key keep True True c rs) = sql_code (fst (map_call key c (table_map key rs)))"
    and "table_map key (snd (sql_abs key keep True True c rs)) = snd (map_call key c (table_map key rs))"
proof -
  have "fst (sql_abs key keep True True c rs) = sql_code (fst (map_call key c (table_map key rs)))
    \<and> table_map key (snd (sql_abs key keep True True c rs)) = snd (map_call key c (table_map key rs))"
  proof (cases c rule: reg_call_cases)
    case (update r)
    have "table_map key (map (\<lambda>x. if key x = key r then keep x r else x) rs)
        = (table_map key rs)(key r := map_option (\<lambda>x. keep x r) (table_map key rs (key r)))"
      by (rule table_map_merge) (simp add: assms(1))
    then show ?thesis using update assms(2) [OF update] by (cases "table_map key rs (key r)") (auto simp: sql_code_def)
  next
    case (delete k)
    then show ?thesis by (auto simp: sql_code_def table_map_filter fun_eq_iff)
  qed (auto simp: sql_code_def table_map_None table_map_append_new)
  then show "fst (sql_abs key keep True True c rs) = sql_code (fst (map_call key c (table_map key rs)))"
    and "table_map key (snd (sql_abs key keep True True c rs)) = snd (map_call key c (table_map key rs))" by simp_all
qed

text \<open>
  An update through SQLite leaves the creation time of the insertion; the other backend replaces the
  whole record. The two agree on updates that carry the stored creation time.
\<close>

fun times_kept :: "registry_op \<Rightarrow> registry_view \<Rightarrow> bool" where
  "times_kept (Agent_op (RUpdate (Some r))) v \<longleftrightarrow>
     (case v_agents v (agent_id r) of None \<Rightarrow> True | Some x \<Rightarrow> agent_created_at r = agent_created_at x)"
| "times_kept (Session_op (RUpdate (Some r))) v \<longleftrightarrow>
     (case v_sessions v (session_id r) of None \<Rightarrow> True | Some x \<Rightarrow> session_created_at r = session_created_at x)"
| "times_kept c v \<longleftrightarrow> True"

fun all_times_kept :: "registry_op list \<Rightarrow> registry_view \<Rightarrow> bool" where
  "all_times_kept [] v \<longleftrightarrow> True"
| "all_times_kept (c # cs) v \<longleftrightarrow> times_kept c v \<and> all_times_kept cs (snd (view_call c v))"

lemma lists_call_view:
  assumes "times_kept op (lists_view l)"
  shows "fst (lists_call True True op l) = sql_code (fst (view_call op (lists_view l)))
    \<and> lists_view (snd (lists_call True True op l)) = snd (view_call op (lists_view l))"
proof -
  obtain as ks ss where l: "l = (as, ks, ss)" by (cases l)
  show ?thesis
  proof (cases op)
    case (Agent_op c)
    have "keep_agent x r = r" if "c = RUpdate (Some r)" "table_map agent_id as (agent_id r) = Some x" for r x
      using assms that by (simp add: Agent_op l keep_agent_def)
    then show ?thesis using sql_abs_map [of agent_id keep_agent c as]
      by (simp add: Agent_op l case_prod_beta)
  next
    case (Session_op c)
    have "keep_session x r = r" if "c = RUpdate (Some r)" "table_map session_id ss (session_id r) = Some x" for r x
      using assms that by (simp add: Session_op l keep_session_def)
    then show ?thesis using sql_abs_map [of session_id keep_session c ss]
      by (simp add: Session_op l case_prod_beta)
  next
    case (Add_skill r)
    then show ?thesis using sql_abs_map [of skill_id "\<lambda>x r. r" "RAdd r" ks]
      by (simp add: l case_prod_beta del: sql_abs.simps map_call.simps)
  next
    case (Delete_skill k)
    then show ?thesis using sql_abs_map [of skill_id "\<lambda>x r. r" "RDelete k" ks]
      by (simp add: l case_prod_beta del: sql_abs.simps map_call.simps)
  qed
qed

lemma sql_call_view:
  assumes crud: "sqlite_crud L tabs saved stext sargs" and grants: "sqlite_grants L tabs saved stext sargs"
    and inv: "sql_inv tabs saved w" and use: "sql_usable g" and times: "times_kept op (sql_view tabs w)"
  shows "\<exists>w'. sql_call L op (w, g) = (sql_code (fst (view_call op (sql_view tabs w))), w') \<and> sql_inv tabs saved w'
    \<and> sql_view tabs w' = snd (view_call op (sql_view tabs w))"
proof -
  obtain l where l: "holds_lists tabs saved l w" using inv by (auto simp: sql_inv_lists)
  obtain w' where "sql_call L op (w, g) = (fst (lists_call True True op l), w')"
      "holds_lists tabs saved (snd (lists_call True True op l)) w'"
    using sql_call_lists [OF crud l, of op g] grants use by auto
  with lists_call_view [of op l] times sql_invI [OF this(2)] sql_view_lists [OF this(2)] show ?thesis
    by (simp add: sql_view_lists [OF l])
qed

lemma sql_run_view:
  assumes crud: "sqlite_crud L tabs saved stext sargs" and grants: "sqlite_grants L tabs saved stext sargs" and use: "sql_usable g"
  shows "sql_inv tabs saved w \<Longrightarrow> all_times_kept ops (sql_view tabs w) \<Longrightarrow>
    \<exists>w'. sql_run L ops (w, g) = (map sql_code (fst (view_run ops (sql_view tabs w))), w') \<and> sql_inv tabs saved w'
      \<and> sql_view tabs w' = snd (view_run ops (sql_view tabs w))"
proof (induction ops arbitrary: w)
  case (Cons c ops)
  obtain w1 where call: "sql_call L c (w, g) = (sql_code (fst (view_call c (sql_view tabs w))), w1)" "sql_inv tabs saved w1"
      "sql_view tabs w1 = snd (view_call c (sql_view tabs w))"
    using sql_call_view [OF crud grants Cons.prems(1) use, of c] Cons.prems(2) by auto
  have "all_times_kept ops (sql_view tabs w1)" using Cons.prems(2) call(3) by simp
  with Cons.IH [OF call(2)] call show ?case by (auto simp: case_prod_beta)
qed simp

section \<open>The backends agree\<close>


subsection \<open>The getters\<close>

definition view_fits :: "registry_view \<Rightarrow> bool" where
  "view_fits v \<longleftrightarrow> (\<forall>k r. v_agents v k = Some r \<longrightarrow> agent_fits r) \<and> (\<forall>k r. v_skills v k = Some r \<longrightarrow> skill_fits r)
     \<and> (\<forall>k r. v_sessions v k = Some r \<longrightarrow> session_fits r)"

definition found :: "'r option \<Rightarrow> hs_error \<times> 'r option" where
  "found r = (if r = None then ERR_NOT_FOUND else SUCCESS, r)"

context sql_domain
begin

lemma query_found:
  assumes crud: "sqlite_crud L tabs saved stext sargs" and grants: "sqlite_grants L tabs saved stext sargs" and use: "sql_usable g"
    and holds: "holds_records tb key row rs (tabs w)" and sql: "sql \<in> select_texts" "table_after '' FROM '' sql = tb"
    and reads: "\<And>st w2 r. row_lookup tb read (tabs w) k = Some r \<Longrightarrow> on_row L st w2 (select_columns sql) (row r) \<Longrightarrow> extract st w2 = r"
  shows "\<exists>w'. registry_query_one L sql (registry_bind_id k) extract (w, g)
      = (fst (found (row_lookup tb read (tabs w) k)), row_lookup tb read (tabs w) k, w')
    \<and> tabs w' = tabs w \<and> saved w' = saved w"
proof -
  obtain e r w' where run: "registry_query_one L sql (registry_bind_id k) extract (w, g) = (e, r, w')" by (metis prod_cases3)
  note out = query_one_outcome [OF crud sql(1) run]
  note sel = select_record [OF holds sql(2), of k, folded registry_bind_id_def]
  show ?thesis
  proof (cases "e = SUCCESS")
    case True
    then show ?thesis using out(1,2,3) sel reads run by (auto simp: found_def)
  next
    case False
    then have "e = ERR_NOT_FOUND" using out(6) [OF grants use] by blast
    then show ?thesis using out(1,2,4,5) False sel run by (auto simp: found_def)
  qed
qed

end

lemma mem_get:
  assumes "dom_rep key al d rs"
  shows "reg_get key True k out d = Some (case k of Some i \<Rightarrow> if out then found (table_map key rs i) else (ERR_INVALID_PARAM, None)
    | None \<Rightarrow> (ERR_INVALID_PARAM, None))"
  using reg_get_rep [OF assms] by (auto simp: reg_get_def found_def split: option.splits)

text \<open>
  On equal contents of records that fit their arrays the getters of the two backends return
  the same code and the same record for every id, and reading changes nothing.
\<close>

theorem getters_agree:
  assumes "sqlite_crud L tabs saved stext sargs" and "sqlite_grants L tabs saved stext sargs"
    and "sql_usable gs" and "sql_inv tabs saved w" and "registry_inv (al, g)" and "reg_initialized g" and "strncpy_ok A"
    and "mem_view (al, g) = sql_view tabs w" and "view_fits (sql_view tabs w)"
  shows "(\<exists>e r w'. heapstore_registry_get_agent k out g = Some (e, r) \<and> sql_get_agent L A k out (w, gs) = (e, r, w')
        \<and> tabs w' = tabs w \<and> saved w' = saved w)
    \<and> (\<exists>e r w'. heapstore_registry_get_skill k out g = Some (e, r) \<and> sql_get_skill L A k out (w, gs) = (e, r, w')
        \<and> tabs w' = tabs w \<and> saved w' = saved w)
    \<and> (\<exists>e r w'. heapstore_registry_get_session k out g = Some (e, r) \<and> sql_get_session L A k out (w, gs) = (e, r, w')
        \<and> tabs w' = tabs w \<and> saved w' = saved w)"
proof -
  obtain as ks ss where rep: "dom_rep agent_id al (agents g) as" "dom_rep skill_id al (skills g) ks"
      "dom_rep session_id al (sessions g) ss"
    using assms(5) by (auto simp: registry_inv_def)
  have same: "table_map agent_id as = row_lookup ''agents'' agent_of_row (tabs w)"
      "table_map skill_id ks = row_lookup ''skills'' skill_of_row (tabs w)"
      "table_map session_id ss = row_lookup ''sessions'' session_of_row (tabs w)"
    using assms(8) lookup_of_rep(1) [OF rep(1) assms(6)] lookup_of_rep(2) [OF rep(2) assms(6)]
      lookup_of_rep(3) [OF rep(3) assms(6)] by (simp_all add: mem_view_def sql_view_def)
  obtain as' ks' ss' where rec: "holds_records ''agents'' agent_id agent_row as' (tabs w)"
      "holds_records ''skills'' skill_id skill_row ks' (tabs w)" "holds_records ''sessions'' session_id session_row ss' (tabs w)"
    using assms(4) by (auto simp: sql_inv_def)
  have reads: "row_lookup ''agents'' agent_of_row (tabs w) i = Some a \<Longrightarrow> on_row L st w2 (select_columns agent_select_sql) (agent_row a)
        \<Longrightarrow> extract_agent_row L A st w2 = a"
      "row_lookup ''skills'' skill_of_row (tabs w) i = Some b \<Longrightarrow> on_row L st w2 (select_columns skill_select_sql) (skill_row b)
        \<Longrightarrow> extract_skill_row L A st w2 = b"
      "row_lookup ''sessions'' session_of_row (tabs w) i = Some c \<Longrightarrow> on_row L st w2 (select_columns session_select_sql) (session_row c)
        \<Longrightarrow> extract_session_row L A st w2 = c" for i a b c st w2
    using assms(9) agent_row_back [OF assms(7), of a L st w2] skill_row_back [OF assms(7), of b skill_insert_sql L st w2]
      session_row_back [OF assms(7), of c session_insert_sql L st w2]
    by (auto simp: view_fits_def sql_view_def agent_row_def skill_row_def session_row_def agent_columns)
  note query = agent_rows.query_found [OF assms(1-3) rec(1) write_texts(11) select_tables(1) reads(1)]
    skill_rows.query_found [OF assms(1-3) rec(2) write_texts(12) select_tables(2) reads(2)]
    session_rows.query_found [OF assms(1-3) rec(3) write_texts(13) select_tables(3) reads(3)]
  note mem = mem_get [OF rep(1), unfolded same] mem_get [OF rep(2), unfolded same] mem_get [OF rep(3), unfolded same]
  show ?thesis
  proof (cases "k = None \<or> \<not> out")
    case True
    then show ?thesis
      by (auto simp: heapstore_registry_get_agent_def heapstore_registry_get_skill_def heapstore_registry_get_session_def
          sql_get_agent_def sql_get_skill_def sql_get_session_def mem assms(6) split: option.splits)
  next
    case False
    then obtain i where k: "k = Some i" and out by auto
    from query(1) [of i] query(2) [of i] query(3) [of i] show ?thesis
      by (auto simp: k \<open>out\<close> heapstore_registry_get_agent_def heapstore_registry_get_skill_def heapstore_registry_get_session_def
          sql_get_agent_def sql_get_skill_def sql_get_session_def mem assms(6) found_def)
  qed
qed

subsection \<open>Iteration\<close>

lemma same_records:
  assumes "table_map key rs = table_map key rs'" and "distinct (map key rs)" and "distinct (map key rs')"
  shows "mset rs = mset rs'"
proof -
  have "set xs = {r. table_map key xs (key r) = Some r}" if "distinct (map key xs)" for xs
    using that by (induction xs) (auto simp: image_iff)
  then have "set rs = set rs'" using assms by simp
  then show ?thesis using assms(2,3) set_eq_iff_mset_eq_distinct by (auto simp: distinct_map)
qed

lemma dom_rep_distinct: "dom_rep key al d rs \<Longrightarrow> distinct (map key rs)"
  by (auto simp: dom_rep_def dom_shape_def)

lemma sql_yields_all:
  "sql_yields L A tabs True n (Some it) w C wanted le \<Longrightarrow>
    \<exists>ys w'. sql_collect n L A it w = Some (map C ys, w') \<and> mset ys = mset wanted"
  by (auto simp: sql_yields_def)

text \<open>
  C25. The same query on both backends. From equal contents a complete iteration of the SQLite backend
  returns the part of the records returned by the in-memory backend that matches the filters, in
  another order; without filters, and for skills, both return the same records, each once. The
  in-memory backend ignores the filters.
\<close>

theorem iterations_agree:
  assumes "sqlite_crud L tabs saved stext sargs" and "sqlite_queries L tabs saved stext sargs pending" and "query_grants L stext"
    and "holds_lists tabs saved (as, ks, ss) w" and "lists_fit (as, ks, ss)" and "strncpy_ok A"
    and "registry_inv (al, g)" and "reg_initialized g" and "mem_view (al, g) = sql_view tabs w"
    and "length as < n" and "length ks < n" and "length ss < n"
  shows "(heapstore_registry_query_agents ft fs True (al, g) = (SUCCESS, Some im, al1)
        \<and> sql_query_agents L ft fs True al2 (w, gs) = (SUCCESS, Some it, al3, w') \<longrightarrow>
        (\<exists>xs ys w2. iter_collect n im (agents g) = Some xs \<and> sql_collect n L A it w' = Some (map AgentRec ys, w2)
           \<and> mset ys = filter_mset (agent_wanted ft fs) (mset xs)))
    \<and> (heapstore_registry_query_skills True (al, g) = (SUCCESS, Some im, al1)
        \<and> sql_query_skills L True al2 (w, gs) = (SUCCESS, Some it, al3, w') \<longrightarrow>
        (\<exists>xs ys w2. iter_collect n im (skills g) = Some xs \<and> sql_collect n L A it w' = Some (map SkillRec ys, w2) \<and> mset ys = mset xs))
    \<and> (heapstore_registry_query_sessions fs True (al, g) = (SUCCESS, Some im, al1)
        \<and> sql_query_sessions L fs True al2 (w, gs) = (SUCCESS, Some it, al3, w') \<longrightarrow>
        (\<exists>xs ys w2. iter_collect n im (sessions g) = Some xs \<and> sql_collect n L A it w' = Some (map SessionRec ys, w2)
           \<and> mset ys = filter_mset (session_wanted fs) (mset xs)))"
proof -
  obtain as' ks' ss' where rep: "dom_rep agent_id al (agents g) as'" "dom_rep skill_id al (skills g) ks'"
      "dom_rep session_id al (sessions g) ss'"
    using assms(7) by (auto simp: registry_inv_def)
  have rec: "holds_records ''agents'' agent_id agent_row as (tabs w)" "holds_records ''skills'' skill_id skill_row ks (tabs w)"
      "holds_records ''sessions'' session_id session_row ss (tabs w)"
    using assms(4) by (simp_all add: holds_lists_def)
  have "table_map agent_id as' = table_map agent_id as" "table_map skill_id ks' = table_map skill_id ks"
      "table_map session_id ss' = table_map session_id ss"
    using assms(9) lookup_of_rep(1) [OF rep(1) assms(8)] lookup_of_rep(2) [OF rep(2) assms(8)]
      lookup_of_rep(3) [OF rep(3) assms(8)] sql_view_lists [OF assms(4)] by (simp_all add: mem_view_def)
  then have same: "mset as' = mset as" "mset ks' = mset ks" "mset ss' = mset ss"
    using rep rec by (auto simp: holds_records_def dom_rep_distinct intro!: same_records)
  have short: "length as' < n" "length ks' < n" "length ss' < n" using same [THEN mset_eq_length] assms(10-12) by simp_all
  have fit: "list_all agent_fits as" "list_all skill_fits ks" "list_all session_fits ss" using assms(5) by (simp_all add: lists_fit_def)
  note yields = agent_query_yields [OF assms(1,2) rec(1) fit(1) assms(6,10), THEN conjunct1, unfolded eqTrueI [OF assms(3)], THEN sql_yields_all]
    skill_query_yields [OF assms(1,2) rec(2) fit(2) assms(6,11), THEN conjunct1, unfolded eqTrueI [OF assms(3)], THEN sql_yields_all]
    session_query_yields [OF assms(1,2) rec(3) fit(3) assms(6,12), THEN conjunct1, unfolded eqTrueI [OF assms(3)], THEN sql_yields_all]
  note mem = iteration_yields_all [OF rep(1) _ short(1)] iteration_yields_all [OF rep(2) _ short(2)] iteration_yields_all [OF rep(3) _ short(3)]
  show ?thesis
    using yields mem same
    by (auto simp: heapstore_registry_query_agents_def heapstore_registry_query_skills_def heapstore_registry_query_sessions_def assms(8))
qed

section \<open>The write batch over SQLite\<close>

text \<open>
  heapstore_registry_add_session of a build with SQLite, as the batch calls it. Sessions are a strict
  store whatever SQLite fails to do, and an open one when it does not fail by itself.
\<close>

definition sql_session_insert :: "'w sqlite3 \<Rightarrow> session_record option \<Rightarrow> 'w \<times> sql_registry \<Rightarrow> (hs_error \<times> 'w \<times> sql_registry) option" where
  "sql_session_insert L r s = (case sql_add_session L r s of (e, w) \<Rightarrow> Some (e, w, snd s))"

definition sql_session_lookup :: "('w \<Rightarrow> sql_tables) \<Rightarrow> 'w \<times> sql_registry \<Rightarrow> string \<Rightarrow> session_record option" where
  "sql_session_lookup tabs = (\<lambda>(w, g). v_sessions (sql_view tabs w))"

definition sql_store_inv :: "('w \<Rightarrow> sql_tables) \<Rightarrow> ('w \<Rightarrow> sql_tables option) \<Rightarrow> sql_registry \<Rightarrow> 'w \<times> sql_registry \<Rightarrow> bool" where
  "sql_store_inv tabs saved g0 = (\<lambda>(w, g). sql_inv tabs saved w \<and> g = g0)"

lemma sql_insert_contract:
  assumes crud: "sqlite_crud L tabs saved stext sargs" and inv: "sql_store_inv tabs saved g s"
  shows "\<exists>e s'. sql_session_insert L (Some r) s = Some (e, s')
    \<and> stores session_id (sql_session_lookup tabs) (sql_store_inv tabs saved g) r s e s'
    \<and> (sql_session_lookup tabs s (session_id r) \<noteq> None \<longrightarrow> e \<noteq> SUCCESS)
    \<and> (sqlite_grants L tabs saved stext sargs \<longrightarrow> sql_usable g \<longrightarrow> session_id r \<noteq> [] \<longrightarrow>
        sql_session_lookup tabs s (session_id r) = None \<longrightarrow> e = SUCCESS)"
proof -
  obtain w l where s: "s = (w, g)" and l: "holds_lists tabs saved l w" using inv by (auto simp: sql_store_inv_def sql_inv_lists)
  obtain as ks ss where lists: "l = (as, ks, ss)" by (cases l)
  obtain ok w' where run: "sql_add_session L (Some r) (w, g) = (fst (lists_call (sql_usable g) ok (Session_op (RAdd (Some r))) l), w')"
      "holds_lists tabs saved (snd (lists_call (sql_usable g) ok (Session_op (RAdd (Some r))) l)) w'"
      "sqlite_grants L tabs saved stext sargs \<longrightarrow> ok"
    using sql_call_lists [OF crud l, of "Session_op (RAdd (Some r))" g] by auto
  show ?thesis
    using run(1,3) sql_view_lists [OF l] sql_view_lists [OF run(2)] sql_invI [OF run(2)]
    by (auto simp: s lists sql_session_insert_def sql_session_lookup_def sql_store_inv_def stores_def
        table_map_append_new table_map_None)
qed

lemma sql_strict_store:
  assumes "sqlite_crud L tabs saved stext sargs"
  shows "strict_store session_id (sql_session_lookup tabs) (\<lambda>r. sql_session_insert L (Some r)) (sql_store_inv tabs saved g)"
  using sql_insert_contract [OF assms] by (intro strict_storeI) blast

lemma sql_open_store:
  assumes crud: "sqlite_crud L tabs saved stext sargs" and "sqlite_grants L tabs saved stext sargs"
  shows "open_store session_id (sql_session_lookup tabs) (\<lambda>r. sql_session_insert L (Some r)) (sql_store_inv tabs saved g)
    (\<lambda>(w, g). sql_usable g)"
proof (rule open_store.intro [OF sql_strict_store [OF crud]], unfold_locales)
  fix s r e s'
  assume s: "sql_store_inv tabs saved g s" "case s of (w, g) \<Rightarrow> sql_usable g" and run: "sql_session_insert L (Some r) s = Some (e, s')"
  then have use: "sql_usable g" by (auto simp: sql_store_inv_def)
  from sql_insert_contract [OF crud s(1), of r] run assms(2) use
  have "sql_store_inv tabs saved g s'"
    and ok: "session_id r \<noteq> [] \<Longrightarrow> sql_session_lookup tabs s (session_id r) = None \<Longrightarrow> e = SUCCESS" by (auto simp: stores_def)
  then show "case s' of (w, g) \<Rightarrow> sql_usable g" using use by (auto simp: sql_store_inv_def)
  show "e = SUCCESS" if "session_id r \<noteq> []" "sql_session_lookup tabs s (session_id r) = None" using ok that by blast
qed

text \<open>
  C26. The batch commit over the SQLite backend. Whatever SQLite fails to do in between, a commit
  returns, leaves autocommit mode and well-formed tables, keeps every stored session, stores nothing
  but items of the batch and reports success only when all of them are stored. When SQLite does not
  fail by itself and no id is empty, the outcome is that of the in-memory backend: an id that is stored
  keeps its record, any other gets the first item that carries it, and the commit succeeds if and only
  if no item was a duplicate.
\<close>

theorem sqlite_batch_commit:
  assumes "sqlite_crud L tabs saved stext sargs" and "sql_inv tabs saved w" and "batch_inv c"
  shows "\<exists>e c' w'. heapstore_batch_commit (sql_session_insert L) (Some c) (w, g) = Some (e, Some c', w', g)
    \<and> sql_inv tabs saved w' \<and> batch_inv c' \<and> items c' = []
    \<and> (\<forall>k v. v_sessions (sql_view tabs w) k = Some v \<longrightarrow> v_sessions (sql_view tabs w') k = Some v)
    \<and> dom (v_sessions (sql_view tabs w')) \<subseteq> dom (v_sessions (sql_view tabs w)) \<union> session_id ` set (items c)
    \<and> (e = SUCCESS \<longrightarrow> (\<forall>r\<in>set (items c). v_sessions (sql_view tabs w') (session_id r) = Some r))
    \<and> (sqlite_grants L tabs saved stext sargs \<and> sql_usable g \<and> [] \<notin> session_id ` set (items c) \<longrightarrow>
        v_sessions (sql_view tabs w') = table_map session_id (items c) ++ v_sessions (sql_view tabs w)
        \<and> (e = SUCCESS \<longleftrightarrow> distinct (map session_id (items c))
              \<and> session_id ` set (items c) \<inter> dom (v_sessions (sql_view tabs w)) = {}))"
proof -
  have inv: "sql_store_inv tabs saved g (w, g)" using assms(2) by (simp add: sql_store_inv_def)
  obtain e s' where run: "batch_commit_loop (sql_session_insert L) (items c) SUCCESS (w, g) = Some (e, s')"
    and post: "sql_store_inv tabs saved g s'"
      "\<forall>k v. sql_session_lookup tabs (w, g) k = Some v \<longrightarrow> sql_session_lookup tabs s' k = Some v"
      "e = SUCCESS \<longrightarrow> (\<forall>r\<in>set (items c). sql_session_lookup tabs s' (session_id r) = Some r)"
      "dom (sql_session_lookup tabs s') \<subseteq> dom (sql_session_lookup tabs (w, g)) \<union> session_id ` set (items c)"
    using strict_store.commit_loop_defined [OF sql_strict_store [OF assms(1)] inv refl] by blast
  obtain w' where s': "s' = (w', g)" and w': "sql_inv tabs saved w'" using post(1) by (auto simp: sql_store_inv_def)
  have exact: "sql_session_lookup tabs s' = table_map session_id (items c) ++ sql_session_lookup tabs (w, g)
      \<and> (e = SUCCESS \<longleftrightarrow> distinct (map session_id (items c)) \<and> session_id ` set (items c) \<inter> dom (sql_session_lookup tabs (w, g)) = {})"
    if "sqlite_grants L tabs saved stext sargs" "sql_usable g" "[] \<notin> session_id ` set (items c)"
    using open_store.commit_loop_first_wins [OF sql_open_store [OF assms(1) that(1)] inv _ that(3) refl, of SUCCESS] that(2) run
    by auto
  have "heapstore_batch_commit (sql_session_insert L) (Some c) (w, g) = Some (e, Some (snd (batch_detach c)), w', g)"
    using run by (simp add: heapstore_batch_commit_def batch_detach_def s')
  moreover have "items (snd (batch_detach c)) = []" by (simp add: batch_detach_def)
  ultimately show ?thesis
    using post(2-4) exact w' batch_detach_inv [OF assms(3)]
    by (intro exI conjI) (assumption | simp add: s' sql_session_lookup_def)+
qed

section \<open>Examples\<close>

definition empty_view :: registry_view where
  "empty_view = \<lparr>v_agents = Map.empty, v_skills = Map.empty, v_sessions = Map.empty\<rparr>"

lemma mini_start:
  "holds_lists mini_tabs (\<lambda>_. None) ([], [], []) mini_db0" "sql_inv mini_tabs (\<lambda>_. None) mini_db0" "sql_usable mini_reg"
  "sql_view mini_tabs mini_db0 = empty_view"
proof -
  show "holds_lists mini_tabs (\<lambda>_. None) ([], [], []) mini_db0"
    by (simp add: holds_lists_def holds_records_def mini_db0_def)
  then show "sql_inv mini_tabs (\<lambda>_. None) mini_db0" by (rule sql_invI)
qed (simp_all add: sql_usable_def mini_reg_def sql_view_def row_lookup_def mini_db0_def empty_view_def fun_eq_iff)

lemma demo_view: "mem_view (demo_alloc, demo_registry) = empty_view"
proof -
  have "agents demo_registry = empty_domain" "skills demo_registry = empty_domain" "sessions demo_registry = empty_domain"
    "reg_initialized demo_registry" by (simp_all add: demo_registry_def)
  then show ?thesis
    using lookup_of_rep [of demo_alloc demo_registry "[]"] lookup_of_rep(2) [of demo_alloc demo_registry "[]"]
      lookup_of_rep(3) [of demo_alloc demo_registry "[]"]
    by (simp add: mem_view_def empty_view_def dom_rep_empty)
qed

lemma demo_accepting: "registry_accepting (demo_alloc, demo_registry)"
  by (simp add: registry_accepting_def demo_alloc_def demo_registry_def)

text \<open>A session is added twice and deleted twice.\<close>

definition demo_ops :: "registry_op list" where
  "demo_ops = [Session_op (RAdd (Some (demo_session ''s1''))), Session_op (RAdd (Some (demo_session ''s1''))),
     Session_op (RDelete (Some ''s1'')), Session_op (RDelete (Some ''s1''))]"

lemma demo_ops_length: "length demo_ops = 4"
  by (simp add: demo_ops_def)

theorem sqlite_refines_list_witness:
  "\<exists>oks l'. length oks = 4 \<and> holds_lists mini_tabs (\<lambda>_. None) l' (snd (sql_run mini_lib demo_ops (mini_db0, mini_reg)))
    \<and> lists_run True (zip demo_ops oks) ([], [], []) = (fst (sql_run mini_lib demo_ops (mini_db0, mini_reg)), l')"
proof -
  have use: "sql_usable mini_reg = True" using mini_start(3) by simp
  show ?thesis
    using sqlite_refines_list [OF mini_crud mini_start(1) prod.collapse [symmetric], of demo_ops mini_reg, unfolded demo_ops_length use]
    by blast
qed


text \<open>One session, stored in both backends.\<close>

definition one_alloc :: allocator where "one_alloc = demo_alloc\<lparr>tick := 2\<rparr>"

definition one_registry :: registry where "one_registry = demo_registry\<lparr>sessions := demo_domain\<rparr>"

definition one_session :: mini_db where
  "one_session = mini_db0\<lparr>mini_tabs := (\<lambda>_. [])(''sessions'' := [session_row (demo_session ''s1'')])\<rparr>"

lemma one_stored:
  "registry_inv (one_alloc, one_registry)" "reg_initialized one_registry"
  "holds_lists mini_tabs (\<lambda>_. None) ([], [], [demo_session ''s1'']) one_session" "lists_fit ([], [], [demo_session ''s1''])"
  "mem_view (one_alloc, one_registry) = sql_view mini_tabs one_session"
proof -
  have rep: "dom_rep agent_id one_alloc (agents one_registry) []" "dom_rep skill_id one_alloc (skills one_registry) []"
      "dom_rep session_id one_alloc (sessions one_registry) [demo_session ''s1'']"
    using demo_domain_rep by (simp_all add: one_registry_def demo_registry_def one_alloc_def dom_rep_empty)
  then show "registry_inv (one_alloc, one_registry)" by (auto simp: registry_inv_def)
  show on: "reg_initialized one_registry" by (simp add: one_registry_def demo_registry_def)
  show holds: "holds_lists mini_tabs (\<lambda>_. None) ([], [], [demo_session ''s1'']) one_session"
    by (simp add: holds_lists_def holds_records_def one_session_def mini_db0_def)
  show "lists_fit ([], [], [demo_session ''s1''])" by (simp add: lists_fit_def session_fits_def demo_session_def)
  show "mem_view (one_alloc, one_registry) = sql_view mini_tabs one_session"
    using lookup_of_rep(1) [OF rep(1) on] lookup_of_rep(2) [OF rep(2) on] lookup_of_rep(3) [OF rep(3) on]
    by (simp add: mem_view_def sql_view_lists [OF holds])
qed

lemma demo_strncpy: "strncpy_ok demo_airy"
  by (simp add: strncpy_ok_def demo_airy_def)

theorem getters_agree_witness:
  "\<exists>w'. heapstore_registry_get_session (Some ''s1'') True one_registry = Some (SUCCESS, Some (demo_session ''s1''))
    \<and> sql_get_session mini_lib demo_airy (Some ''s1'') True (one_session, mini_reg) = (SUCCESS, Some (demo_session ''s1''), w')"
proof -
  have "view_fits (sql_view mini_tabs one_session)"
    by (auto simp: sql_view_lists [OF one_stored(3)] view_fits_def session_fits_def demo_session_def split: if_splits)
  moreover have "heapstore_registry_get_session (Some ''s1'') True one_registry = Some (SUCCESS, Some (demo_session ''s1''))"
    using mem_get [OF demo_domain_rep, of "Some ''s1''" True] one_stored(2)
    by (simp add: heapstore_registry_get_session_def one_registry_def found_def demo_session_def)
  ultimately show ?thesis
    using getters_agree [OF mini_crud mini_grants mini_start(3) sql_invI [OF one_stored(3)] one_stored(1,2) demo_strncpy one_stored(5),
        of "Some ''s1''" True] by auto
qed

theorem iterations_agree_witness:
  "\<exists>im it al w'. heapstore_registry_query_sessions (Some ''idle'') True (one_alloc, one_registry) = (SUCCESS, Some im, al)
    \<and> sql_query_sessions mini_lib (Some ''idle'') True one_alloc (one_session, mini_reg) = (SUCCESS, Some it, al, w')
    \<and> iter_collect 2 im (sessions one_registry) = Some [demo_session ''s1'']
    \<and> (\<exists>w2. sql_collect 2 mini_lib demo_airy it w' = Some ([], w2))"
proof -
  obtain im al where mem: "heapstore_registry_query_sessions (Some ''idle'') True (one_alloc, one_registry) = (SUCCESS, Some im, al)"
      "al = one_alloc\<lparr>tick := 3\<rparr>"
    using one_stored(2) by (simp add: heapstore_registry_query_sessions_def reg_query_def airy_alloc_def one_alloc_def demo_alloc_def)
  obtain it w' where sql: "sql_query_sessions mini_lib (Some ''idle'') True one_alloc (one_session, mini_reg) = (SUCCESS, Some it, al, w')"
    by (simp add: mem(2) sql_query_sessions_text sql_usable_def mini_reg_def registry_query_open_def session_begin_def mini_lib_def
        registry_bind_id_def airy_alloc_def one_alloc_def demo_alloc_def)
  obtain xs ys w2 where got: "iter_collect 2 im (sessions one_registry) = Some xs"
      "sql_collect 2 mini_lib demo_airy it w' = Some (map SessionRec ys, w2)"
      "mset ys = filter_mset (session_wanted (Some ''idle'')) (mset xs)"
    using iterations_agree [OF mini_crud mini_queries mini_query_grants one_stored(3,4) demo_strncpy one_stored(1,2,5),
        of 2 None "Some ''idle''" im al one_alloc mini_reg it al w'] mem(1) sql by auto
  have "xs = [demo_session ''s1'']"
    using got(1) mem(1) iteration_yields_all [OF demo_domain_rep, of 2 im al 2] one_stored(2)
    by (auto simp: heapstore_registry_query_sessions_def one_registry_def one_alloc_def)
  then have "ys = []" using got(3) by (simp add: session_wanted_def demo_session_def)
  then show ?thesis using mem(1) sql got(1,2) \<open>xs = _\<close> by auto
qed

theorem sqlite_batch_commit_witness:
  "\<exists>c' w'. heapstore_batch_commit (sql_session_insert mini_lib) (Some HS_Batch.demo_batch) (mini_db0, mini_reg) = Some (SUCCESS, Some c', w', mini_reg)
    \<and> v_sessions (sql_view mini_tabs w') ''s2'' = Some (demo_session ''s2'')"
proof -
  have "batch_inv HS_Batch.demo_batch" by (simp add: batch_inv_def HS_Batch.demo_batch_def BATCH_MAX_ITEMS_def)
  note commit = sqlite_batch_commit [OF mini_crud mini_start(2) this, of mini_reg]
  show ?thesis
    using commit mini_grants mini_start(3,4)
    by (auto simp: HS_Batch.demo_batch_def demo_session_def empty_view_def)
qed

end
