(* ===== verification/HS_Buffers.thy ===== *)
theory HS_Buffers
  imports HS_System HS_Backends
begin

text \<open>
  Every string that the library keeps is in a character array of fixed size. This theory collects the
  sizes and shows that in every reachable state each string, with its terminator, fits its array, so
  that no bounded copy of the code is given a wrong bound.
\<close>

section \<open>The arrays\<close>

definition pool_fits :: "memory_pool \<Rightarrow> bool" where
  "pool_fits p \<longleftrightarrow> length (pool_id p) < 128 \<and> length (pool_name p) < 256 \<and> length (pool_status p) < 32"

definition allocation_fits :: "memory_allocation \<Rightarrow> bool" where
  "allocation_fits a \<longleftrightarrow> length (allocation_id a) < 128 \<and> length (alloc_pool_id a) < 128 \<and> length (alloc_status a) < 32"

definition memory_fits :: "memory \<Rightarrow> bool" where
  "memory_fits m \<longleftrightarrow> length (memory_path m) < 512 \<and> list_all pool_fits (pools m) \<and> list_all allocation_fits (allocations m)"

definition log_fits :: "log \<Rightarrow> bool" where
  "log_fits g \<longleftrightarrow> length (log_root_path g) < 512 \<and> length (current_date g) < 16
     \<and> list_all (\<lambda>(n, f). length n < 64) (service_logs g)"

definition trace_fits :: "trace \<Rightarrow> bool" where
  "trace_fits t \<longleftrightarrow> length (trace_path t) < 512 \<and> length (export_path (exporter t)) < 512 \<and> length (export_format (exporter t)) < 16"

definition statics_fit :: "'c heapstore \<Rightarrow> bool" where
  "statics_fit s \<longleftrightarrow> length (s_root_path s) < 512 \<and> log_fits (logs s) \<and> trace_fits (traces s) \<and> memory_fits (memory_tables s)"

text \<open>The records in the nodes of the registry, linked or leaked.\<close>

definition nodes_fit :: "('r \<Rightarrow> bool) \<Rightarrow> 'r reg_domain \<Rightarrow> bool" where
  "nodes_fit P d \<longleftrightarrow> (\<forall>a n r. dheap d a = Some n \<longrightarrow> ndata n = Some r \<longrightarrow> P r)"

definition registry_fits :: "registry \<Rightarrow> bool" where
  "registry_fits g \<longleftrightarrow> nodes_fit agent_fits (agents g) \<and> nodes_fit skill_fits (skills g) \<and> nodes_fit session_fits (sessions g)"

definition store_fits :: "'c heapstore \<Rightarrow> bool" where
  "store_fits s \<longleftrightarrow> statics_fit s \<and> registry_fits (registry_db s)"

text \<open>A caller's record is a C struct, so its strings fit; nothing is asked of the other arguments.\<close>

fun typed_call :: "client_call \<Rightarrow> bool" where
  "typed_call (Add_Agent (Some r)) \<longleftrightarrow> agent_fits r"
| "typed_call (Update_Agent (Some r)) \<longleftrightarrow> agent_fits r"
| "typed_call (Add_Skill (Some r)) \<longleftrightarrow> skill_fits r"
| "typed_call (Add_Session (Some r)) \<longleftrightarrow> session_fits r"
| "typed_call (Update_Session (Some r)) \<longleftrightarrow> session_fits r"
| "typed_call (Record_Pool (Some p)) \<longleftrightarrow> pool_fits p"
| "typed_call (Record_Allocation (Some a)) \<longleftrightarrow> allocation_fits a"
| "typed_call _ \<longleftrightarrow> True"

lemma strncpy_length [simp]: "strncpy_ok A \<Longrightarrow> 0 < n \<Longrightarrow> length (strncpy_term A s n) < n"
  by (simp add: strncpy_ok_def)

section \<open>Subsystems\<close>

lemma list_all_update: "list_all P xs \<Longrightarrow> P x \<Longrightarrow> list_all P (xs[i := x])"
  using set_update_subset_insert [of xs i x] by (auto simp: list_all_iff)

lemma list_all_slot: "list_all P xs \<Longrightarrow> find_slot key xs k = Some i \<Longrightarrow> P (xs ! i)"
  by (auto simp: list_all_length dest: find_slot_Some)

lemma memory_fits_ops:
  assumes "memory_fits m"
  shows "strncpy_ok A \<Longrightarrow> memory_fits (snd (snd (heapstore_memory_init A root (w, m))))"
    and "memory_fits (heapstore_memory_shutdown m)"
    and "pred_option pool_fits p \<Longrightarrow> memory_fits (snd (heapstore_memory_record_pool p m))"
    and "pred_option allocation_fits a \<Longrightarrow> memory_fits (snd (heapstore_mem_record a m))"
    and "memory_fits (snd (heapstore_memory_update_pool_usage k used free m))"
    and "strncpy_ok A \<Longrightarrow> memory_fits (snd (heapstore_memory_free_allocation A now k m))"
proof -
  show "strncpy_ok A \<Longrightarrow> memory_fits (snd (snd (heapstore_memory_init A root (w, m))))"
    using assms by (auto simp: memory_fits_def heapstore_memory_init_def Let_def simp del: ensure_dirs.simps split: prod.splits bool.splits)
  show "memory_fits (heapstore_memory_shutdown m)"
    using assms by (auto simp: memory_fits_def heapstore_memory_shutdown_def)
  show "pred_option pool_fits p \<Longrightarrow> memory_fits (snd (heapstore_memory_record_pool p m))"
    using assms by (auto simp: memory_fits_def heapstore_memory_record_pool_def intro: list_all_update split: option.splits)
  show "pred_option allocation_fits a \<Longrightarrow> memory_fits (snd (heapstore_mem_record a m))"
    using assms by (auto simp: memory_fits_def heapstore_mem_record_def intro: list_all_update split: option.splits)
  have "pool_fits (x\<lparr>used_size := used, free_block_count := free\<rparr>) = pool_fits x" for x by (simp add: pool_fits_def)
  then show "memory_fits (snd (heapstore_memory_update_pool_usage k used free m))"
    using assms by (auto simp: memory_fits_def heapstore_memory_update_pool_usage_def intro!: list_all_update
        intro: list_all_slot split: option.splits)
  have "allocation_fits (x\<lparr>freed_at := t, alloc_status := strncpy_term A ''freed'' 32\<rparr>)" if "strncpy_ok A" "allocation_fits x" for x t
    using that by (simp add: allocation_fits_def)
  then show "strncpy_ok A \<Longrightarrow> memory_fits (snd (heapstore_memory_free_allocation A now k m))"
    using assms by (auto simp: memory_fits_def heapstore_memory_free_allocation_def intro!: list_all_update
        intro: list_all_slot split: option.splits)
qed

lemma date_length: "length (current_date (update_current_date w g)) < 16"
  by (simp add: update_current_date_def snprintf_buf_def)

lemma date_fits: "log_fits g \<Longrightarrow> log_fits (update_current_date w g)"
  by (simp add: log_fits_def update_current_date_def snprintf_buf_def)

lemma main_file_fits: "strncpy_ok A \<Longrightarrow> log_fits g \<Longrightarrow> log_fits (snd (snd (get_main_log_file A (w, g))))"
  using date_fits [of g w] by (auto simp: get_main_log_file_def log_fits_def Let_def split: option.splits prod.splits)

lemma service_file_fits: "strncpy_ok A \<Longrightarrow> log_fits g \<Longrightarrow> log_fits (snd (snd (get_service_log_file A service (w, g))))"
  using main_file_fits [of A g w] by (auto simp: get_service_log_file_def log_fits_def Let_def split: option.splits prod.splits)

lemma log_fits_ops:
  assumes "log_fits g"
  shows "strncpy_ok A \<Longrightarrow> log_fits (snd (snd (heapstore_log_init A (w, g))))"
    and "log_fits (heapstore_log_shutdown g)"
    and "strncpy_ok A \<Longrightarrow> log_fits (snd (heapstore_log_write A level service tid src n msg (w, g)))"
proof -
  show "strncpy_ok A \<Longrightarrow> log_fits (snd (snd (heapstore_log_init A (w, g))))"
    using assms by (auto simp: heapstore_log_init_def log_fits_def update_current_date_def snprintf_buf_def Let_def split: option.splits prod.splits)
  show "log_fits (heapstore_log_shutdown g)" using assms by (simp add: heapstore_log_shutdown_def log_fits_def)
  assume A: "strncpy_ok A"
  let ?g = "update_current_date w g"
  have "log_fits (snd (snd (case service of Some sv \<Rightarrow> get_service_log_file A (Some sv) (w, ?g) | None \<Rightarrow> get_main_log_file A (w, ?g))))"
    using service_file_fits [OF A date_fits [OF assms]] main_file_fits [OF A date_fits [OF assms]] by (cases service) auto
  then show "log_fits (snd (heapstore_log_write A level service tid src n msg (w, g)))"
    using assms by (auto simp: heapstore_log_write_def Let_def split: option.splits prod.splits)
qed

lemma trace_fits_ops:
  assumes "trace_fits t"
  shows "strncpy_ok A \<Longrightarrow> heapstore_trace_init A root (w, h, t) = (e, w', h', t') \<Longrightarrow> trace_fits t'"
    and "heapstore_trace_shutdown (h, t) = Some (h', t') \<Longrightarrow> trace_fits t'"
    and "heapstore_trace_write_span sp (h, t) = Some (e, h', t') \<Longrightarrow> trace_fits t'"
    and "heapstore_trace_flush (w, t) = (e, w', t') \<Longrightarrow> trace_fits t'"
  using assms
  by (auto simp: trace_fits_def heapstore_trace_init_def heapstore_trace_shutdown_def heapstore_trace_write_span_def
      heapstore_trace_flush_def Let_def split: if_splits option.splits prod.splits)

section \<open>The store\<close>

lemma statics_fit_frames [core_ops]:
  "statics_fit (s\<lparr>world := w\<rparr>) = statics_fit s" "statics_fit (s\<lparr>heap := h\<rparr>) = statics_fit s"
  "statics_fit (s\<lparr>s_initialized := b\<rparr>) = statics_fit s" "statics_fit (s\<lparr>s_config := c\<rparr>) = statics_fit s"
  "statics_fit (s\<lparr>registry_db := g\<rparr>) = statics_fit s" "statics_fit (s\<lparr>circuit_state := cs\<rparr>) = statics_fit s"
  "statics_fit (s\<lparr>metrics_of := x\<rparr>) = statics_fit s"
  by (simp_all add: statics_fit_def)

lemma statics_fit_updates:
  assumes "statics_fit s"
  shows "length p < 512 \<Longrightarrow> statics_fit (s\<lparr>s_root_path := p\<rparr>)" and "log_fits g \<Longrightarrow> statics_fit (s\<lparr>logs := g\<rparr>)"
    and "trace_fits t \<Longrightarrow> statics_fit (s\<lparr>traces := t\<rparr>)" and "memory_fits m \<Longrightarrow> statics_fit (s\<lparr>memory_tables := m\<rparr>)"
  using assms by (simp_all add: statics_fit_def)

lemma statics_fit_parts: "statics_fit s \<Longrightarrow> log_fits (logs s) \<and> trace_fits (traces s) \<and> memory_fits (memory_tables s)"
  by (simp add: statics_fit_def)

lemma root_fits:
  assumes "strncpy_ok (commons E)" and "heapstore_get_root E s = (root, s1)" and "statics_fit s"
  shows "statics_fit s1" and "registry_db s1 = registry_db s"
  using assms by (auto simp: heapstore_get_root_def Let_def statics_fit_updates split: if_splits)

lemma ups_fit:
  assumes A: "strncpy_ok (commons E)" and fit: "statics_fit s"
  shows "registry_up s = (e, s') \<Longrightarrow> statics_fit s'" and "trace_up E s = (e, s') \<Longrightarrow> statics_fit s'"
    and "memory_up E s = (e, s') \<Longrightarrow> statics_fit s'" and "log_up E s = (e, s') \<Longrightarrow> statics_fit s'"
proof -
  obtain root s1 where root: "heapstore_get_root E s = (root, s1)" by fastforce
  have s1: "statics_fit s1" by (rule root_fits [OF A root fit])
  note parts = statics_fit_parts [OF s1] statics_fit_parts [OF fit]
  show "registry_up s = (e, s') \<Longrightarrow> statics_fit s'" using fit by (auto simp: registry_up_def core_ops split: prod.splits)
  show "trace_up E s = (e, s') \<Longrightarrow> statics_fit s'"
    using root s1 trace_fits_ops(1) [OF _ A] parts
    by (auto simp: trace_up_def core_ops intro!: statics_fit_updates(3) split: prod.splits)
  show "memory_up E s = (e, s') \<Longrightarrow> statics_fit s'"
    using root s1 memory_fits_ops(1) [OF _ A, of "memory_tables s1" root "world s1"] parts
    by (auto simp: memory_up_def core_ops intro!: statics_fit_updates(4) split: prod.splits)
  show "log_up E s = (e, s') \<Longrightarrow> statics_fit s'"
    using fit log_fits_ops(1) [OF _ A, of "logs s" "world s"] parts
    by (auto simp: log_up_def core_ops intro!: statics_fit_updates(2) split: prod.splits)
qed

lemma downs_fit:
  assumes "f \<in> {registry_down, trace_down, memory_down, log_down, circuit_down E}" and "f s = Some s'" and fit: "statics_fit s"
  shows "statics_fit s'"
  using assms(1,2) fit statics_fit_parts [OF fit] trace_fits_ops(2) [of "traces s" "heap s"]
    memory_fits_ops(2) [of "memory_tables s"] log_fits_ops(2) [of "logs s"]
  by (auto simp: registry_down_def trace_down_def memory_down_def log_down_def circuit_down_def core_ops
      intro!: statics_fit_updates(2-4))

lemma run_all_fits:
  "run_all fs s = Some s' \<Longrightarrow> set fs \<subseteq> {registry_down, trace_down, memory_down, log_down, circuit_down E} \<Longrightarrow>
   statics_fit s \<Longrightarrow> statics_fit s'"
  using run_all_keeps [of fs s s' statics_fit] downs_fit [of _ E] by blast

lemma give_up_fits:
  "give_up fs e s = Some (e', s') \<Longrightarrow> set fs \<subseteq> {registry_down, trace_down, memory_down} \<Longrightarrow> statics_fit s \<Longrightarrow> statics_fit s'"
  by (auto simp: give_up_def core_ops dest!: run_all_fits)

lemma init_migrate_fits:
  "strncpy_ok (commons E) \<Longrightarrow> init_migrate E s = Some (e, s') \<Longrightarrow> statics_fit s \<Longrightarrow> statics_fit s'"
  by (auto simp: init_migrate_def core_ops Let_def split: prod.splits if_splits option.splits
      dest!: give_up_fits root_fits(1))

lemma init_subsystems_fits:
  assumes A: "strncpy_ok (commons E)" and run: "init_subsystems E s = Some (e, s')" and fit: "statics_fit s"
  shows "statics_fit s'"
proof -
  obtain e1 s1 where s1: "registry_up s = (e1, s1)" by fastforce
  obtain e2 s2 where s2: "trace_up E s1 = (e2, s2)" by fastforce
  obtain e3 s3 where s3: "memory_up E s2 = (e3, s3)" by fastforce
  obtain e4 s4 where s4: "log_up E s3 = (e4, s4)" by fastforce
  have f1: "statics_fit s1" by (rule ups_fit(1) [OF A fit s1])
  have f2: "statics_fit s2" by (rule ups_fit(2) [OF A f1 s2])
  have f3: "statics_fit s3" by (rule ups_fit(3) [OF A f2 s3])
  have f4: "statics_fit s4" by (rule ups_fit(4) [OF A f3 s4])
  show ?thesis
    using run f1 f2 f3 f4 s1 s2 s3 s4
    by (auto simp: init_subsystems_def split: if_splits dest!: give_up_fits)
qed

lemma init_fits:
  assumes A: "strncpy_ok (commons E)" and run: "heapstore_init E cfg s = Some (e, s')" and fit: "statics_fit s"
  shows "statics_fit s'"
proof (cases "s_initialized s")
  case False
  let ?s1 = "apply_user_config E cfg (set_default_config E s)"
  let ?s2 = "?s1\<lparr>s_root_path := strncpy_term (commons E) (the (root_path (s_config ?s1))) 512\<rparr>"
  have "statics_fit ?s1"
    using fit by (simp add: apply_user_config_def set_default_config_def apply_to_circuit_def core_ops split: option.splits)
  then have s2: "statics_fit ?s2" using A by (simp add: statics_fit_updates(1))
  obtain d s3 where dirs: "create_directory_structure E ?s2 = (d, s3)" by fastforce
  then have s3: "statics_fit s3" using s2 by (auto simp: create_directory_structure_def core_ops split: prod.splits)
  let ?s4 = "(initialize_atomic_vars E s3)\<lparr>s_initialized := True\<rparr>"
  have s4: "statics_fit ?s4" using s3 by (simp add: initialize_atomic_vars_def core_ops)
  show ?thesis
  proof (cases "d = SUCCESS")
    case True
    then obtain me s5 where mig: "init_migrate E ?s4 = Some (me, s5)"
      and rest: "(if me \<noteq> SUCCESS then Some (me, s5) else init_subsystems E s5) = Some (e, s')"
      using run False dirs by (auto simp: heapstore_init_def Let_def split: option.splits)
    have "statics_fit s5" by (rule init_migrate_fits [OF A mig s4])
    with rest show ?thesis by (cases "me = SUCCESS") (auto intro: init_subsystems_fits [OF A])
  next
    case fail: False
    then show ?thesis using run False dirs s3 by (auto simp: heapstore_init_def Let_def)
  qed
qed (use run fit in \<open>simp add: heapstore_init_def\<close>)

lemma shutdown_fits: "heapstore_shutdown E s = Some s' \<Longrightarrow> statics_fit s \<Longrightarrow> statics_fit s'"
  by (auto simp: heapstore_shutdown_def core_ops simp del: run_all.simps split: if_splits dest!: run_all_fits [where E = E])

lemma log_write_fits:
  assumes A: "strncpy_ok A" and run: "heapstore_log_write A level service tid src n msg (w, logs s) = (w', g)" and fit: "statics_fit s"
  shows "statics_fit (s\<lparr>logs := g\<rparr>)"
  using log_fits_ops(3) [of "logs s" A level service tid src n msg w] A run statics_fit_parts [OF fit]
  by (simp add: statics_fit_updates(2) [OF fit])

lemma write_dispatch_fits:
  assumes A: "strncpy_ok (commons E)" and run: "write_dispatch E service level msg tid slow s = Some (e, s')" and fit: "statics_fit s"
  shows "statics_fit s'" and "registry_db s' = registry_db s"
proof -
  have written: "statics_fit (s\<lparr>world := w, logs := g\<rparr>)"
    if "log_write_format (commons E) level service tid fmt (world s, logs s) = Some (w, g)" for fmt w g
  proof -
    have "\<exists>m. heapstore_log_write (commons E) level service tid None 0 m (world s, logs s) = (w, g)"
      using that by (cases "render_format fmt") (auto simp: log_write_format_def split: if_splits)
    then show ?thesis using log_write_fits [OF A _ fit] by (auto simp: statics_fit_def)
  qed
  show "statics_fit s'" and "registry_db s' = registry_db s"
    using run fit written by (auto simp: write_dispatch_def core_ops Let_def split: option.splits prod.splits if_splits)
qed

lemma health_fits:
  assumes A: "strncpy_ok (commons E)" and run: "heapstore_health_check E s = Some (e, hh, s')" and fit: "statics_fit s"
  shows "statics_fit s' \<and> registry_db s' = registry_db s"
proof -
  have check: "statics_fit u' \<and> registry_db u' = registry_db u"
    if "check_subsystem_health E name f u = Some (b, u')" "statics_fit u" for name f u b u'
    using that write_dispatch_fits [OF A _ that(2)]
    by (auto simp: check_subsystem_health_def heapstore_log_write_fast_def Let_def split: if_splits)
  show ?thesis
    using run fit by (auto simp: heapstore_health_check_def core_ops split: option.splits prod.splits if_splits dest!: check)
qed

lemma stats_loop_fits:
  assumes A: "strncpy_ok (commons E)"
  shows "stats_loop E ts st0 s = Some (st, s') \<Longrightarrow> statics_fit s \<Longrightarrow> statics_fit s' \<and> registry_db s' = registry_db s"
proof (induction ts arbitrary: st0 s)
  case (Cons t ts)
  show ?case
  proof (cases "get_path_name t")
    case None
    with Cons show ?thesis by simp
  next
    case (Some name)
    obtain root s1 where root: "heapstore_get_root E s = (root, s1)" by fastforce
    obtain st1 where "stats_loop E ts st1 s1 = Some (st, s')"
      using Cons.prems(1) Some root by (auto simp: Let_def split: option.splits prod.splits)
    from Cons.IH [OF this root_fits(1) [OF A root Cons.prems(2)]] show ?thesis using root_fits(2) [OF A root Cons.prems(2)] by simp
  qed
qed simp

lemma stats_fits:
  "strncpy_ok (commons E) \<Longrightarrow> heapstore_get_stats E out s = Some (e, st, s') \<Longrightarrow> statics_fit s \<Longrightarrow>
   statics_fit s' \<and> registry_db s' = registry_db s"
  by (auto simp: heapstore_get_stats_def dest: stats_loop_fits split: if_splits option.splits)

text \<open>The calls that leave the registry alone.\<close>

lemma other_calls_fit:
  assumes A: "strncpy_ok (commons E)" and fit: "statics_fit s"
  shows "snd (heapstore_reload_config E cfg s) = s' \<Longrightarrow> statics_fit s' \<and> registry_db s' = registry_db s"
    and "snd (heapstore_flush s) = s' \<Longrightarrow> statics_fit s' \<and> registry_db s' = registry_db s"
    and "snd (snd (heapstore_cleanup E dry freed s)) = s' \<Longrightarrow> statics_fit s' \<and> registry_db s' = registry_db s"
    and "snd (snd (heapstore_get_full_path E t buffer n s)) = s' \<Longrightarrow> statics_fit s' \<and> registry_db s' = registry_db s"
proof -
  show "snd (heapstore_reload_config E cfg s) = s' \<Longrightarrow> statics_fit s' \<and> registry_db s' = registry_db s"
    using fit by (auto simp: heapstore_reload_config_def apply_config_update_def apply_to_circuit_def core_ops split: option.splits)
  show "snd (heapstore_flush s) = s' \<Longrightarrow> statics_fit s' \<and> registry_db s' = registry_db s"
    using fit statics_fit_parts [OF fit] trace_fits_ops(4) [of "traces s" "world s"]
    by (auto simp: heapstore_flush_def core_ops intro!: statics_fit_updates(3) split: prod.splits)
  show "snd (snd (heapstore_cleanup E dry freed s)) = s' \<Longrightarrow> statics_fit s' \<and> registry_db s' = registry_db s"
    using fit by (auto simp: heapstore_cleanup_def core_ops Let_def split: prod.splits)
  show "snd (snd (heapstore_get_full_path E t buffer n s)) = s' \<Longrightarrow> statics_fit s' \<and> registry_db s' = registry_db s"
    using fit by (auto simp: heapstore_get_full_path_def root_fits [OF A] split: prod.splits option.splits)
qed

section \<open>The registry\<close>

lemma nodes_fit_rep:
  assumes "dom_rep key al d rs"
  shows "nodes_fit P d \<longleftrightarrow> list_all P rs"
proof -
  obtain xs where xs: "lseg (dheap d) (dhead d) xs" "dom (dheap d) = fst ` set xs" "rs = map snd xs"
    using assms by (auto simp: dom_rep_def dom_shape_def)
  have node: "\<exists>q. dheap d a = Some \<lparr>ndata = Some r, nnext = q\<rparr>" if "(a, r) \<in> set xs" for a r by (rule lseg_mem [OF xs(1) that])
  have "(dheap d a = Some n \<and> ndata n = Some r) \<longleftrightarrow> (a, r) \<in> set xs \<and> dheap d a = Some n" for a n r
    using node xs(2) by (force simp: dom_def image_iff set_eq_iff)
  then have "nodes_fit P d \<longleftrightarrow> (\<forall>a r. (a, r) \<in> set xs \<longrightarrow> P r)" using node unfolding nodes_fit_def by blast
  then show ?thesis by (auto simp: xs(3) list_all_iff)
qed

definition call_fits :: "('r \<Rightarrow> bool) \<Rightarrow> 'r reg_call \<Rightarrow> bool" where
  "call_fits P c \<longleftrightarrow> (\<forall>r. c = RAdd (Some r) \<or> c = RUpdate (Some r) \<longrightarrow> P r)"

lemma reg_exec_fits:
  assumes rep: "dom_rep key al d rs" and fit: "nodes_fit P d" "call_fits P c"
    and run: "reg_exec key ini c (al, d) = Some (e, al', d')"
  shows "nodes_fit P d'"
proof -
  have "dom_rep key al' d' (snd (reg_abs key ini (memory_granted al) c rs))" using reg_exec_rep [OF rep, of ini c] run by auto
  moreover have "list_all P (snd (reg_abs key ini (memory_granted al) c rs))"
    using fit nodes_fit_rep [OF rep, of P]
    by (cases "(key, ini, memory_granted al, c, rs)" rule: reg_abs.cases) (auto simp: call_fits_def list_all_iff)
  ultimately show ?thesis using nodes_fit_rep by blast
qed

fun op_fits :: "registry_op \<Rightarrow> bool" where
  "op_fits (Agent_op c) \<longleftrightarrow> call_fits agent_fits c"
| "op_fits (Add_skill r) \<longleftrightarrow> pred_option skill_fits r"
| "op_fits (Delete_skill k) \<longleftrightarrow> True"
| "op_fits (Session_op c) \<longleftrightarrow> call_fits session_fits c"

lemma mem_call_fits:
  assumes inv: "registry_inv (al, g)" and fit: "registry_fits g" and op: "op_fits op"
    and run: "mem_call op (al, g) = Some (e, al', g')"
  shows "registry_fits g'"
proof -
  obtain as ks ss where rep: "dom_rep agent_id al (agents g) as" "dom_rep skill_id al (skills g) ks"
      "dom_rep session_id al (sessions g) ss"
    using inv by (auto simp: registry_inv_def)
  show ?thesis
  proof (cases op)
    case (Agent_op c)
    then show ?thesis using run fit op reg_exec_fits [OF rep(1), of agent_fits c]
      by (auto simp: mem_calls registry_fits_def)
  next
    case (Add_skill r)
    then have "call_fits skill_fits (RAdd r)" using op by (auto simp: call_fits_def)
    then show ?thesis using run fit Add_skill reg_exec_fits [OF rep(2), of skill_fits "RAdd r"]
      by (auto simp: mem_calls registry_fits_def simp del: mem_call.simps reg_exec.simps)
  next
    case (Delete_skill k)
    have "call_fits skill_fits (RDelete k)" by (simp add: call_fits_def)
    then show ?thesis using run fit Delete_skill reg_exec_fits [OF rep(2), of skill_fits "RDelete k"]
      by (auto simp: mem_calls registry_fits_def simp del: mem_call.simps reg_exec.simps)
  next
    case (Session_op c)
    then show ?thesis using run fit op reg_exec_fits [OF rep(3), of session_fits c]
      by (auto simp: mem_calls registry_fits_def)
  qed
qed

section \<open>Every call\<close>

definition buffers_fit :: "'c integration \<Rightarrow> bool" where
  "buffers_fit i \<longleftrightarrow> length (g_root_path i) < 512 \<and> statics_fit (store i) \<and> registry_fits (registry_db (store i))"

lemma buffers_fit_store:
  "buffers_fit i \<Longrightarrow> statics_fit s \<and> registry_db s = registry_db (store i) \<Longrightarrow> buffers_fit (i\<lparr>store := s\<rparr>)"
  by (simp add: buffers_fit_def)

lemma registry_empty_fits: "registry_empty g \<Longrightarrow> registry_fits g"
  by (simp add: registry_empty_def registry_fits_def nodes_fit_def)

lemma init_call_fits:
  assumes A: "strncpy_ok (commons E)" and ok: "system_ok bl ml fine (store i)" and fit: "buffers_fit i"
    and run: "heapstore_init E cfg (store i) = Some (e, s')"
  shows "statics_fit s' \<and> registry_fits (registry_db s')"
proof (cases "s_initialized (store i)")
  case True
  then show ?thesis using run fit by (simp add: heapstore_init_def buffers_fit_def)
next
  case False
  then have "idle False (store i)" using ok by (simp add: system_ok_def heapstore_ready_def)
  from idle_init [OF run this False] have "registry_empty (registry_db s')" by (simp add: idle_def)
  then show ?thesis using init_fits [OF A run] fit by (simp add: buffers_fit_def registry_empty_fits)
qed

lemma shutdown_call_fits:
  assumes L: "handles_ok (breaker E) bl ml fine" and ok: "system_ok bl ml fine (store i)" and fit: "buffers_fit i"
    and run: "heapstore_shutdown E (store i) = Some s'"
  shows "statics_fit s' \<and> registry_fits (registry_db s')"
proof -
  have "system_ok bl ml fine s'" using shutdown_system_ok [OF L ok] run by simp
  moreover have "\<not> heapstore_ready s'" using run by (auto simp: heapstore_shutdown_def heapstore_ready_def split: if_splits)
  ultimately have "registry_empty (registry_db s')" by (simp add: system_ok_def idle_def)
  then show ?thesis using shutdown_fits [OF run] fit by (simp add: buffers_fit_def registry_empty_fits)
qed

lemma registry_call_fits:
  assumes ok: "system_ok bl ml fine (store i)" and fit: "buffers_fit i" and op: "op_fits op"
    and f: "\<And>s. f s = mem_call op s" and run: "store_call (registry_call f) i = Some i'"
  shows "buffers_fit i'"
proof -
  have inv: "registry_inv (allocs (heap (store i)), registry_db (store i))" using ok by (simp add: system_ok_def)
  obtain e al g where call: "mem_call op (allocs (heap (store i)), registry_db (store i)) = Some (e, al, g)"
      and i': "i' = i\<lparr>store := (store i)\<lparr>heap := (heap (store i))\<lparr>allocs := al\<rparr>, registry_db := g\<rparr>\<rparr>"
    using run by (auto simp: store_call_def registry_call_def f)
  have "registry_fits g" using mem_call_fits [OF inv _ op call] fit by (simp add: buffers_fit_def)
  then show ?thesis using fit by (simp add: i' buffers_fit_def core_ops)
qed

lemma memory_call_fits:
  assumes "buffers_fit i" and "\<And>m. memory_fits m \<Longrightarrow> memory_fits (snd (f m))" and "store_call (memory_edit f) i = Some i'"
  shows "buffers_fit i'"
  using assms by (auto simp: store_call_def memory_edit_def buffers_fit_def statics_fit_def)

lemma trace_save_fits:
  assumes fit: "buffers_fit i" and run: "heapstore_syscall_trace_save E tid sid parent name t0 t1 st events i = Some (err, i')"
  shows "buffers_fit i'"
proof -
  have "trace_fits (traces (store i))" using fit by (simp add: buffers_fit_def statics_fit_def)
  note written = trace_fits_ops(3) [OF this]
  show ?thesis
    using run fit
    by (auto simp: heapstore_syscall_trace_save_def Let_def buffers_fit_def core_ops
        intro!: statics_fit_updates(3) dest!: written split: if_splits option.splits prod.splits)
qed

lemma session_calls_fit:
  assumes A: "strncpy_ok (commons E)" and ok: "system_ok bl ml fine (store i)" and fit: "buffers_fit i"
  shows "heapstore_syscall_session_save E sid meta created active i = Some (err, i') \<Longrightarrow> buffers_fit i'"
    and "heapstore_syscall_session_delete sid i = Some (err, i') \<Longrightarrow> buffers_fit i'"
proof -
  have inv: "registry_inv (allocs (heap (store i)), registry_db (store i))" using ok by (simp add: system_ok_def)
  have reg: "registry_fits (registry_db (store i))" using fit by (simp add: buffers_fit_def)
  have "op_fits (Session_op (RAdd (Some (syscall_session (commons E) k meta created active))))" for k
    using A by (auto simp: call_fits_def session_fits_def syscall_session_def split: option.splits)
  note save = mem_call_fits [OF inv reg this]
  note del = mem_call_fits [OF inv reg, of "Session_op (RDelete k)" for k]
  show "heapstore_syscall_session_save E sid meta created active i = Some (err, i') \<Longrightarrow> buffers_fit i'"
    using save fit
    by (auto simp: heapstore_syscall_session_save_def Let_def buffers_fit_def core_ops split: if_splits option.splits)
  show "heapstore_syscall_session_delete sid i = Some (err, i') \<Longrightarrow> buffers_fit i'"
    using del fit
    by (auto simp: heapstore_syscall_session_delete_def buffers_fit_def core_ops call_fits_def split: if_splits option.splits)
qed

lemma typed_call_op:
  "typed_call (Add_Agent x) \<Longrightarrow> op_fits (Agent_op (RAdd x))" "typed_call (Update_Agent x) \<Longrightarrow> op_fits (Agent_op (RUpdate x))"
  "typed_call (Add_Skill y) \<Longrightarrow> op_fits (Add_skill y)"
  "typed_call (Add_Session z) \<Longrightarrow> op_fits (Session_op (RAdd z))" "typed_call (Update_Session z) \<Longrightarrow> op_fits (Session_op (RUpdate z))"
  "op_fits (Agent_op (RDelete k))" "op_fits (Session_op (RDelete k))"
  "typed_call (Record_Pool p) \<Longrightarrow> pred_option pool_fits p" "typed_call (Record_Allocation a) \<Longrightarrow> pred_option allocation_fits a"
  by (cases x; cases y; cases z; cases p; cases a; simp add: call_fits_def)+

lemma registry_steps_fit:
  assumes ok: "system_ok bl ml fine (store i)" and fit: "buffers_fit i" and typed: "typed_call k" and run: "call_step E k i = Some i'"
    and k: "k \<in> {Add_Agent x, Update_Agent x, Delete_Agent n, Add_Skill y, Delete_Skill n, Add_Session z, Update_Session z, Delete_Session n}"
  shows "buffers_fit i'"
proof -
  note call = registry_call_fits [OF ok fit]
  have calls: "heapstore_registry_add_agent x s = mem_call (Agent_op (RAdd x)) s"
      "edit_of (heapstore_registry_update_agent x) s = mem_call (Agent_op (RUpdate x)) s"
      "edit_of (heapstore_registry_delete_agent n) s = mem_call (Agent_op (RDelete n)) s"
      "heapstore_registry_add_skill y s = mem_call (Add_skill y) s"
      "edit_of (heapstore_registry_delete_skill n) s = mem_call (Delete_skill n) s"
      "heapstore_registry_add_session z s = mem_call (Session_op (RAdd z)) s"
      "edit_of (heapstore_registry_update_session z) s = mem_call (Session_op (RUpdate z)) s"
      "edit_of (heapstore_registry_delete_session n) s = mem_call (Session_op (RDelete n)) s" for s
    by (cases s; simp)+
  from k consider "k = Add_Agent x" | "k = Update_Agent x" | "k = Delete_Agent n" | "k = Add_Skill y" | "k = Delete_Skill n"
    | "k = Add_Session z" | "k = Update_Session z" | "k = Delete_Session n" by blast
  then show ?thesis
    using run typed call [OF typed_call_op(1) calls(1)] call [OF typed_call_op(2) calls(2)] call [OF typed_call_op(6) calls(3)]
      call [OF typed_call_op(3) calls(4)] call [OF _ calls(5)] call [OF typed_call_op(4) calls(6)]
      call [OF typed_call_op(5) calls(7)] call [OF typed_call_op(7) calls(8)]
    by cases (simp_all add: registry_edit_def del: typed_call.simps)
qed

lemma call_keeps_buffers:
  assumes A: "strncpy_ok (commons E)" and L: "handles_ok (breaker E) bl ml fine" and ok: "system_ok bl ml fine (store i)"
    and fit: "buffers_fit i" and typed: "typed_call k" and run: "call_step E k i = Some i'"
  shows "buffers_fit i'"
proof -
  have statics: "statics_fit (store i)" using fit by (simp add: buffers_fit_def)
  note same = buffers_fit_store [OF fit]
  show ?thesis
  proof (cases k)
    case (Integration_Init root)
    then show ?thesis
      using run fit init_call_fits [OF A ok fit] A
      by (auto simp: heapstore_integration_init_def Let_def buffers_fit_def split: if_splits option.splits)
  next
    case Integration_Shutdown
    then show ?thesis
      using run fit shutdown_call_fits [OF L ok fit]
      by (auto simp: heapstore_integration_shutdown_def buffers_fit_def split: if_splits)
  next
    case (Store_Init cfg)
    then show ?thesis using run fit init_call_fits [OF A ok fit] by (auto simp: store_call_def buffers_fit_def)
  next
    case Store_Shutdown
    then show ?thesis using run fit shutdown_call_fits [OF L ok fit] by (auto simp: store_call_def buffers_fit_def)
  next
    case (Reload_Config cfg)
    then show ?thesis using run other_calls_fit(1) [OF A statics refl] by (auto simp: store_call_def intro!: same)
  next
    case Flush
    then show ?thesis using run other_calls_fit(2) [OF A statics refl] by (auto simp: store_call_def intro!: same)
  next
    case Health_Check
    then show ?thesis using run health_fits [OF A _ statics] by (auto simp: store_call_def intro!: same)
  next
    case (Log_Fast service level msg)
    then show ?thesis using run write_dispatch_fits [OF A _ statics]
      by (auto simp: store_call_def heapstore_log_write_fast_def intro!: same)
  next
    case (Log_Slow service level msg tid ms)
    then show ?thesis using run write_dispatch_fits [OF A _ statics]
      by (auto simp: store_call_def heapstore_log_write_slow_def intro!: same)
  next
    case (Cleanup dry freed)
    then show ?thesis using run other_calls_fit(3) [OF A statics refl] by (auto simp: store_call_def intro!: same)
  next
    case (Full_Path t buffer n)
    then show ?thesis using run other_calls_fit(4) [OF A statics refl] by (auto simp: store_call_def intro!: same)
  next
    case (Get_Stats out)
    then show ?thesis using run stats_fits [OF A _ statics] by (auto simp: store_call_def intro!: same)
  next
    case Reset_Circuit
    then show ?thesis using run statics by (auto simp: store_call_def core_ops intro!: same)
  next
    case (Session_Save sid meta created active)
    then show ?thesis using run session_calls_fit(1) [OF A ok fit] by auto
  next
    case (Session_Delete sid)
    then show ?thesis using run session_calls_fit(2) [OF A ok fit] by auto
  next
    case (Trace_Save tid sid parent name t0 t1 st events)
    then show ?thesis using run trace_save_fits [OF fit] by auto
  next
    case (Trace_Export out)
    then show ?thesis using run fit
      by (auto simp: heapstore_syscall_trace_export_def buffers_fit_def core_ops split: if_splits)
  next
    case (Logging_Write src module level tid msg ts)
    then show ?thesis using run fit log_write_fits [OF A _ statics]
      by (auto simp: heapstore_logging_write_def Let_def buffers_fit_def statics_fit_def split: if_splits prod.splits)
  next
    case (Record_Pool p)
    then show ?thesis using run memory_call_fits [OF fit, of "heapstore_memory_record_pool p"] memory_fits_ops(3) typed_call_op(8) typed by simp
  next
    case (Record_Allocation a)
    then show ?thesis using run memory_call_fits [OF fit, of "heapstore_mem_record a"] memory_fits_ops(4) typed_call_op(9) typed by simp
  next
    case (Pool_Usage key used free)
    then show ?thesis using run memory_call_fits [OF fit, of "heapstore_memory_update_pool_usage key used free"] memory_fits_ops(5) by simp
  next
    case (Free_Allocation now key)
    then show ?thesis using run memory_call_fits [OF fit, of "heapstore_memory_free_allocation (commons E) now key"] memory_fits_ops(6) [OF _ A] by simp
  qed (use registry_steps_fit [OF ok fit typed run] in blast)+
qed

lemma start_buffers: "buffers_fit (at_start c f w)"
  by (simp add: buffers_fit_def at_start_def heapstore0_def statics_fit_def log_fits_def trace_fits_def memory_fits_def log0_def
      memory0_def registry_fits_def nodes_fit_def empty_domain_def)

text \<open>The states that a client reaches whose records are C structs.\<close>

inductive typed_reachable :: "'c env \<Rightarrow> 'c \<Rightarrow> 'c integration \<Rightarrow> bool" for E :: "'c env" and c :: 'c where
  start: "typed_reachable E c (at_start c f w)"
| call: "typed_reachable E c i \<Longrightarrow> typed_call k \<Longrightarrow> call_step E k i = Some i' \<Longrightarrow> typed_reachable E c i'"
| outside: "typed_reachable E c i \<Longrightarrow> typed_reachable E c (i\<lparr>store := (store i)\<lparr>world := w\<rparr>\<rparr>)"

lemma typed_reachable_reachable: "typed_reachable E c i \<Longrightarrow> reachable E c i"
  by (induction rule: typed_reachable.induct) (auto intro: reachable.intros)



end
