(* ===== verification/HS_Sqlite_Life.thy ===== *)
theory HS_Sqlite_Life
  imports HS_Backends
begin

text \<open>
  Start and stop of the SQLite backend: it is a subsystem like the others (\<open>guarded_lifecycle\<close>), and
  unlike the in-memory backend it finds its records again after a restart.
\<close>

section \<open>The life cycle\<close>

text \<open>The directory and the file of the registry, and the initialisation in their terms.\<close>

definition registry_dir :: "airy \<Rightarrow> string \<Rightarrow> string" where
  "registry_dir A root = snprintf_buf 512
     ((if root \<noteq> [] then strncpy_term A root 256
       else if data_dir A \<noteq> [] then snprintf_buf 256 (data_dir A @ ''/agentrt/heapstore'')
       else ''/tmp/agentrt/heapstore'') @ ''/registry'')"

definition registry_file :: "airy \<Rightarrow> string \<Rightarrow> string" where
  "registry_file A root = snprintf_buf 512 (registry_dir A root @ ''/registry.db'')"

lemma sql_init_eq:
  "sql_registry_init L A root (w, g) =
     (if sql_initialized g then (SUCCESS, w, g)
      else case sqlite3_open L (registry_file A root) (make_dir L (registry_dir A root) w) of (ok, h, w2) \<Rightarrow>
        if \<not> ok then (ERR_DB_INIT_FAILED, w2, g\<lparr>db_path := registry_file A root, reg_db := h\<rparr>)
        else case init_database L (the h) (fold (\<lambda>p w. snd (sqlite3_exec L (the h) p w)) pragmas w2) of
          (err, w4) \<Rightarrow> if err \<noteq> SUCCESS then (err, sqlite3_close L (the h) w4, sql_registry0)
                        else (SUCCESS, w4, g\<lparr>db_path := registry_file A root, reg_db := h, sql_initialized := True\<rparr>))"
  unfolding sql_registry_init_def registry_file_def registry_dir_def Let_def by simp

definition opens_hand_out :: "'w sqlite3 \<Rightarrow> bool" where
  "opens_hand_out L \<longleftrightarrow> (\<forall>path w h w'. sqlite3_open L path w = (True, h, w') \<longrightarrow> h \<noteq> None)"

definition sql_state_ok :: "sql_registry \<Rightarrow> bool" where
  "sql_state_ok g \<longleftrightarrow> (sql_initialized g \<longrightarrow> reg_db g \<noteq> None)"

lemma sql_init_outcome:
  assumes "sql_registry_init L A root (w, g) = (e, w', g')" and "opens_hand_out L" and "sql_state_ok g"
  shows "sql_state_ok g' \<and> (e = SUCCESS \<longrightarrow> sql_registry_is_healthy g')
    \<and> (e \<noteq> SUCCESS \<longrightarrow> \<not> sql_registry_is_healthy g \<longrightarrow> \<not> sql_registry_is_healthy g')"
  using assms
  by (auto simp: sql_init_eq opens_hand_out_def sql_state_ok_def sql_registry_is_healthy_def sql_registry0_def Let_def
      split: if_splits prod.splits) blast+

interpretation sql_life: guarded_lifecycle "sql_registry_init L A root" "\<lambda>s. Some (sql_registry_shutdown L s)"
  "\<lambda>(w, g). sql_registry_is_healthy g" "\<lambda>(w, g). opens_hand_out L \<and> sql_state_ok g"
proof unfold_locales
  fix s :: "'a \<times> sql_registry"
  assume s: "case s of (w, g) \<Rightarrow> opens_hand_out L \<and> sql_state_ok g"
  obtain w g where wg: "s = (w, g)" by (cases s)
  obtain e w' g' where run: "sql_registry_init L A root (w, g) = (e, w', g')" by (metis prod_cases3)
  note out = sql_init_outcome [OF run]
  show "case snd (sql_registry_init L A root s) of (w, g) \<Rightarrow> opens_hand_out L \<and> sql_state_ok g"
    using out s by (simp add: wg run)
  show "case snd (sql_registry_init L A root s) of (w, g) \<Rightarrow> sql_registry_is_healthy g"
    if "fst (sql_registry_init L A root s) = SUCCESS" using out s that by (simp add: wg run)
  show "\<not> (case snd (sql_registry_init L A root s) of (w, g) \<Rightarrow> sql_registry_is_healthy g)"
    if "\<not> (case s of (w, g) \<Rightarrow> sql_registry_is_healthy g)" "fst (sql_registry_init L A root s) \<noteq> SUCCESS"
    using out s that by (simp add: wg run)
  show "\<exists>s'. Some (sql_registry_shutdown L s) = Some s' \<and> (case s' of (w, g) \<Rightarrow> opens_hand_out L \<and> sql_state_ok g)
      \<and> \<not> (case s' of (w, g) \<Rightarrow> sql_registry_is_healthy g)"
    using s by (auto simp: wg sql_registry_shutdown_def sql_state_ok_def sql_registry_is_healthy_def)
qed

section \<open>Restart\<close>

text \<open>
  The hypotheses on the database file: \<open>disk w path\<close> is the content of the file, \<open>opened w\<close> the file of
  the connection. Outside a transaction the connection shows the content of its file; opening and
  closing change no file, and neither do the pragmas and the CREATE ... IF NOT EXISTS of tables that
  hold no rows of their own.
\<close>

definition sqlite_files ::
  "'w sqlite3 \<Rightarrow> ('w \<Rightarrow> sql_tables) \<Rightarrow> ('w \<Rightarrow> sql_tables option) \<Rightarrow> ('w \<Rightarrow> string \<Rightarrow> sql_tables) \<Rightarrow> ('w \<Rightarrow> string option) \<Rightarrow> bool" where
  "sqlite_files L tabs saved disk opened \<longleftrightarrow>
     (\<forall>w path. opened w = Some path \<longrightarrow> saved w = None \<longrightarrow> tabs w = disk w path)
     \<and> (\<forall>path w. disk (make_dir L path w) = disk w)
     \<and> (\<forall>path w ok h w'. sqlite3_open L path w = (ok, h, w') \<longrightarrow> disk w' = disk w
          \<and> (ok \<longrightarrow> h \<noteq> None \<and> opened w' = Some path \<and> saved w' = None))
     \<and> (\<forall>db w. saved w = None \<longrightarrow> disk (sqlite3_close L db w) = disk w)
     \<and> (\<forall>db sql w ok w'. sql \<in> insert schema_sql (set pragmas) \<longrightarrow> sqlite3_exec L db sql w = (ok, w') \<longrightarrow>
          disk w' = disk w \<and> opened w' = opened w \<and> saved w' = saved w)"

lemma pragmas_keep:
  assumes "sqlite_files L tabs saved disk opened"
  shows "set ps \<subseteq> set pragmas \<Longrightarrow> disk (fold (\<lambda>p w. snd (sqlite3_exec L db p w)) ps w) = disk w
    \<and> opened (fold (\<lambda>p w. snd (sqlite3_exec L db p w)) ps w) = opened w
    \<and> saved (fold (\<lambda>p w. snd (sqlite3_exec L db p w)) ps w) = saved w"
proof (induction ps arbitrary: w)
  case (Cons p ps)
  obtain ok w1 where "sqlite3_exec L db p w = (ok, w1)" by fastforce
  moreover from this have "disk w1 = disk w \<and> opened w1 = opened w \<and> saved w1 = saved w"
    using assms Cons.prems unfolding sqlite_files_def by (metis insertCI list.set_intros(1) subsetD)
  ultimately show ?case using Cons by simp
qed simp

lemma sql_init_finds_file:
  assumes files: "sqlite_files L tabs saved disk opened" and off: "\<not> sql_initialized g"
    and run: "sql_registry_init L A root (w, g) = (e, w', g')"
  shows "disk w' = disk w" and "e = SUCCESS \<Longrightarrow> sql_usable g' \<and> opened w' = Some (registry_file A root) \<and> saved w' = None"
    and "e \<noteq> SUCCESS \<Longrightarrow> \<not> sql_initialized g'"
proof -
  let ?path = "registry_file A root"
  let ?dir = "registry_dir A root"
  obtain ok h w2 where opn: "sqlite3_open L ?path (make_dir L ?dir w) = (ok, h, w2)" by (metis prod_cases3)
  have w2: "disk w2 = disk w" "ok \<Longrightarrow> h \<noteq> None \<and> opened w2 = Some ?path \<and> saved w2 = None"
    using files opn unfolding sqlite_files_def by metis+
  let ?w3 = "fold (\<lambda>p w. snd (sqlite3_exec L (the h) p w)) pragmas w2"
  note w3 = pragmas_keep [OF files order_refl, of "the h" w2]
  obtain made w4 where schema: "sqlite3_exec L (the h) schema_sql ?w3 = (made, w4)" by fastforce
  have w4: "disk w4 = disk ?w3 \<and> opened w4 = opened ?w3 \<and> saved w4 = saved ?w3"
    using files schema unfolding sqlite_files_def by (metis insertI1)
  have "disk w' = disk w \<and> (e = SUCCESS \<longrightarrow> sql_usable g' \<and> opened w' = Some ?path \<and> saved w' = None)
    \<and> (e \<noteq> SUCCESS \<longrightarrow> \<not> sql_initialized g')"
  proof (cases ok)
    case False
    then show ?thesis using run opn w2(1) off by (auto simp: sql_init_eq)
  next
    case True
    have "disk (sqlite3_close L (the h) w4) = disk w4"
      using files w4 w3 w2(2) [OF True] unfolding sqlite_files_def by metis
    then show ?thesis
      using run opn True off schema w4 w3 w2 by (auto simp: sql_init_eq init_database_def sql_registry0_def sql_usable_def split: if_splits)
  qed
  then show "disk w' = disk w" and "e = SUCCESS \<Longrightarrow> sql_usable g' \<and> opened w' = Some ?path \<and> saved w' = None"
    and "e \<noteq> SUCCESS \<Longrightarrow> \<not> sql_initialized g'" by blast+
qed

lemma clear_domain_rep: "dheap d = Map.empty \<Longrightarrow> dom_rep key al (clear_domain d) []"
  by (simp add: clear_domain_def dom_rep_def dom_shape_def)


text \<open>An engine whose connection reads and writes the open file.\<close>

record file_db =
  file_tables :: "string \<Rightarrow> sql_tables"
  open_path :: "string option"

definition file_tabs :: "file_db \<Rightarrow> sql_tables" where
  "file_tabs w = (case open_path w of None \<Rightarrow> (\<lambda>_. []) | Some p \<Rightarrow> file_tables w p)"

definition file_lib :: "file_db sqlite3" where
  "file_lib = \<lparr>sqlite3_open = (\<lambda>p w. (True, Some 1, w\<lparr>open_path := Some p\<rparr>)), sqlite3_close = (\<lambda>_ w. w\<lparr>open_path := None\<rparr>),
     sqlite3_exec = (\<lambda>_ _ w. (True, w)), sqlite3_prepare = (\<lambda>_ _ w. (None, w)), sqlite3_bind = (\<lambda>_ _ _ w. w),
     sqlite3_step = (\<lambda>_ w. (SQLITE_ERROR, w)), sqlite3_reset = (\<lambda>_ w. w), sqlite3_finalize = (\<lambda>_ w. w),
     sqlite3_column_text = (\<lambda>_ _ _. None), sqlite3_column_int64 = (\<lambda>_ _ _. 0), make_dir = (\<lambda>_ w. w)\<rparr>"

lemma file_lib_files: "sqlite_files file_lib file_tabs (\<lambda>_. None) file_tables open_path"
  by (simp add: sqlite_files_def file_lib_def file_tabs_def)

definition stored_file :: file_db where
  "stored_file = \<lparr>file_tables = (\<lambda>_. (\<lambda>_. [])(''sessions'' := [session_row (demo_session ''s1'')])),
     open_path = Some (registry_file demo_airy ''/l'')\<rparr>"


end
