(* ===== verification/HS_Locks.thy ===== *)
theory HS_Locks
  imports HS_Prelude
begin

text \<open>
  Calls of several threads on one subsystem that is guarded by one mutex. A call runs statement by
  statement; it may look at the subsystem before it takes the mutex, as the checks of s_initialized
  do. The contract \<open>locked_calls\<close> says what a subsystem must promise so that every interleaving has
  the effect of the calls one after the other; \<open>locked_progress\<close> adds what bounds the run.
\<close>

section \<open>Threads and the mutex\<close>

text \<open>
  Where a thread is in its call: its checks, at airy_mtx_lock, between lock and unlock, at
  airy_mtx_unlock, returned.
\<close>

datatype phase = Before | Waiting | Inside | Leaving | Past

type_synonym ('t, 's) threads = "nat option \<times> 's \<times> 't list"

text \<open>
  The owner of the mutex, the shared state, the threads. A thread at airy_mtx_lock moves only when
  nobody owns the mutex; nothing but its unlock gives the mutex back.
\<close>

definition locked_step :: "('t \<Rightarrow> 's \<Rightarrow> 't \<times> 's) \<Rightarrow> ('t \<Rightarrow> phase) \<Rightarrow> nat \<Rightarrow> ('t, 's) threads \<Rightarrow> ('t, 's) threads" where
  "locked_step stmt ph i = (\<lambda>(ow, s, ts).
     if i < length ts then
       (case stmt (ts ! i) s of (t, s') \<Rightarrow>
          (case ph (ts ! i) of
             Waiting \<Rightarrow> if ow = None then (Some i, s', ts[i := t]) else (ow, s, ts)
           | Leaving \<Rightarrow> (if ow = Some i then None else ow, s', ts[i := t])
           | _ \<Rightarrow> (ow, s', ts[i := t])))
     else (ow, s, ts))"

text \<open>A schedule names the thread that makes the next step.\<close>

definition locked_run :: "('t \<Rightarrow> 's \<Rightarrow> 't \<times> 's) \<Rightarrow> ('t \<Rightarrow> phase) \<Rightarrow> nat list \<Rightarrow> ('t, 's) threads \<Rightarrow> ('t, 's) threads" where
  "locked_run stmt ph sched z = fold (locked_step stmt ph) sched z"

lemma locked_run_simps [simp]:
  "locked_run stmt ph [] z = z"
  "locked_run stmt ph (i # sched) z = locked_run stmt ph sched (locked_step stmt ph i z)"
  "locked_run stmt ph (sched @ sched') z = locked_run stmt ph sched' (locked_run stmt ph sched z)"
  by (simp_all add: locked_run_def)

text \<open>The calls one after the other: \<open>alone t s\<close> is the whole call of a thread that runs alone.\<close>

fun serial :: "('t \<Rightarrow> 's \<Rightarrow> 't \<times> 's) \<Rightarrow> nat list \<Rightarrow> 't list \<Rightarrow> 's \<Rightarrow> 't list \<times> 's" where
  "serial alone [] ts s = (ts, s)"
| "serial alone (i # is) ts s = (case alone (ts ! i) s of (t, s') \<Rightarrow> serial alone is (ts[i := t]) s')"

lemma serial_snoc:
  "serial alone (is @ [i]) ts s =
     (case serial alone is ts s of (fs, s1) \<Rightarrow> case alone (fs ! i) s1 of (t, s2) \<Rightarrow> (fs[i := t], s2))"
  by (induction "is" arbitrary: ts s) (auto split: prod.splits)

lemma serial_length: "length (fst (serial alone is ts s)) = length ts"
  by (induction "is" arbitrary: ts s) (auto split: prod.splits)

lemma serial_other: "i \<notin> set is \<Longrightarrow> fst (serial alone is ts s) ! i = ts ! i"
  by (induction "is" arbitrary: ts s) (auto split: prod.splits)

text \<open>Two threads have two orders.\<close>

lemma two_orders:
  assumes "distinct order" and "set order = {0, Suc 0}"
  shows "order = [0, 1] \<or> order = [1, 0]"
proof -
  have "length order = 2" using distinct_card [OF assms(1)] assms(2) by simp
  then obtain i j where "order = [i, j]" by (auto simp: numeral_2_eq_2 length_Suc_conv)
  then show ?thesis using assms by (auto simp: doubleton_eq_iff)
qed

section \<open>Serialisation\<close>

text \<open>
  \<open>view\<close> is the part of the shared state that is read before the lock, \<open>calm\<close> calls do not change it.
  The laws speak of single statements: what is left of a call has the effect of the call, no check
  writes, a check depends on the view only, a critical section ends with its unlock, on every path.
\<close>

locale locked_calls =
  fixes stmt :: "'t \<Rightarrow> 's \<Rightarrow> 't \<times> 's"
    and ph :: "'t \<Rightarrow> phase"
    and alone :: "'t \<Rightarrow> 's \<Rightarrow> 't \<times> 's"
    and view :: "'s \<Rightarrow> 'v"
    and calm :: "'t \<Rightarrow> bool"
  assumes alone_stmt: "stmt t s = (t', s') \<Longrightarrow> alone t' s' = alone t s"
    and calm_stmt: "calm t \<Longrightarrow> stmt t s = (t', s') \<Longrightarrow> calm t' \<and> view s' = view s"
    and calm_alone: "calm t \<Longrightarrow> view (snd (alone t s)) = view s"
    and before_stmt: "ph t = Before \<Longrightarrow> stmt t s = (t', s') \<Longrightarrow>
      s' = s \<and> ph t' \<in> {Before, Waiting, Past} \<and> (\<forall>s1. view s1 = view s \<longrightarrow> stmt t s1 = (t', s1))"
    and waiting_stmt: "ph t = Waiting \<Longrightarrow> stmt t s = (t', s') \<Longrightarrow> s' = s \<and> ph t' = Inside"
    and inside_stmt: "ph t = Inside \<Longrightarrow> stmt t s = (t', s') \<Longrightarrow> ph t' \<in> {Inside, Leaving}"
    and leaving_stmt: "ph t = Leaving \<Longrightarrow> stmt t s = (t', s') \<Longrightarrow> s' = s \<and> ph t' = Past"
    and past_stmt: "ph t = Past \<Longrightarrow> stmt t s = (t, s) \<and> alone t s = (t, s)"
begin

text \<open>
  A state of the threads agrees with a serial order of those that have entered or returned: the calls of
  the order, one after the other, give what the state will be once the owner has left.
\<close>

definition agrees :: "'t list \<Rightarrow> 's \<Rightarrow> nat list \<Rightarrow> ('t, 's) threads \<Rightarrow> bool" where
  "agrees ts0 s0 order = (\<lambda>(ow, s, ts). length ts = length ts0 \<and> distinct order \<and> set order \<subseteq> {..<length ts0}
     \<and> view s = view s0
     \<and> (\<forall>i<length ts0. calm (ts ! i) \<and> (ph (ts ! i) \<in> {Inside, Leaving} \<longleftrightarrow> ow = Some i))
     \<and> (case serial alone order ts0 s0 of (fs, s1) \<Rightarrow>
          view s1 = view s0
          \<and> (case ow of None \<Rightarrow> s1 = s | Some i \<Rightarrow> i \<in> set order \<and> alone (ts ! i) s = (fs ! i, s1))
          \<and> (\<forall>i\<in>set order. ow \<noteq> Some i \<longrightarrow> ph (ts ! i) = Past \<and> ts ! i = fs ! i)
          \<and> (\<forall>i<length ts0. i \<notin> set order \<longrightarrow> ph (ts ! i) \<in> {Before, Waiting}
               \<and> (\<forall>s'. view s' = view s0 \<longrightarrow> alone (ts ! i) s' = alone (ts0 ! i) s'))))"

lemma agrees_start:
  assumes "\<forall>t\<in>set ts0. calm t \<and> ph t \<in> {Before, Waiting}"
  shows "agrees ts0 s0 [] (None, s0, ts0)"
  using assms by (fastforce simp: agrees_def dest: nth_mem)

text \<open>A thread joins the order: it takes the mutex, or its checks make it return.\<close>

lemma agrees_join:
  assumes "agrees ts0 s0 order (ow, s, ts)" and "i < length ts0" and "i \<notin> set order"
    and "alone (ts ! i) s1 = (t, s2)" and "serial alone order ts0 s0 = (fs, s1)"
  shows "serial alone (order @ [i]) ts0 s0 = (fs[i := t], s2)" and "view s2 = view s0" and "length fs = length ts0"
proof -
  have v: "view s1 = view s0" and al: "\<forall>s'. view s' = view s0 \<longrightarrow> alone (ts ! i) s' = alone (ts0 ! i) s'"
    and c: "calm (ts ! i)" using assms(1-3,5) by (auto simp: agrees_def)
  have "fs ! i = ts0 ! i" using serial_other [OF assms(3), of alone ts0 s0] assms(5) by simp
  moreover have "alone (ts0 ! i) s1 = (t, s2)" using al v assms(4) by simp
  ultimately show "serial alone (order @ [i]) ts0 s0 = (fs[i := t], s2)" by (simp add: serial_snoc assms(5))
  show "view s2 = view s0" using calm_alone [OF c, of s1] assms(4) v by simp
  show "length fs = length ts0" using serial_length [of alone order ts0 s0] assms(5) by simp
qed

lemma agrees_waiting:
  assumes "agrees ts0 s0 order (None, s, ts)" and "i < length ts0" and "ph (ts ! i) = Waiting"
    and "stmt (ts ! i) s = (t, s')"
  shows "agrees ts0 s0 (order @ [i]) (Some i, s', ts[i := t])"
proof -
  obtain fs where ser: "serial alone order ts0 s0 = (fs, s)"
    using assms(1) by (auto simp: agrees_def split: prod.splits)
  have i: "i \<notin> set order" using assms(1,3) by (fastforce simp: agrees_def split: prod.splits)
  obtain tf s2 where al: "alone (ts ! i) s = (tf, s2)" by fastforce
  note join = agrees_join [OF assms(1,2) i al ser]
  have t: "s' = s" "ph t = Inside" "calm t" "alone t s = (tf, s2)"
    using waiting_stmt [OF assms(3,4)] calm_stmt [OF _ assms(4)] alone_stmt [OF assms(4)] al assms(1,2)
    by (auto simp: agrees_def)
  show ?thesis using assms(1,2) ser join t i by (auto simp: agrees_def nth_list_update)
qed

lemma agrees_before:
  assumes "agrees ts0 s0 order (ow, s, ts)" and "i < length ts0" and "ph (ts ! i) = Before"
    and "stmt (ts ! i) s = (t, s')"
  shows "\<exists>more. agrees ts0 s0 (order @ more) (ow, s', ts[i := t])"
proof -
  obtain fs s1 where ser: "serial alone order ts0 s0 = (fs, s1)" by fastforce
  have v: "view s = view s0" "view s1 = view s0" and n: "length ts = length ts0"
    using assms(1) ser by (auto simp: agrees_def)
  have i: "i \<notin> set order" "ow \<noteq> Some i" using assms(1-3) by (fastforce simp: agrees_def split: prod.splits)+
  have t: "s' = s" "ph t \<in> {Before, Waiting, Past}" and same: "\<forall>s1. view s1 = view s \<longrightarrow> stmt (ts ! i) s1 = (t, s1)"
    using before_stmt [OF assms(3,4)] by auto
  have c: "calm t" using calm_stmt [OF _ assms(4)] assms(1,2) by (auto simp: agrees_def)
  have al: "alone t s2 = alone (ts0 ! i) s2" if "view s2 = view s0" for s2
    using alone_stmt [of "ts ! i" s2 t s2] same that v i assms(1,2) by (auto simp: agrees_def ser)
  show ?thesis
  proof (cases "ph t = Past")
    case False
    then have "ph t \<in> {Before, Waiting}" using t(2) by auto
    then have "agrees ts0 s0 order (ow, s', ts[i := t])"
      using assms(1,2) ser t c al i n by (auto simp: agrees_def nth_list_update split: option.splits)
    then show ?thesis by (metis append_Nil2)
  next
    case True
    have "alone (ts ! i) s1 = (t, s1)" using al past_stmt [OF True] assms(1,2) i v by (simp add: agrees_def ser)
    note join = agrees_join [OF assms(1,2) i(1) this ser]
    have "agrees ts0 s0 (order @ [i]) (ow, s', ts[i := t])"
      using assms(1,2) ser join t c i n True by (auto simp: agrees_def nth_list_update split: option.splits)
    then show ?thesis by blast
  qed
qed

lemma agrees_owner:
  assumes "agrees ts0 s0 order (ow, s, ts)" and "i < length ts0" and "ph (ts ! i) \<in> {Inside, Leaving}"
    and "stmt (ts ! i) s = (t, s')"
  shows "ow = Some i" and "alone t s' = (fst (serial alone order ts0 s0) ! i, snd (serial alone order ts0 s0))"
    and "i \<in> set order" and "calm t \<and> view s' = view s"
proof -
  show ow: "ow = Some i" using assms(1-3) by (auto simp: agrees_def)
  show "alone t s' = (fst (serial alone order ts0 s0) ! i, snd (serial alone order ts0 s0))" "i \<in> set order"
    using alone_stmt [OF assms(4)] assms(1) by (auto simp: agrees_def ow split: prod.splits)
  show "calm t \<and> view s' = view s" using calm_stmt [OF _ assms(4)] assms(1,2) by (auto simp: agrees_def)
qed

lemma agrees_inside:
  assumes "agrees ts0 s0 order (ow, s, ts)" and "i < length ts0" and "ph (ts ! i) = Inside"
    and "stmt (ts ! i) s = (t, s')"
  shows "agrees ts0 s0 order (ow, s', ts[i := t])"
proof -
  have t: "ph t \<in> {Inside, Leaving}" using inside_stmt [OF assms(3,4)] by blast
  obtain fs s1 where ser: "serial alone order ts0 s0 = (fs, s1)" by fastforce
  have inside: "ph (ts ! i) \<in> {Inside, Leaving}" using assms(3) by simp
  note own = agrees_owner [OF assms(1,2) inside assms(4), unfolded ser fst_conv snd_conv]
  show ?thesis using assms(1,2) ser own(2-4) t by (auto simp: agrees_def nth_list_update own(1))
qed

lemma agrees_leaving:
  assumes "agrees ts0 s0 order (ow, s, ts)" and "i < length ts0" and "ph (ts ! i) = Leaving"
    and "stmt (ts ! i) s = (t, s')"
  shows "agrees ts0 s0 order (None, s', ts[i := t])"
proof -
  have past: "ph t = Past" using leaving_stmt [OF assms(3,4)] by blast
  obtain fs s1 where ser: "serial alone order ts0 s0 = (fs, s1)" by fastforce
  have inside: "ph (ts ! i) \<in> {Inside, Leaving}" using assms(3) by simp
  note own = agrees_owner [OF assms(1,2) inside assms(4), unfolded ser fst_conv snd_conv]
  have "t = fs ! i" "s' = s1" using past_stmt [OF past, of s'] own(2) by auto
  then show ?thesis using assms(1,2) ser own(2-4) past by (auto simp: agrees_def nth_list_update own(1))
qed

lemma agrees_step:
  assumes "agrees ts0 s0 order z"
  shows "\<exists>more. agrees ts0 s0 (order @ more) (locked_step stmt ph i z)"
proof -
  obtain ow s ts where z: "z = (ow, s, ts)" by (cases z)
  obtain t s' where st: "stmt (ts ! i) s = (t, s')" by fastforce
  have n: "length ts = length ts0" using assms by (simp add: agrees_def z)
  have stay: "\<exists>more. agrees ts0 s0 (order @ more) z" using assms by (metis append_Nil2)
  show ?thesis
  proof (cases "i < length ts0")
    case False
    then show ?thesis using stay by (simp add: locked_step_def z n)
  next
    case True
    note a = assms [unfolded z]
    show ?thesis
    proof (cases "ph (ts ! i)")
      case Before
      then show ?thesis using agrees_before [OF a True Before st] True by (simp add: locked_step_def z n st)
    next
      case Waiting
      then show ?thesis using agrees_waiting [OF _ True Waiting st] a stay True
        by (cases ow) (auto simp: locked_step_def z n st)
    next
      case Inside
      have "agrees ts0 s0 (order @ []) (locked_step stmt ph i z)"
        using agrees_inside [OF a True Inside st] True Inside by (simp add: locked_step_def z n st)
      then show ?thesis by blast
    next
      case Leaving
      have "agrees ts0 s0 (order @ []) (locked_step stmt ph i z)"
        using agrees_leaving [OF a True Leaving st] agrees_owner(1) [OF a True _ st] True Leaving
        by (simp add: locked_step_def z n st)
      then show ?thesis by blast
    next
      case Past
      then show ?thesis using past_stmt [OF Past, of s] stay True by (simp add: locked_step_def z n)
    qed
  qed
qed

lemma agrees_run: "agrees ts0 s0 order z \<Longrightarrow> \<exists>more. agrees ts0 s0 (order @ more) (locked_run stmt ph sched z)"
proof (induction sched arbitrary: order z)
  case Nil
  then show ?case by (metis append_Nil2 locked_run_simps(1))
next
  case (Cons i sched)
  obtain more where "agrees ts0 s0 (order @ more) (locked_step stmt ph i z)" using agrees_step [OF Cons.prems] by blast
  from Cons.IH [OF this] show ?case by (metis append_assoc locked_run_simps(2))
qed

text \<open>
  Cut a run anywhere: the calls that returned before the cut come first in the serial order, and before
  all that were not yet past their checks. Once all have returned the order has all of them.
\<close>

theorem run_is_serial:
  assumes "\<forall>t\<in>set ts0. calm t \<and> ph t \<in> {Before, Waiting}"
    and "locked_run stmt ph sched1 (None, s0, ts0) = (ow1, s1, ts1)"
    and "locked_run stmt ph sched2 (ow1, s1, ts1) = (ow, s, ts)" and "\<forall>t\<in>set ts. ph t = Past"
  shows "\<exists>first later. distinct (first @ later) \<and> set (first @ later) = {..<length ts0} \<and> ow = None
    \<and> (\<forall>i<length ts0. ph (ts1 ! i) = Past \<longrightarrow> i \<in> set first)
    \<and> (\<forall>i<length ts0. ph (ts1 ! i) \<in> {Before, Waiting} \<longrightarrow> i \<in> set later)
    \<and> serial alone (first @ later) ts0 s0 = (ts, s)"
proof -
  obtain first where a1: "agrees ts0 s0 first (ow1, s1, ts1)"
    using agrees_run [OF agrees_start [OF assms(1)], of s0 sched1] assms(2) by auto
  obtain later where a2: "agrees ts0 s0 (first @ later) (ow, s, ts)"
    using agrees_run [OF a1, of sched2] assms(3) by auto
  obtain fs s2 where ser: "serial alone (first @ later) ts0 s0 = (fs, s2)" by fastforce
  have n: "length ts = length ts0" "length fs = length ts0"
    using a2 serial_length [of alone "first @ later" ts0 s0] by (simp_all add: agrees_def ser)
  have past: "ph (ts ! i) = Past" if "i < length ts0" for i using assms(4) that n by simp
  have all: "i \<in> set first \<union> set later" if "i < length ts0" for i
    using a2 that past [OF that] by (auto simp: agrees_def ser)
  have none: "ow = None"
  proof (cases ow)
    case (Some i)
    then have "i < length ts0" "i \<in> set (first @ later)" using a2 by (auto simp: agrees_def ser)
    then show ?thesis using a2 past [of i] Some by (auto simp: agrees_def ser)
  qed
  have "ts = fs" by (rule nth_equalityI) (use a2 all n none in \<open>auto simp: agrees_def ser\<close>)
  moreover have "s2 = s" using a2 none by (simp add: agrees_def ser)
  moreover have "i \<in> set first" if "i < length ts0" "ph (ts1 ! i) = Past" for i
    using a1 that by (fastforce simp: agrees_def split: prod.splits)
  moreover have "i \<notin> set first" if "i < length ts0" "ph (ts1 ! i) \<in> {Before, Waiting}" for i
    using a1 that by (fastforce simp: agrees_def split: prod.splits option.splits)
  moreover have "set (first @ later) = {..<length ts0}" "distinct (first @ later)"
    using a2 all by (auto simp: agrees_def)
  ultimately show ?thesis using none ser all by (intro exI [of _ first] exI [of _ later]) auto
qed

end

section \<open>Progress\<close>

text \<open>
  \<open>left\<close> bounds the statements that a call still has to make. The owner of the mutex relies on \<open>ok\<close>; who
  leaves restores \<open>inv\<close>, on which the next owner relies.
\<close>

locale locked_progress = locked_calls +
  fixes left :: "'a \<Rightarrow> nat"
    and inv :: "'b \<Rightarrow> bool"
    and ok :: "'a \<Rightarrow> 'b \<Rightarrow> bool"
  assumes outside_left: "ph t \<in> {Before, Waiting} \<Longrightarrow> stmt t s = (t', s') \<Longrightarrow> left t' < left t"
    and waiting_ok: "ph t = Waiting \<Longrightarrow> inv s \<Longrightarrow> stmt t s = (t', s') \<Longrightarrow> ok t' s'"
    and inside_ok: "ph t = Inside \<Longrightarrow> ok t s \<Longrightarrow> stmt t s = (t', s') \<Longrightarrow>
      left t' < left t \<and> ok t' s'"
    and leaving_ok: "ph t = Leaving \<Longrightarrow> ok t s \<Longrightarrow> stmt t s = (t', s') \<Longrightarrow> left t' < left t \<and> inv s'"
begin

definition fit :: "('a, 'b) threads \<Rightarrow> bool" where
  "fit = (\<lambda>(ow, s, ts). (\<forall>i<length ts. ph (ts ! i) \<in> {Inside, Leaving} \<longleftrightarrow> ow = Some i)
     \<and> (case ow of None \<Rightarrow> inv s | Some i \<Rightarrow> i < length ts \<and> ok (ts ! i) s))"

definition movable :: "nat \<Rightarrow> ('a, 'b) threads \<Rightarrow> bool" where
  "movable i = (\<lambda>(ow, s, ts). i < length ts \<and> ph (ts ! i) \<noteq> Past \<and> (ph (ts ! i) = Waiting \<longrightarrow> ow = None))"

definition total :: "('a, 'b) threads \<Rightarrow> nat" where
  "total = (\<lambda>(ow, s, ts). sum_list (map left ts))"

lemma fit_start: "inv s \<Longrightarrow> \<forall>t\<in>set ts. ph t \<in> {Before, Waiting} \<Longrightarrow> fit (None, s, ts)"
  by (fastforce simp: fit_def dest: nth_mem)

lemma stuck_step: "\<not> movable i z \<Longrightarrow> locked_step stmt ph i z = z"
  using past_stmt by (cases z) (auto simp: movable_def locked_step_def)

lemma total_update: "i < length ts \<Longrightarrow> left t < left (ts ! i) \<Longrightarrow> total (ow', s', ts[i := t]) < total (ow, s, ts)"
  using elem_le_sum_list [of i "map left ts"] by (simp add: total_def map_update sum_list_update)

lemma moving_step:
  assumes "fit z" and "movable i z"
  shows "fit (locked_step stmt ph i z) \<and> total (locked_step stmt ph i z) < total z"
proof -
  obtain ow s ts where z: "z = (ow, s, ts)" by (cases z)
  obtain t s' where st: "stmt (ts ! i) s = (t, s')" by fastforce
  have i: "i < length ts" using assms(2) by (simp add: movable_def z)
  show ?thesis
  proof (cases "ph (ts ! i)")
    case Before
    have "ow \<noteq> Some i" using assms(1) i Before by (auto simp: fit_def z)
    then show ?thesis using before_stmt [OF Before st] outside_left [OF _ st] assms(1) i Before
      by (auto simp: locked_step_def z st total_update fit_def nth_list_update split: option.splits)
  next
    case Waiting
    then have "ow = None" using assms(2) by (simp add: movable_def z)
    then show ?thesis using waiting_stmt [OF Waiting st] outside_left [OF _ st] waiting_ok [OF Waiting _ st] assms(1) i Waiting
      by (auto simp: locked_step_def z st total_update fit_def nth_list_update)
  next
    case Inside
    then have ow: "ow = Some i" using assms(1) i by (auto simp: fit_def z)
    then have "ok (ts ! i) s" using assms(1) by (simp add: fit_def z)
    note out = inside_ok [OF Inside this st] inside_stmt [OF Inside st]
    have "locked_step stmt ph i z = (ow, s', ts[i := t])" using i Inside by (simp add: locked_step_def z st)
    moreover have "fit (ow, s', ts[i := t])"
      using out assms(1) i by (auto simp: fit_def z nth_list_update ow)
    ultimately show ?thesis using out i by (simp add: z total_update)
  next
    case Leaving
    then have ow: "ow = Some i" using assms(1) i by (auto simp: fit_def z)
    then have "ok (ts ! i) s" using assms(1) by (simp add: fit_def z)
    note out = leaving_ok [OF Leaving this st] leaving_stmt [OF Leaving st]
    have "locked_step stmt ph i z = (None, s', ts[i := t])" using i Leaving by (simp add: locked_step_def z st ow)
    moreover have "fit (None, s', ts[i := t])"
      using out assms(1) i by (auto simp: fit_def z nth_list_update ow)
    ultimately show ?thesis using out i by (simp add: z total_update)
  next
    case Past
    then show ?thesis using assms(2) by (simp add: movable_def z)
  qed
qed

lemma step_fit: "fit z \<Longrightarrow> fit (locked_step stmt ph i z) \<and> total (locked_step stmt ph i z) \<le> total z"
  using moving_step [of z i] stuck_step [of i z] by (cases "movable i z") auto

lemma run_fit: "fit z \<Longrightarrow> fit (locked_run stmt ph sched z) \<and> total (locked_run stmt ph sched z) \<le> total z"
proof (induction sched arbitrary: z)
  case (Cons i sched)
  from step_fit [OF Cons.prems, of i] Cons.IH [of "locked_step stmt ph i z"] show ?case by auto
qed simp

text \<open>There is no deadlock: as long as a call has not returned, some thread can move.\<close>

lemma someone_moves: "fit (ow, s, ts) \<Longrightarrow> t \<in> set ts \<Longrightarrow> ph t \<noteq> Past \<Longrightarrow> \<exists>i<length ts. movable i (ow, s, ts)"
  by (cases ow) (force simp: fit_def movable_def in_set_conv_nth)+

lemma step_length: "length (snd (snd (locked_step stmt ph i z))) = length (snd (snd z))"
  by (cases z) (auto simp: locked_step_def split: prod.splits phase.splits)

lemma run_length: "length (snd (snd (locked_run stmt ph sched z))) = length (snd (snd z))"
  by (induction sched arbitrary: z) (simp_all add: step_length)

lemma round_moves: "fit z \<Longrightarrow> movable i z \<Longrightarrow> i \<in> set r \<Longrightarrow> total (locked_run stmt ph r z) < total z"
proof (induction r arbitrary: z)
  case (Cons j r)
  show ?case
  proof (cases "movable j z")
    case True
    then show ?thesis using moving_step [OF Cons.prems(1) True] run_fit by (metis locked_run_simps(2) order_le_less_trans)
  next
    case False
    then show ?thesis using Cons stuck_step [OF False] by (cases "i = j") auto
  qed
qed simp

text \<open>Rounds that give each thread a turn bring all calls to their end.\<close>

theorem fair_rounds_end:
  assumes "fit z" and "total z \<le> length rounds" and "\<forall>r\<in>set rounds. {..<length (snd (snd z))} \<subseteq> set r"
  shows "\<forall>t\<in>set (snd (snd (locked_run stmt ph (concat rounds) z))). ph t = Past"
  using assms
proof (induction rounds arbitrary: z)
  case Nil
  obtain ow s ts where z: "z = (ow, s, ts)" by (cases z)
  have "\<not> movable i z" for i using moving_step [OF Nil.prems(1), of i] Nil.prems(2) by auto
  then show ?case using someone_moves [of ow s ts] Nil.prems(1) by (auto simp: z)
next
  case (Cons r rounds)
  let ?z = "locked_run stmt ph r z"
  obtain ow s ts where z: "z = (ow, s, ts)" by (cases z)
  have fit: "fit ?z" "total ?z \<le> total z" using run_fit [OF Cons.prems(1)] by auto
  show ?case
  proof (cases "\<exists>i<length ts. movable i z")
    case True
    then have "total ?z < total z" using round_moves [OF Cons.prems(1)] Cons.prems(3) by (auto simp: z)
    then show ?thesis using Cons.IH [OF fit(1)] Cons.prems(2,3) by (simp add: run_length)
  next
    case False
    then have stuck: "locked_run stmt ph sched z = z" for sched
      by (induction sched) (simp_all add: stuck_step movable_def z)
    show ?thesis using someone_moves [of ow s ts] False Cons.prems(1) unfolding stuck by (auto simp: z)
  qed
qed

end

end
