(* ===== verification/HS_Threads.thy ===== *)
theory HS_Threads
  imports HS_Memory HS_Locks
begin

text \<open>
  src/heapstore_memory.c under several threads. Every call is run statement by statement over the two
  static arrays and their counters, with the mutex s_memory_lock, and any schedule may interleave the
  statements of the threads. The calls turn out to have the effect of the functions of HS_Memory in some
  order (\<open>locked_calls\<close>), and to end under every fair schedule (\<open>locked_progress\<close>).
\<close>

section \<open>The arrays and the calls\<close>

text \<open>The statics of the file as they are: arrays of fixed length and the number of slots in use.\<close>

record raw_memory =
  raw_initialized :: bool
  raw_pools :: "memory_pool list"
  raw_pool_count :: nat
  raw_allocations :: "memory_allocation list"
  raw_allocation_count :: nat
  raw_path :: string

definition memory_of :: "raw_memory \<Rightarrow> memory" where
  "memory_of s = \<lparr>mem_initialized = raw_initialized s, pools = take (raw_pool_count s) (raw_pools s),
     allocations = take (raw_allocation_count s) (raw_allocations s), memory_path = raw_path s\<rparr>"

definition raw_ok :: "raw_memory \<Rightarrow> bool" where
  "raw_ok s \<longleftrightarrow> length (raw_pools s) = MEMORY_MAX_POOLS \<and> raw_pool_count s \<le> MEMORY_MAX_POOLS
     \<and> length (raw_allocations s) = MEMORY_MAX_ALLOCATIONS \<and> raw_allocation_count s \<le> MEMORY_MAX_ALLOCATIONS"

datatype mem_op =
    Op_record_pool "memory_pool option"
  | Op_get_pool "string option" bool
  | Op_update_usage "string option" size_t u32
  | Op_record "memory_allocation option"
  | Op_get_allocation "string option" bool
  | Op_free int "string option"
  | Op_get_stats
  | Op_shutdown

text \<open>What the call copies to its outputs.\<close>

datatype mem_out = No_out | Out_pool memory_pool | Out_allocation memory_allocation | Out_stats u32 u32 u64

text \<open>
  The next statement of a call. \<open>At_scan i\<close> is the test of the search loop at index i, \<open>At_found i\<close> the
  first statement of its hit and \<open>At_second i\<close> the second, where there are two; \<open>At_append\<close> and \<open>At_count\<close>
  write the slot behind the last and increment the counter; \<open>At_sum i n\<close> is the loop of the statistics.
\<close>

datatype mem_pc =
    At_check
  | At_params
  | At_lock
  | At_room
  | At_scan nat
  | At_found nat
  | At_second nat
  | At_append
  | At_count
  | At_stats
  | At_stats2
  | At_sum nat u64
  | At_clear nat
  | At_unlock hs_error
  | At_return hs_error

record mem_thread =
  op_of :: mem_op
  pc_of :: mem_pc
  out_of :: mem_out

definition mem_call :: "mem_op \<Rightarrow> mem_thread" where
  "mem_call x = \<lparr>op_of = x, pc_of = At_check, out_of = No_out\<rparr>"

text \<open>The test of the parameters before the lock; the calls without one go straight on.\<close>

fun params_ok :: "mem_op \<Rightarrow> bool" where
  "params_ok (Op_record_pool p) = (case p of None \<Rightarrow> False | Some r \<Rightarrow> pool_id r \<noteq> [])"
| "params_ok (Op_get_pool k out) = (k \<noteq> None \<and> out)"
| "params_ok (Op_update_usage k u f) = (k \<noteq> None)"
| "params_ok (Op_record a) = (case a of None \<Rightarrow> False | Some r \<Rightarrow> allocation_id r \<noteq> [])"
| "params_ok (Op_get_allocation k out) = (k \<noteq> None \<and> out)"
| "params_ok (Op_free now k) = (k \<noteq> None)"
| "params_ok Op_get_stats = True"
| "params_ok Op_shutdown = True"

fun first_pc :: "mem_op \<Rightarrow> mem_pc" where
  "first_pc (Op_record_pool p) = At_room"
| "first_pc (Op_record a) = At_room"
| "first_pc Op_get_stats = At_stats"
| "first_pc Op_shutdown = At_clear 0"
| "first_pc _ = At_scan 0"

text \<open>The table that a call searches, and the id it searches for.\<close>

fun on_pools :: "mem_op \<Rightarrow> bool" where
  "on_pools (Op_record_pool p) = True"
| "on_pools (Op_get_pool k out) = True"
| "on_pools (Op_update_usage k u f) = True"
| "on_pools Op_get_stats = True"
| "on_pools _ = False"

fun sought :: "mem_op \<Rightarrow> string" where
  "sought (Op_record_pool (Some p)) = pool_id p"
| "sought (Op_get_pool (Some k) out) = k"
| "sought (Op_update_usage (Some k) u f) = k"
| "sought (Op_record (Some a)) = allocation_id a"
| "sought (Op_get_allocation (Some k) out) = k"
| "sought (Op_free now (Some k)) = k"
| "sought _ = []"

definition in_use :: "mem_op \<Rightarrow> raw_memory \<Rightarrow> nat" where
  "in_use x s = (if on_pools x then raw_pool_count s else raw_allocation_count s)"

definition max_use :: "mem_op \<Rightarrow> nat" where
  "max_use x = (if on_pools x then MEMORY_MAX_POOLS else MEMORY_MAX_ALLOCATIONS)"

definition slot_id :: "mem_op \<Rightarrow> raw_memory \<Rightarrow> nat \<Rightarrow> string" where
  "slot_id x s i = (if on_pools x then pool_id (raw_pools s ! i) else allocation_id (raw_allocations s ! i))"

fun stores_new :: "mem_op \<Rightarrow> bool" where
  "stores_new (Op_record_pool p) = True"
| "stores_new (Op_record a) = True"
| "stores_new _ = False"

definition zero_pool :: memory_pool where
  "zero_pool = \<lparr>pool_id = [], pool_name = [], total_size = 0, used_size = 0, block_size = 0, block_count = 0,
     free_block_count = 0, pool_created_at = 0, pool_status = []\<rparr>"

definition zero_allocation :: memory_allocation where
  "zero_allocation = \<lparr>allocation_id = [], alloc_pool_id = [], alloc_size = 0, address = 0, allocated_at = 0,
     freed_at = 0, alloc_status = []\<rparr>"

section \<open>The statements\<close>

text \<open>The body of a hit: the first statement (state, output and what follows), and the second.\<close>

fun found_stmt :: "mem_op \<Rightarrow> nat \<Rightarrow> mem_out \<Rightarrow> raw_memory \<Rightarrow> mem_pc \<times> mem_out \<times> raw_memory" where
  "found_stmt (Op_record_pool (Some p)) i out s = (At_unlock SUCCESS, out, s\<lparr>raw_pools := (raw_pools s)[i := p]\<rparr>)"
| "found_stmt (Op_get_pool k b) i out s = (At_unlock SUCCESS, Out_pool (raw_pools s ! i), s)"
| "found_stmt (Op_update_usage k u f) i out s =
     (At_second i, out, s\<lparr>raw_pools := (raw_pools s)[i := (raw_pools s ! i)\<lparr>used_size := u\<rparr>]\<rparr>)"
| "found_stmt (Op_record (Some a)) i out s =
     (At_unlock SUCCESS, out, s\<lparr>raw_allocations := (raw_allocations s)[i := a]\<rparr>)"
| "found_stmt (Op_get_allocation k b) i out s = (At_unlock SUCCESS, Out_allocation (raw_allocations s ! i), s)"
| "found_stmt (Op_free now k) i out s =
     (At_second i, out, s\<lparr>raw_allocations :=
        (raw_allocations s)[i := (raw_allocations s ! i)\<lparr>freed_at := word_of_int now\<rparr>]\<rparr>)"
| "found_stmt _ i out s = (At_unlock SUCCESS, out, s)"

fun second_stmt :: "airy \<Rightarrow> mem_op \<Rightarrow> nat \<Rightarrow> raw_memory \<Rightarrow> raw_memory" where
  "second_stmt A (Op_update_usage k u f) i s =
     s\<lparr>raw_pools := (raw_pools s)[i := (raw_pools s ! i)\<lparr>free_block_count := f\<rparr>]\<rparr>"
| "second_stmt A (Op_free now k) i s =
     s\<lparr>raw_allocations := (raw_allocations s)[i := (raw_allocations s ! i)\<lparr>alloc_status := strncpy_term A ''freed'' 32\<rparr>]\<rparr>"
| "second_stmt A _ i s = s"

fun append_stmt :: "mem_op \<Rightarrow> raw_memory \<Rightarrow> raw_memory" where
  "append_stmt (Op_record_pool (Some p)) s = s\<lparr>raw_pools := (raw_pools s)[raw_pool_count s := p]\<rparr>"
| "append_stmt (Op_record (Some a)) s = s\<lparr>raw_allocations := (raw_allocations s)[raw_allocation_count s := a]\<rparr>"
| "append_stmt _ s = s"

fun count_stmt :: "mem_op \<Rightarrow> raw_memory \<Rightarrow> raw_memory" where
  "count_stmt (Op_record_pool p) s = s\<lparr>raw_pool_count := Suc (raw_pool_count s)\<rparr>"
| "count_stmt (Op_record a) s = s\<lparr>raw_allocation_count := Suc (raw_allocation_count s)\<rparr>"
| "count_stmt _ s = s"

text \<open>The outputs of heapstore_memory_get_stats are written one after the other.\<close>

fun put_allocations :: "u32 \<Rightarrow> mem_out \<Rightarrow> mem_out" where
  "put_allocations b (Out_stats a b' c) = Out_stats a b c"
| "put_allocations b out = out"

fun put_size :: "u64 \<Rightarrow> mem_out \<Rightarrow> mem_out" where
  "put_size c (Out_stats a b c') = Out_stats a b c"
| "put_size c out = out"

text \<open>heapstore_memory_shutdown between lock and unlock.\<close>

definition clear_stmt :: "nat \<Rightarrow> raw_memory \<Rightarrow> raw_memory" where
  "clear_stmt n s =
     (if n = 0 then s\<lparr>raw_pools := replicate MEMORY_MAX_POOLS zero_pool\<rparr>
      else if n = 1 then s\<lparr>raw_allocations := replicate MEMORY_MAX_ALLOCATIONS zero_allocation\<rparr>
      else if n = 2 then s\<lparr>raw_pool_count := 0\<rparr>
      else if n = 3 then s\<lparr>raw_allocation_count := 0\<rparr>
      else s\<lparr>raw_initialized := False\<rparr>)"

text \<open>One statement of a call; heapstore_memory_shutdown returns nothing, here SUCCESS.\<close>

definition mem_stmt :: "airy \<Rightarrow> mem_thread \<Rightarrow> raw_memory \<Rightarrow> mem_thread \<times> raw_memory" where
  "mem_stmt A t s = (let x = op_of t in
     case pc_of t of
       At_check \<Rightarrow> (t\<lparr>pc_of := if raw_initialized s then At_params
                               else At_return (if x = Op_shutdown then SUCCESS else ERR_NOT_INITIALIZED)\<rparr>, s)
     | At_params \<Rightarrow> (t\<lparr>pc_of := if params_ok x then At_lock else At_return ERR_INVALID_PARAM\<rparr>, s)
     | At_lock \<Rightarrow> (t\<lparr>pc_of := first_pc x\<rparr>, s)
     | At_room \<Rightarrow> (t\<lparr>pc_of := if max_use x \<le> in_use x s then At_unlock ERR_OUT_OF_MEMORY else At_scan 0\<rparr>, s)
     | At_scan i \<Rightarrow> (t\<lparr>pc_of := if i < in_use x s
                                  then (if slot_id x s i = sought x then At_found i else At_scan (Suc i))
                                  else (if stores_new x then At_append else At_unlock ERR_NOT_FOUND)\<rparr>, s)
     | At_found i \<Rightarrow> (case found_stmt x i (out_of t) s of (pc, out, s') \<Rightarrow> (t\<lparr>pc_of := pc, out_of := out\<rparr>, s'))
     | At_second i \<Rightarrow> (t\<lparr>pc_of := At_unlock SUCCESS\<rparr>, second_stmt A x i s)
     | At_append \<Rightarrow> (t\<lparr>pc_of := At_count\<rparr>, append_stmt x s)
     | At_count \<Rightarrow> (t\<lparr>pc_of := At_unlock SUCCESS\<rparr>, count_stmt x s)
     | At_stats \<Rightarrow> (t\<lparr>pc_of := At_stats2, out_of := Out_stats (of_nat (raw_pool_count s)) 0 0\<rparr>, s)
     | At_stats2 \<Rightarrow> (t\<lparr>pc_of := At_sum 0 0, out_of := put_allocations (of_nat (raw_allocation_count s)) (out_of t)\<rparr>, s)
     | At_sum i n \<Rightarrow> (if i < raw_pool_count s then (t\<lparr>pc_of := At_sum (Suc i) (n + total_size (raw_pools s ! i))\<rparr>, s)
                      else (t\<lparr>pc_of := At_unlock SUCCESS, out_of := put_size n (out_of t)\<rparr>, s))
     | At_clear n \<Rightarrow> (t\<lparr>pc_of := if n < 4 then At_clear (Suc n) else At_unlock SUCCESS\<rparr>, clear_stmt n s)
     | At_unlock e \<Rightarrow> (t\<lparr>pc_of := At_return e\<rparr>, s)
     | At_return e \<Rightarrow> (t, s))"

definition mem_phase :: "mem_thread \<Rightarrow> phase" where
  "mem_phase t = (case pc_of t of
     At_check \<Rightarrow> Before | At_params \<Rightarrow> Before | At_lock \<Rightarrow> Waiting | At_unlock e \<Rightarrow> Leaving | At_return e \<Rightarrow> Past
   | _ \<Rightarrow> Inside)"

text \<open>Threads with one call each, under a schedule.\<close>

definition memory_threads :: "airy \<Rightarrow> nat list \<Rightarrow> (mem_thread, raw_memory) threads \<Rightarrow> (mem_thread, raw_memory) threads" where
  "memory_threads A sched z = locked_run (mem_stmt A) mem_phase sched z"

definition memory_start :: "raw_memory \<Rightarrow> mem_op list \<Rightarrow> (mem_thread, raw_memory) threads" where
  "memory_start s xs = (None, s, map mem_call xs)"

section \<open>A call alone\<close>

text \<open>A bound on the statements that a call still makes when a table has at most n slots in use.\<close>

definition mem_left :: "nat \<Rightarrow> mem_thread \<Rightarrow> nat" where
  "mem_left n t = (case pc_of t of
     At_check \<Rightarrow> n + 20 | At_params \<Rightarrow> n + 19 | At_lock \<Rightarrow> n + 18 | At_room \<Rightarrow> n + 17
   | At_stats \<Rightarrow> n + 17 | At_stats2 \<Rightarrow> n + 16 | At_sum i c \<Rightarrow> n - i + 10 | At_scan i \<Rightarrow> n - i + 10
   | At_found i \<Rightarrow> 6 | At_second i \<Rightarrow> 4 | At_append \<Rightarrow> 5 | At_count \<Rightarrow> 4 | At_clear c \<Rightarrow> (if c < 4 then 10 - c else 5)
   | At_unlock e \<Rightarrow> 1 | At_return e \<Rightarrow> 0)"

lemma found_stmt_pc: "fst (found_stmt x i out s) \<in> {At_unlock SUCCESS, At_second i}"
  by (cases "(x, i, out, s)" rule: found_stmt.cases) auto

lemma first_pc_cases: "first_pc x \<in> {At_room, At_stats, At_clear 0, At_scan 0}"
  by (cases x) auto

lemma first_pc_left: "mem_left n (t\<lparr>pc_of := first_pc x\<rparr>) < n + 18"
  by (cases x) (simp_all add: mem_left_def)

lemma found_left: "found_stmt x i out s = (pc, out', s') \<Longrightarrow> mem_left n (t\<lparr>pc_of := pc, out_of := out'\<rparr>) < 6"
  using found_stmt_pc [of x i out s] by (auto simp: mem_left_def)

lemma mem_stmt_left:
  assumes "mem_phase t \<noteq> Past" and "mem_stmt A t s = (t', s')" and "in_use (op_of t) s \<le> n" and "raw_pool_count s \<le> n"
  shows "mem_left n t' < mem_left n t"
proof (cases "pc_of t")
  case At_lock
  then show ?thesis using assms(2) first_pc_left [of n "op_of t" t]
    by (auto simp: mem_stmt_def mem_left_def [of n t])
next
  case (At_found i)
  then show ?thesis using assms(2) found_left [of "op_of t" i "out_of t" s _ _ _ n t]
    by (fastforce simp: mem_stmt_def mem_left_def Let_def split: prod.splits)
qed (use assms in \<open>auto simp: mem_phase_def mem_stmt_def mem_left_def Let_def in_use_def split: if_splits\<close>)

text \<open>A thread that runs alone makes its statements until it has returned.\<close>

function call_alone :: "airy \<Rightarrow> mem_thread \<Rightarrow> raw_memory \<Rightarrow> mem_thread \<times> raw_memory" where
  "call_alone A t s =
     (if mem_phase t = Past then (t, s) else (case mem_stmt A t s of (t', s') \<Rightarrow> call_alone A t' s'))"
  by pat_completeness auto

termination
proof (relation "measure (\<lambda>(A, t, s). mem_left (max (raw_pool_count s) (raw_allocation_count s)) t)")
  fix A :: airy and t t' and s s' :: raw_memory
  assume run: "mem_phase t \<noteq> Past" "(t', s') = mem_stmt A t s"
  let ?n = "\<lambda>s :: raw_memory. max (raw_pool_count s) (raw_allocation_count s)"
  have less: "mem_left (?n s) t' < mem_left (?n s) t"
    using run by (intro mem_stmt_left [of t A s t' s']) (auto simp: in_use_def)
  have st: "mem_stmt A t s = (t', s')" using run by simp
  have "mem_left (?n s') t' = mem_left (?n s) t'"
  proof (cases "pc_of t")
    case (At_found i)
    then show ?thesis using st found_stmt_pc [of "op_of t" i "out_of t" s]
      by (auto simp: mem_stmt_def mem_left_def split: prod.splits)
  qed (use st in \<open>auto simp: mem_stmt_def mem_left_def Let_def split: if_splits\<close>)
  with less show "((A, t', s'), A, t, s) \<in> measure (\<lambda>(A, t, s). mem_left (?n s) t)" by simp
qed simp

declare call_alone.simps [simp del]

lemma past_thread: "mem_phase t = Past \<Longrightarrow> mem_stmt A t s = (t, s) \<and> call_alone A t s = (t, s)"
  by (auto simp: call_alone.simps [of A t s] mem_phase_def mem_stmt_def split: mem_pc.splits)

lemma call_alone_stmt: "mem_stmt A t s = (t', s') \<Longrightarrow> call_alone A t' s' = call_alone A t s"
  using past_thread [of t A s] call_alone.simps [of A t s] by (cases "mem_phase t = Past") auto

section \<open>The mutex serialises\<close>

text \<open>Only heapstore_memory_shutdown writes s_initialized, which the checks before the lock read.\<close>

definition mem_calm :: "mem_thread \<Rightarrow> bool" where
  "mem_calm t \<longleftrightarrow> op_of t \<noteq> Op_shutdown \<and> (\<forall>n. pc_of t \<noteq> At_clear n)"

lemma found_stmt_keeps: "found_stmt x i out s = (pc, out', s') \<Longrightarrow> raw_initialized s' = raw_initialized s \<and> (\<forall>n. pc \<noteq> At_clear n)"
  by (cases "(x, i, out, s)" rule: found_stmt.cases) auto

lemma second_stmt_keeps: "raw_initialized (second_stmt A x i s) = raw_initialized s"
  by (cases "(A, x, i, s)" rule: second_stmt.cases) auto

lemma append_stmt_keeps: "raw_initialized (append_stmt x s) = raw_initialized s"
  by (cases "(x, s)" rule: append_stmt.cases) auto

lemma count_stmt_keeps: "raw_initialized (count_stmt x s) = raw_initialized s"
  by (cases x) auto

lemma first_pc_calm: "x \<noteq> Op_shutdown \<Longrightarrow> first_pc x \<noteq> At_clear n"
  by (cases x) auto

lemma mem_calm_stmt: "mem_calm t \<Longrightarrow> mem_stmt A t s = (t', s') \<Longrightarrow> mem_calm t' \<and> raw_initialized s' = raw_initialized s"
  by (cases "pc_of t")
    (auto simp: mem_calm_def mem_stmt_def Let_def second_stmt_keeps append_stmt_keeps count_stmt_keeps first_pc_calm
      dest!: found_stmt_keeps split: prod.splits if_splits)

lemma mem_calm_alone: "mem_calm t \<Longrightarrow> raw_initialized (snd (call_alone A t s)) = raw_initialized s"
proof (induction A t s rule: call_alone.induct)
  case (1 A t s)
  obtain t' s' where st: "mem_stmt A t s = (t', s')" by fastforce
  show ?case
  proof (cases "mem_phase t = Past")
    case True
    then show ?thesis using past_thread [of t A s] by simp
  next
    case False
    have "raw_initialized (snd (call_alone A t' s')) = raw_initialized s'"
      using "1.IH" [OF False st [symmetric]] mem_calm_stmt [OF "1.prems" st] by simp
    then show ?thesis using mem_calm_stmt [OF "1.prems" st] call_alone_stmt [OF st] by simp
  qed
qed

lemma mem_inside_stmt:
  "mem_phase t = Inside \<Longrightarrow> mem_stmt A t s = (t', s') \<Longrightarrow> mem_phase t' \<in> {Inside, Leaving}"
proof (cases "pc_of t")
  case (At_found i)
  then show "mem_stmt A t s = (t', s') \<Longrightarrow> mem_phase t' \<in> {Inside, Leaving}"
    using found_stmt_pc [of "op_of t" i "out_of t" s] by (auto simp: mem_phase_def mem_stmt_def split: prod.splits)
qed (auto simp: mem_phase_def mem_stmt_def Let_def split: if_splits)

interpretation mem_locked: locked_calls "mem_stmt A" mem_phase "call_alone A" raw_initialized mem_calm
proof unfold_locales
  fix t t' and s s' :: raw_memory
  assume st: "mem_stmt A t s = (t', s')"
  show "call_alone A t' s' = call_alone A t s" by (rule call_alone_stmt [OF st])
  show "mem_calm t' \<and> raw_initialized s' = raw_initialized s" if "mem_calm t" by (rule mem_calm_stmt [OF that st])
  show "s' = s \<and> mem_phase t' \<in> {Before, Waiting, Past} \<and> (\<forall>s1. raw_initialized s1 = raw_initialized s \<longrightarrow> mem_stmt A t s1 = (t', s1))"
    if "mem_phase t = Before" using that st by (cases "pc_of t") (auto simp: mem_phase_def mem_stmt_def split: if_splits)
  show "s' = s \<and> mem_phase t' = Inside" if "mem_phase t = Waiting"
    using that st first_pc_cases [of "op_of t"] by (cases "pc_of t") (auto simp: mem_phase_def mem_stmt_def)
  show "mem_phase t' \<in> {Inside, Leaving}" if "mem_phase t = Inside" by (rule mem_inside_stmt [OF that st])
  show "s' = s \<and> mem_phase t' = Past" if "mem_phase t = Leaving"
    using that st by (cases "pc_of t") (auto simp: mem_phase_def mem_stmt_def)
qed (use mem_calm_alone past_thread in auto)

section \<open>The calls end\<close>

text \<open>What the owner of the mutex relies on: the arrays are as declared and a slot is free where one is written.\<close>

definition mem_ok :: "mem_thread \<Rightarrow> raw_memory \<Rightarrow> bool" where
  "mem_ok t s \<longleftrightarrow> raw_ok s \<and> (stores_new (op_of t) \<and> (pc_of t \<in> {At_append, At_count} \<or> (\<exists>i. pc_of t = At_scan i)) \<longrightarrow>
     in_use (op_of t) s < max_use (op_of t))"

lemma found_stmt_ok: "found_stmt x i out s = (pc, out', s') \<Longrightarrow> raw_ok s' = raw_ok s"
  by (cases "(x, i, out, s)" rule: found_stmt.cases) (auto simp: raw_ok_def)

lemma second_stmt_ok: "raw_ok (second_stmt A x i s) = raw_ok s"
  by (cases "(A, x, i, s)" rule: second_stmt.cases) (auto simp: raw_ok_def)

lemma append_stmt_ok: "raw_ok (append_stmt x s) = raw_ok s" and append_in_use: "in_use y (append_stmt x s) = in_use y s"
  by (cases "(x, s)" rule: append_stmt.cases, auto simp: raw_ok_def in_use_def)+

lemma count_stmt_ok: "raw_ok s \<Longrightarrow> stores_new x \<longrightarrow> in_use x s < max_use x \<Longrightarrow> raw_ok (count_stmt x s)"
  by (cases x) (auto simp: raw_ok_def in_use_def max_use_def)

lemma clear_stmt_ok: "raw_ok s \<Longrightarrow> raw_ok (clear_stmt n s)"
  by (auto simp: clear_stmt_def raw_ok_def)

lemma in_use_max: "raw_ok s \<Longrightarrow> in_use x s \<le> MEMORY_MAX_ALLOCATIONS \<and> raw_pool_count s \<le> MEMORY_MAX_ALLOCATIONS"
  by (auto simp: raw_ok_def in_use_def MEMORY_MAX_POOLS_def MEMORY_MAX_ALLOCATIONS_def)

lemma first_pc_ok: "stores_new x \<Longrightarrow> first_pc x = At_room"
  by (cases x) auto

lemma mem_ok_stmt:
  assumes "mem_ok t s" and "mem_stmt A t s = (t', s')" and "mem_phase t \<in> {Inside, Leaving}"
  shows "mem_ok t' s'"
proof (cases "pc_of t")
  case (At_found i)
  then show ?thesis using assms found_stmt_pc [of "op_of t" i "out_of t" s]
    by (auto simp: mem_stmt_def mem_ok_def found_stmt_ok Let_def split: prod.splits)
qed (use assms in \<open>auto simp: mem_stmt_def mem_ok_def mem_phase_def Let_def second_stmt_ok append_stmt_ok append_in_use
  count_stmt_ok clear_stmt_ok split: if_splits\<close>)

interpretation mem_progress: locked_progress "mem_stmt A" mem_phase "call_alone A" raw_initialized mem_calm
  "mem_left MEMORY_MAX_ALLOCATIONS" raw_ok mem_ok
proof unfold_locales
  fix t t' and s s' :: raw_memory
  assume st: "mem_stmt A t s = (t', s')"
  show "mem_left MEMORY_MAX_ALLOCATIONS t' < mem_left MEMORY_MAX_ALLOCATIONS t" if "mem_phase t \<in> {Before, Waiting}"
    using that st first_pc_left [of MEMORY_MAX_ALLOCATIONS "op_of t" t]
    by (cases "pc_of t") (auto simp: mem_phase_def mem_stmt_def mem_left_def [of _ t] mem_left_def [of _ "t\<lparr>pc_of := _\<rparr>"] split: if_splits)
  show "mem_ok t' s'" if "mem_phase t = Waiting" "raw_ok s"
    using that st first_pc_cases [of "op_of t"] first_pc_ok [of "op_of t"]
    by (cases "pc_of t") (auto simp: mem_phase_def mem_stmt_def mem_ok_def)
  show "mem_left MEMORY_MAX_ALLOCATIONS t' < mem_left MEMORY_MAX_ALLOCATIONS t
      \<and> mem_ok t' s'" if "mem_phase t = Inside" "mem_ok t s"
    using mem_ok_stmt [OF that(2) st] mem_stmt_left [OF _ st, of MEMORY_MAX_ALLOCATIONS] in_use_max [of s] that
    by (auto simp: mem_ok_def)
  show "mem_left MEMORY_MAX_ALLOCATIONS t' < mem_left MEMORY_MAX_ALLOCATIONS t
      \<and> raw_ok s'" if "mem_phase t = Leaving" "mem_ok t s"
    using mem_ok_stmt [OF that(2) st] mem_stmt_left [OF _ st, of MEMORY_MAX_ALLOCATIONS] in_use_max [of s] that
    by (auto simp: mem_ok_def)
qed

section \<open>A call alone is the function of HS_Memory\<close>

fun mem_apply :: "airy \<Rightarrow> mem_op \<Rightarrow> memory \<Rightarrow> (hs_error \<times> mem_out) \<times> memory" where
  "mem_apply A (Op_record_pool p) m = (case heapstore_memory_record_pool p m of (e, m') \<Rightarrow> ((e, No_out), m'))"
| "mem_apply A (Op_get_pool k b) m =
     (case heapstore_memory_get_pool k b m of (e, r) \<Rightarrow> ((e, case r of None \<Rightarrow> No_out | Some p \<Rightarrow> Out_pool p), m))"
| "mem_apply A (Op_update_usage k u f) m = (case heapstore_memory_update_pool_usage k u f m of (e, m') \<Rightarrow> ((e, No_out), m'))"
| "mem_apply A (Op_record a) m = (case heapstore_mem_record a m of (e, m') \<Rightarrow> ((e, No_out), m'))"
| "mem_apply A (Op_get_allocation k b) m =
     (case heapstore_memory_get_allocation k b m of (e, r) \<Rightarrow> ((e, case r of None \<Rightarrow> No_out | Some a \<Rightarrow> Out_allocation a), m))"
| "mem_apply A (Op_free now k) m = (case heapstore_memory_free_allocation A now k m of (e, m') \<Rightarrow> ((e, No_out), m'))"
| "mem_apply A Op_get_stats m =
     (case heapstore_memory_get_stats m of (e, r) \<Rightarrow> ((e, case r of None \<Rightarrow> No_out | Some (a, b, c) \<Rightarrow> Out_stats a b c), m))"
| "mem_apply A Op_shutdown m = ((SUCCESS, No_out), heapstore_memory_shutdown m)"

text \<open>The search loop finds the first slot with the id.\<close>

lemma find_slot_index: "find_slot key rs k = find (\<lambda>j. key (rs ! j) = k) [0..<length rs]"
proof (induction rs)
  case (Cons r rs)
  have "find P (map Suc xs) = map_option Suc (find (\<lambda>j. P (Suc j)) xs)" for P xs by (induction xs) auto
  then show ?case by (simp add: Cons upt_conv_Cons flip: map_Suc_upt del: upt_Suc)
qed simp

lemma find_slot_take:
  assumes "n \<le> length rs"
  shows "find_slot key (take n rs) k = find (\<lambda>j. key (rs ! j) = k) [0..<n]"
  using assms by (auto simp: find_slot_index min_def intro!: find_cong)

lemma alone_scan:
  "call_alone A \<lparr>op_of = x, pc_of = At_scan i, out_of = out\<rparr> s =
     call_alone A \<lparr>op_of = x, pc_of = (case find (\<lambda>j. slot_id x s j = sought x) [i..<in_use x s] of
       Some j \<Rightarrow> At_found j | None \<Rightarrow> if stores_new x then At_append else At_unlock ERR_NOT_FOUND), out_of = out\<rparr> s"
proof (induction "in_use x s - i" arbitrary: i)
  case 0
  then show ?case by (subst call_alone.simps) (simp add: mem_phase_def mem_stmt_def)
next
  case (Suc n)
  then have "i < in_use x s" by simp
  then show ?case using Suc(1) [of "Suc i"] Suc(2)
    by (subst call_alone.simps) (simp add: mem_phase_def mem_stmt_def upt_conv_Cons)
qed

lemma alone_sum:
  assumes "raw_pool_count s \<le> length (raw_pools s)"
  shows "call_alone A \<lparr>op_of = x, pc_of = At_sum i n, out_of = Out_stats a b c\<rparr> s =
     call_alone A \<lparr>op_of = x, pc_of = At_unlock SUCCESS,
       out_of = Out_stats a b (foldl (\<lambda>z p. z + total_size p) n (drop i (take (raw_pool_count s) (raw_pools s))))\<rparr> s"
proof (induction "raw_pool_count s - i" arbitrary: i n)
  case 0
  then show ?case by (subst call_alone.simps) (simp add: mem_phase_def mem_stmt_def)
next
  case (Suc k)
  then have i: "i < raw_pool_count s" by simp
  then have "drop i (take (raw_pool_count s) (raw_pools s)) = raw_pools s ! i # drop (Suc i) (take (raw_pool_count s) (raw_pools s))"
    using assms by (subst Cons_nth_drop_Suc [symmetric]) auto
  then show ?case using Suc(1) [of "Suc i"] Suc(2) i
    by (subst call_alone.simps) (simp add: mem_phase_def mem_stmt_def)
qed

text \<open>The result of a call: what it returned and what it copied out.\<close>

definition mem_result :: "mem_thread \<Rightarrow> (hs_error \<times> mem_out) option" where
  "mem_result t = (case pc_of t of At_return e \<Rightarrow> Some (e, out_of t) | _ \<Rightarrow> None)"

lemma mem_result_past: "mem_phase t = Past \<longleftrightarrow> mem_result t \<noteq> None"
  by (cases "pc_of t") (simp_all add: mem_phase_def mem_result_def)

text \<open>The statements as rewrite rules, but for the two loops.\<close>

lemma alone_steps:
  "call_alone A \<lparr>op_of = x, pc_of = At_check, out_of = out\<rparr> s =
     call_alone A \<lparr>op_of = x, pc_of = if raw_initialized s then At_params
       else At_return (if x = Op_shutdown then SUCCESS else ERR_NOT_INITIALIZED), out_of = out\<rparr> s"
  "call_alone A \<lparr>op_of = x, pc_of = At_params, out_of = out\<rparr> s =
     call_alone A \<lparr>op_of = x, pc_of = if params_ok x then At_lock else At_return ERR_INVALID_PARAM, out_of = out\<rparr> s"
  "call_alone A \<lparr>op_of = x, pc_of = At_lock, out_of = out\<rparr> s = call_alone A \<lparr>op_of = x, pc_of = first_pc x, out_of = out\<rparr> s"
  "call_alone A \<lparr>op_of = x, pc_of = At_room, out_of = out\<rparr> s =
     call_alone A \<lparr>op_of = x, pc_of = if max_use x \<le> in_use x s then At_unlock ERR_OUT_OF_MEMORY else At_scan 0, out_of = out\<rparr> s"
  "call_alone A \<lparr>op_of = x, pc_of = At_found i, out_of = out\<rparr> s =
     (case found_stmt x i out s of (pc, out', s') \<Rightarrow> call_alone A \<lparr>op_of = x, pc_of = pc, out_of = out'\<rparr> s')"
  "call_alone A \<lparr>op_of = x, pc_of = At_second i, out_of = out\<rparr> s =
     call_alone A \<lparr>op_of = x, pc_of = At_unlock SUCCESS, out_of = out\<rparr> (second_stmt A x i s)"
  "call_alone A \<lparr>op_of = x, pc_of = At_append, out_of = out\<rparr> s =
     call_alone A \<lparr>op_of = x, pc_of = At_count, out_of = out\<rparr> (append_stmt x s)"
  "call_alone A \<lparr>op_of = x, pc_of = At_count, out_of = out\<rparr> s =
     call_alone A \<lparr>op_of = x, pc_of = At_unlock SUCCESS, out_of = out\<rparr> (count_stmt x s)"
  "call_alone A \<lparr>op_of = x, pc_of = At_stats, out_of = out\<rparr> s =
     call_alone A \<lparr>op_of = x, pc_of = At_stats2, out_of = Out_stats (of_nat (raw_pool_count s)) 0 0\<rparr> s"
  "call_alone A \<lparr>op_of = x, pc_of = At_stats2, out_of = out\<rparr> s =
     call_alone A \<lparr>op_of = x, pc_of = At_sum 0 0, out_of = put_allocations (of_nat (raw_allocation_count s)) out\<rparr> s"
  "call_alone A \<lparr>op_of = x, pc_of = At_clear n, out_of = out\<rparr> s =
     call_alone A \<lparr>op_of = x, pc_of = if n < 4 then At_clear (Suc n) else At_unlock SUCCESS, out_of = out\<rparr> (clear_stmt n s)"
  "call_alone A \<lparr>op_of = x, pc_of = At_unlock e, out_of = out\<rparr> s = (\<lparr>op_of = x, pc_of = At_return e, out_of = out\<rparr>, s)"
  "call_alone A \<lparr>op_of = x, pc_of = At_return e, out_of = out\<rparr> s = (\<lparr>op_of = x, pc_of = At_return e, out_of = out\<rparr>, s)"
  by (subst call_alone.simps, simp add: mem_phase_def mem_stmt_def past_thread split: prod.splits)+

text \<open>The used slots under the writes of the statements.\<close>

lemma scan_pools:
  "raw_ok s \<Longrightarrow> find (\<lambda>j. pool_id (raw_pools s ! j) = k) [0..<raw_pool_count s]
     = find_slot pool_id (take (raw_pool_count s) (raw_pools s)) k"
  by (simp add: find_slot_take raw_ok_def)

lemma scan_allocations:
  "raw_ok s \<Longrightarrow> find (\<lambda>j. allocation_id (raw_allocations s ! j) = k) [0..<raw_allocation_count s]
     = find_slot allocation_id (take (raw_allocation_count s) (raw_allocations s)) k"
  by (simp add: find_slot_take raw_ok_def)

lemma find_slot_take_less: "find_slot key (take n rs) k = Some i \<Longrightarrow> i < n \<and> i < length rs"
  using find_slot_Some [of key "take n rs" k i] by simp

lemma take_Suc_put: "n < length rs \<Longrightarrow> (take (Suc n) rs)[n := r] = take n rs @ [r]"
  by (simp add: take_Suc_conv_app_nth list_update_append)

lemma used_slots: "raw_ok s \<Longrightarrow> length (take (raw_pool_count s) (raw_pools s)) = raw_pool_count s
    \<and> length (take (raw_allocation_count s) (raw_allocations s)) = raw_allocation_count s"
  by (simp add: raw_ok_def)

lemmas alone_rules = mem_call_def alone_steps alone_scan slot_id_def in_use_def max_use_def scan_pools scan_allocations

definition call_agrees :: "airy \<Rightarrow> mem_op \<Rightarrow> raw_memory \<Rightarrow> bool" where
  "call_agrees A x s \<longleftrightarrow> (\<exists>e out s'. call_alone A (mem_call x) s = (\<lparr>op_of = x, pc_of = At_return e, out_of = out\<rparr>, s')
     \<and> mem_apply A x (memory_of s) = ((e, out), memory_of s') \<and> raw_ok s')"

lemma alone_record_pool: "raw_ok s \<Longrightarrow> call_agrees A (Op_record_pool p) s"
  by (cases p) (auto simp: call_agrees_def alone_rules heapstore_memory_record_pool_def memory_of_def used_slots
      take_Suc_put take_update_swap raw_ok_def split: option.splits)

lemma alone_record: "raw_ok s \<Longrightarrow> call_agrees A (Op_record a) s"
  by (cases a) (auto simp: call_agrees_def alone_rules heapstore_mem_record_def memory_of_def used_slots
      take_Suc_put take_update_swap raw_ok_def split: option.splits)

lemma alone_get_pool: "raw_ok s \<Longrightarrow> call_agrees A (Op_get_pool k b) s"
  by (cases k) (auto simp: call_agrees_def alone_rules heapstore_memory_get_pool_def memory_of_def
      dest: find_slot_take_less split: option.splits)

lemma alone_get_allocation: "raw_ok s \<Longrightarrow> call_agrees A (Op_get_allocation k b) s"
  by (cases k) (auto simp: call_agrees_def alone_rules heapstore_memory_get_allocation_def memory_of_def
      dest: find_slot_take_less split: option.splits)

lemma alone_update_usage: "raw_ok s \<Longrightarrow> call_agrees A (Op_update_usage k u f) s"
  by (cases k) (auto simp: call_agrees_def alone_rules heapstore_memory_update_pool_usage_def memory_of_def
      take_update_swap raw_ok_def dest: find_slot_take_less split: option.splits)

lemma alone_free: "raw_ok s \<Longrightarrow> call_agrees A (Op_free now k) s"
  by (cases k) (auto simp: call_agrees_def alone_rules heapstore_memory_free_allocation_def memory_of_def
      take_update_swap raw_ok_def dest: find_slot_take_less split: option.splits)

lemma alone_get_stats: "raw_ok s \<Longrightarrow> call_agrees A Op_get_stats s"
  by (auto simp: call_agrees_def alone_rules alone_sum heapstore_memory_get_stats_def memory_of_def raw_ok_def)

lemma alone_shutdown: "raw_ok s \<Longrightarrow> call_agrees A Op_shutdown s"
  by (auto simp: call_agrees_def alone_rules heapstore_memory_shutdown_def memory_of_def clear_stmt_def raw_ok_def)

lemma alone_is_function: "raw_ok s \<Longrightarrow> call_agrees A x s"
  by (cases x) (simp_all add: alone_record_pool alone_record alone_get_pool alone_get_allocation alone_update_usage
      alone_free alone_get_stats alone_shutdown)

section \<open>Several threads\<close>

text \<open>Calls one after the other on the tables of HS_Memory.\<close>

fun mem_calls :: "airy \<Rightarrow> mem_op list \<Rightarrow> memory \<Rightarrow> (hs_error \<times> mem_out) list \<times> memory" where
  "mem_calls A [] m = ([], m)"
| "mem_calls A (x # xs) m =
     (case mem_apply A x m of (r, m') \<Rightarrow> case mem_calls A xs m' of (rs, m'') \<Rightarrow> (r # rs, m''))"

lemma serial_calls:
  assumes "serial (call_alone A) order ts s = (fs, s')" and "raw_ok s" and "distinct order"
    and "set order \<subseteq> {..<length ts}" and "\<forall>i\<in>set order. ts ! i = mem_call (xs ! i)"
  shows "\<exists>rs. mem_calls A (map (\<lambda>i. xs ! i) order) (memory_of s) = (rs, memory_of s')
    \<and> map (\<lambda>i. mem_result (fs ! i)) order = map Some rs"
  using assms
proof (induction order arbitrary: ts s)
  case Nil
  then show ?case by simp
next
  case (Cons i order)
  have i: "ts ! i = mem_call (xs ! i)" "i < length ts" "i \<notin> set order" using Cons.prems by auto
  obtain e out s1 where one: "call_alone A (mem_call (xs ! i)) s = (\<lparr>op_of = xs ! i, pc_of = At_return e, out_of = out\<rparr>, s1)"
      "mem_apply A (xs ! i) (memory_of s) = ((e, out), memory_of s1)" "raw_ok s1"
    using alone_is_function [OF Cons.prems(2), of A "xs ! i"] unfolding call_agrees_def by blast
  let ?ts = "ts[i := \<lparr>op_of = xs ! i, pc_of = At_return e, out_of = out\<rparr>]"
  have rest: "serial (call_alone A) order ?ts s1 = (fs, s')" using Cons.prems(1) i one by simp
  have "\<forall>j\<in>set order. ?ts ! j = mem_call (xs ! j)" using Cons.prems(5) i by (auto simp: nth_list_update)
  then obtain rs where rs: "mem_calls A (map (\<lambda>i. xs ! i) order) (memory_of s1) = (rs, memory_of s')"
      "map (\<lambda>i. mem_result (fs ! i)) order = map Some rs"
    using Cons.IH [OF rest one(3)] Cons.prems(3,4) by auto
  have "fs ! i = ?ts ! i" using serial_other [OF i(3), of "call_alone A" ?ts s1] rest by simp
  then show ?case using rs one i by (simp add: mem_result_def)
qed

text \<open>
  C17. The memory tables under several threads. Whatever the schedule, once all calls have returned, they
  returned what the functions of the tables give one after the other in some order, and leave the tables
  of that order behind. The order respects time: cut the run anywhere, calls that had returned come
  before calls that had not begun. The calls are those that are not heapstore_memory_shutdown.
\<close>

theorem memory_calls_serialise:
  assumes "raw_ok s0" and "Op_shutdown \<notin> set xs"
    and "memory_threads A sched1 (memory_start s0 xs) = (ow1, s1, ts1)"
    and "memory_threads A sched2 (ow1, s1, ts1) = (ow, s, ts)" and "\<forall>t\<in>set ts. mem_result t \<noteq> None"
  shows "\<exists>first later rs. distinct (first @ later) \<and> set (first @ later) = {..<length xs}
    \<and> (\<forall>i<length xs. mem_result (ts1 ! i) \<noteq> None \<longrightarrow> i \<in> set first)
    \<and> (\<forall>i<length xs. ts1 ! i = mem_call (xs ! i) \<longrightarrow> i \<in> set later)
    \<and> mem_calls A (map (\<lambda>i. xs ! i) (first @ later)) (memory_of s0) = (rs, memory_of s)
    \<and> map (\<lambda>i. mem_result (ts ! i)) (first @ later) = map Some rs"
proof -
  have calm: "\<forall>t\<in>set (map mem_call xs). mem_calm t \<and> mem_phase t \<in> {Before, Waiting}"
    using assms(2) by (auto simp: mem_call_def mem_calm_def mem_phase_def)
  obtain first later where order: "distinct (first @ later)" "set (first @ later) = {..<length xs}"
      "\<forall>i<length xs. mem_phase (ts1 ! i) = Past \<longrightarrow> i \<in> set first"
      "\<forall>i<length xs. mem_phase (ts1 ! i) \<in> {Before, Waiting} \<longrightarrow> i \<in> set later"
      "serial (call_alone A) (first @ later) (map mem_call xs) s0 = (ts, s)"
    using mem_locked.run_is_serial [OF calm, of A sched1 s0 ow1 s1 ts1 sched2 ow s ts] assms(3-5)
    by (auto simp: memory_threads_def memory_start_def mem_result_past)
  have starts: "mem_phase (mem_call x) = Before" for x by (simp add: mem_call_def mem_phase_def)
  have "\<exists>rs. mem_calls A (map (\<lambda>i. xs ! i) (first @ later)) (memory_of s0) = (rs, memory_of s)
      \<and> map (\<lambda>i. mem_result (ts ! i)) (first @ later) = map Some rs"
    using order(2) by (intro serial_calls [OF order(5) assms(1) order(1)]) (auto simp del: set_append)
  then show ?thesis using order starts mem_result_past
    by (intro exI [of _ first] exI [of _ later]) (auto simp del: set_append simp: mem_result_past [symmetric])
qed

text \<open>
  C18. Calls of the memory tables end under several threads. No schedule deadlocks: when every thread gets a
  turn in each round, all calls, shutdowns among them, have returned after at most 10020 rounds for each.
\<close>

theorem memory_calls_finish:
  assumes "raw_ok s0" and "length xs * (MEMORY_MAX_ALLOCATIONS + 20) \<le> length rounds"
    and "\<forall>r\<in>set rounds. {..<length xs} \<subseteq> set r"
  shows "\<forall>t\<in>set (snd (snd (memory_threads A (concat rounds) (memory_start s0 xs)))). mem_result t \<noteq> None"
proof -
  have fit: "mem_progress.fit (memory_start s0 xs)"
    unfolding memory_start_def
    by (rule mem_progress.fit_start [OF assms(1)]) (auto simp: mem_call_def mem_phase_def)
  have "sum_list (map (mem_left n) (map mem_call xs)) = length xs * (n + 20)" for n
    by (induction xs) (simp_all add: mem_call_def mem_left_def)
  then have "mem_progress.total (memory_start s0 xs) \<le> length rounds"
    using assms(2) by (simp add: memory_start_def mem_progress.total_def)
  then show ?thesis
    using mem_progress.fair_rounds_end [OF fit] assms(3) by (simp add: memory_threads_def memory_start_def mem_result_past)
qed

subsection \<open>Runs\<close>

definition demo_raw :: raw_memory where
  "demo_raw = \<lparr>raw_initialized = True, raw_pools = zero_pool # replicate (MEMORY_MAX_POOLS - 1) zero_pool, raw_pool_count = 0,
     raw_allocations = replicate MEMORY_MAX_ALLOCATIONS zero_allocation, raw_allocation_count = 0, raw_path = ''/mem''\<rparr>"

lemma demo_raw_ok: "raw_ok demo_raw"
  by (simp add: raw_ok_def demo_raw_def MEMORY_MAX_POOLS_def)

text \<open>A pool is recorded while another thread reads it: the reader takes the mutex first.\<close>

definition demo_calls :: "mem_op list" where
  "demo_calls = [Op_record_pool (Some demo_pool), Op_get_pool (Some ''p1'') True]"

lemmas run_simps = memory_threads_def memory_start_def locked_step_def mem_stmt_def mem_phase_def mem_call_def
  slot_id_def in_use_def max_use_def

definition demo_mid :: "mem_thread list" where
  "demo_mid = [\<lparr>op_of = Op_record_pool (Some demo_pool), pc_of = At_lock, out_of = No_out\<rparr>,
     \<lparr>op_of = Op_get_pool (Some ''p1'') True, pc_of = At_return ERR_NOT_FOUND, out_of = No_out\<rparr>]"

definition demo_end :: "mem_thread list" where
  "demo_end = demo_mid[0 := \<lparr>op_of = Op_record_pool (Some demo_pool), pc_of = At_return SUCCESS, out_of = No_out\<rparr>]"

definition demo_full :: raw_memory where
  "demo_full = demo_raw\<lparr>raw_pools := demo_pool # replicate (MEMORY_MAX_POOLS - 1) zero_pool, raw_pool_count := 1\<rparr>"

lemma demo_first: "memory_threads A [0, 0, 1, 1, 1, 0, 1, 1] (memory_start demo_raw demo_calls) = (None, demo_raw, demo_mid)"
  by (simp add: run_simps demo_raw_def demo_calls_def demo_pool_def demo_mid_def)

lemma demo_second: "memory_threads A [0, 1, 0, 0, 0, 0, 0] (None, demo_raw, demo_mid) = (None, demo_full, demo_end)"
  by (simp add: run_simps demo_raw_def MEMORY_MAX_POOLS_def demo_mid_def demo_end_def demo_full_def)

lemma demo_record_first:
  "mem_calls A [demo_calls ! 0, demo_calls ! 1] (memory_of demo_raw)
     = ([(SUCCESS, No_out), (SUCCESS, Out_pool demo_pool)], memory_of demo_full)"
  by (simp add: demo_calls_def memory_of_def demo_raw_def demo_full_def heapstore_memory_record_pool_def
      heapstore_memory_get_pool_def MEMORY_MAX_POOLS_def demo_pool_def)

theorem memory_calls_serialise_witness:
  "\<forall>A. mem_calls A [demo_calls ! 1, demo_calls ! 0] (memory_of demo_raw)
     = ([(ERR_NOT_FOUND, No_out), (SUCCESS, No_out)], memory_of demo_full)"
proof
  fix A
  have "Op_shutdown \<notin> set demo_calls" "\<forall>t\<in>set demo_end. mem_result t \<noteq> None"
    by (simp_all add: demo_calls_def demo_end_def demo_mid_def mem_result_def)
  from memory_calls_serialise [OF demo_raw_ok this(1) demo_first demo_second this(2)]
  obtain first later rs where order: "distinct (first @ later)" "set (first @ later) = {..<length demo_calls}"
      "mem_calls A (map (\<lambda>i. demo_calls ! i) (first @ later)) (memory_of demo_raw) = (rs, memory_of demo_full)"
      "map (\<lambda>i. mem_result (demo_end ! i)) (first @ later) = map Some rs"
    by blast
  have "set (first @ later) = {0, Suc 0}" unfolding order(2) by (auto simp: demo_calls_def)
  from two_orders [OF order(1) this] show "mem_calls A [demo_calls ! 1, demo_calls ! 0] (memory_of demo_raw)
      = ([(ERR_NOT_FOUND, No_out), (SUCCESS, No_out)], memory_of demo_full)"
  proof
    assume "first @ later = [0, 1]"
    then show ?thesis using order(3,4) demo_record_first [of A] by (auto simp: demo_end_def demo_mid_def mem_result_def)
  next
    assume o: "first @ later = [1, 0]"
    then show ?thesis using order(3,4) unfolding o by (auto simp: demo_end_def demo_mid_def mem_result_def)
  qed
qed

theorem memory_calls_finish_witness:
  "\<forall>A. list_all (\<lambda>t. mem_result t \<noteq> None)
     (snd (snd (memory_threads A (concat (replicate 20040 [0, 1])) (memory_start demo_raw demo_calls))))"
proof
  fix A
  show "list_all (\<lambda>t. mem_result t \<noteq> None)
      (snd (snd (memory_threads A (concat (replicate 20040 [0, 1])) (memory_start demo_raw demo_calls))))"
    unfolding list_all_iff
    by (rule memory_calls_finish [OF demo_raw_ok]) (auto simp: demo_calls_def MEMORY_MAX_ALLOCATIONS_def)
qed

text \<open>
  The exclusion of heapstore_memory_shutdown is needed. s_initialized is read before the mutex is taken,
  so a reader that has passed its check finds the tables cleared: it reports that a stored pool does not
  exist, which no order of the two calls gives.
\<close>

theorem get_pool_races_shutdown:
  assumes "raw_initialized s" and "raw_pool_count s = 1" and "raw_pools s = p # ps"
  shows "map mem_result (snd (snd (memory_threads A [0, 1, 1, 1, 1, 1, 1, 1, 1, 1, 0, 0, 0, 0]
      (memory_start s [Op_get_pool (Some (pool_id p)) True, Op_shutdown]))))
    = [Some (ERR_NOT_FOUND, No_out), Some (SUCCESS, No_out)]"
    and "fst (mem_calls A [Op_get_pool (Some (pool_id p)) True, Op_shutdown] (memory_of s))
      = [(SUCCESS, Out_pool p), (SUCCESS, No_out)]"
    and "fst (mem_calls A [Op_shutdown, Op_get_pool (Some (pool_id p)) True] (memory_of s))
      = [(SUCCESS, No_out), (ERR_NOT_INITIALIZED, No_out)]"
  using assms by (simp_all add: run_simps clear_stmt_def mem_result_def memory_of_def
      heapstore_memory_get_pool_def heapstore_memory_shutdown_def)

end
