(* ===== verification/HS_Sqlite_Threads.thy ===== *)
theory HS_Sqlite_Threads
  imports HS_Locks HS_Backends
begin

text \<open>
  The SQLite backend of the registry under several threads. An operation is run call by call of the
  SQLite library, between airy_mtx_lock in session_begin and the unlock before its return, and any
  schedule may interleave the calls of the threads on the one connection. The operations turn out to
  have the effect of the functions of HS_Sqlite in some order (\<open>locked_calls\<close>), hence of the list
  specification of HS_Backends, and to end (\<open>locked_progress\<close>). iter_next takes no lock and is not
  among the operations; its header says @threadsafe no.
\<close>

section \<open>The operations\<close>

text \<open>
  The three helpers that all operations of the backend end in: sql_exec_locked, registry_query_one and
  batch_exec_locked, with the text of the statement and the values of their binders.
\<close>

datatype sql_job =
    Job_exec string "sqval list"
  | Job_one string "sqval list" rec_type
  | Job_batch string "sqval list list"

datatype sql_op =
    Write_op registry_op
  | Get_op rec_type "string option" bool
  | Batch_agents "agent_record list option" nat
  | Batch_skills "skill_record list option" nat
  | Batch_sessions "session_record list option" nat

text \<open>The checks of the arguments: None when the operation returns INVALID_PARAM.\<close>

definition add_job :: "('r \<Rightarrow> string) \<Rightarrow> string \<Rightarrow> ('r \<Rightarrow> sqval list) \<Rightarrow> 'r option \<Rightarrow> sql_job option" where
  "add_job key sql bind rec =
     (case rec of None \<Rightarrow> None | Some r \<Rightarrow> if key r = [] then None else Some (Job_exec sql (bind r)))"

definition delete_job :: "string \<Rightarrow> string option \<Rightarrow> sql_job option" where
  "delete_job sql rid = map_option (\<lambda>k. Job_exec sql (registry_bind_id k)) rid"

definition batch_job :: "string \<Rightarrow> ('r \<Rightarrow> sqval list) \<Rightarrow> 'r list option \<Rightarrow> nat \<Rightarrow> sql_job option" where
  "batch_job sql bind records cnt =
     (case records of None \<Rightarrow> None | Some rs \<Rightarrow> if cnt = 0 then None else Some (Job_batch sql (map bind (take cnt rs))))"

fun select_sql :: "rec_type \<Rightarrow> string" where
  "select_sql REC_AGENT = agent_select_sql"
| "select_sql REC_SKILL = skill_select_sql"
| "select_sql REC_SESSION = session_select_sql"

fun job_of :: "sql_op \<Rightarrow> sql_job option" where
  "job_of (Write_op (Agent_op (RAdd r))) = add_job agent_id agent_insert_sql bind_agent_record r"
| "job_of (Write_op (Agent_op (RUpdate r))) = add_job agent_id agent_update_sql bind_agent_update r"
| "job_of (Write_op (Agent_op (RDelete k))) = delete_job ''DELETE FROM agents WHERE id = ?;'' k"
| "job_of (Write_op (Add_skill r)) = add_job skill_id skill_insert_sql bind_skill_row r"
| "job_of (Write_op (Delete_skill k)) = delete_job ''DELETE FROM skills WHERE id = ?;'' k"
| "job_of (Write_op (Session_op (RAdd r))) = add_job session_id session_insert_sql bind_session_row r"
| "job_of (Write_op (Session_op (RUpdate r))) = add_job session_id session_update_sql bind_session_update r"
| "job_of (Write_op (Session_op (RDelete k))) = delete_job ''DELETE FROM sessions WHERE id = ?;'' k"
| "job_of (Get_op ty k out) =
     (case k of None \<Rightarrow> None | Some i \<Rightarrow> if out then Some (Job_one (select_sql ty) (registry_bind_id i) ty) else None)"
| "job_of (Batch_agents rs n) = batch_job agent_insert_sql bind_agent_record rs n"
| "job_of (Batch_skills rs n) = batch_job skill_batch_sql bind_skill_row rs n"
| "job_of (Batch_sessions rs n) = batch_job session_batch_sql bind_session_row rs n"

text \<open>
  The next call of an operation. \<open>rows\<close> are the records a batch has still to insert, \<open>st\<close> is the
  statement; \<open>i\<close> and \<open>vs\<close> are the next parameter and the values still to bind.
\<close>

datatype sql_pc =
    Check_params
  | Check_open sql_job
  | Lock sql_job
  | Prepare sql_job
  | Begin_txn sql_job nat
  | Next_row sql_job nat "sqval list list"
  | Bind sql_job nat nat "sqval list" "sqval list list"
  | Step sql_job nat "sqval list list"
  | Extract sql_job nat
  | Reset sql_job nat "sqval list list"
  | Rollback nat
  | Commit nat
  | Finalize nat hs_error
  | Unlock hs_error
  | Return hs_error

record sql_thread =
  sop_of :: sql_op
  spc_of :: sql_pc
  sout_of :: "any_record option"

definition sql_thread_start :: "sql_op \<Rightarrow> sql_thread" where
  "sql_thread_start x = \<lparr>sop_of = x, spc_of = Check_params, sout_of = None\<rparr>"

fun job_sql :: "sql_job \<Rightarrow> string" where
  "job_sql (Job_exec sql vals) = sql"
| "job_sql (Job_one sql vals ty) = sql"
| "job_sql (Job_batch sql rows) = sql"

text \<open>What follows a prepared statement, and what follows a step with its result.\<close>

fun after_prepare :: "sql_job \<Rightarrow> nat \<Rightarrow> sql_pc" where
  "after_prepare (Job_exec sql vals) st = Bind (Job_exec sql vals) st 1 vals []"
| "after_prepare (Job_one sql vals ty) st = Bind (Job_one sql vals ty) st 1 vals []"
| "after_prepare (Job_batch sql rows) st = Begin_txn (Job_batch sql rows) st"

fun after_step :: "sql_job \<Rightarrow> nat \<Rightarrow> sqval list list \<Rightarrow> sqrc \<Rightarrow> sql_pc" where
  "after_step (Job_exec sql vals) st rows rc =
     Finalize st (if rc = SQLITE_DONE \<or> rc = SQLITE_ROW then SUCCESS else ERR_DB_QUERY_FAILED)"
| "after_step (Job_one sql vals ty) st rows rc =
     (if rc = SQLITE_ROW then Extract (Job_one sql vals ty) st
      else Finalize st (if rc = SQLITE_DONE then ERR_NOT_FOUND else ERR_DB_QUERY_FAILED))"
| "after_step (Job_batch sql all) st rows rc = (if rc = SQLITE_DONE then Reset (Job_batch sql all) st rows else Rollback st)"

fun extracted :: "'w sqlite3 \<Rightarrow> airy \<Rightarrow> sql_job \<Rightarrow> nat \<Rightarrow> 'w \<Rightarrow> any_record option" where
  "extracted L A (Job_one sql vals ty) st w = Some (read_current L A ty st w)"
| "extracted L A _ st w = None"

text \<open>One call of the library, or one check, of one thread.\<close>

definition sql_stmt :: "'w sqlite3 \<Rightarrow> airy \<Rightarrow> sql_thread \<Rightarrow> 'w \<times> sql_registry \<Rightarrow> sql_thread \<times> 'w \<times> sql_registry" where
  "sql_stmt L A t = (\<lambda>(w, g). let db = the (reg_db g); go = (\<lambda>pc. t\<lparr>spc_of := pc\<rparr>) in
     case spc_of t of
       Check_params \<Rightarrow> (go (case job_of (sop_of t) of None \<Rightarrow> Return ERR_INVALID_PARAM | Some j \<Rightarrow> Check_open j), w, g)
     | Check_open j \<Rightarrow>
         (go (if \<not> sql_initialized g \<or> reg_db g = None then Return ERR_NOT_INITIALIZED else Lock j), w, g)
     | Lock j \<Rightarrow> (go (Prepare j), w, g)
     | Prepare j \<Rightarrow> (case sqlite3_prepare L db (job_sql j) w of
           (None, w') \<Rightarrow> (go (Unlock ERR_DB_QUERY_FAILED), w', g)
         | (Some st, w') \<Rightarrow> (go (after_prepare j st), w', g))
     | Begin_txn j st \<Rightarrow> (case sqlite3_exec L db ''BEGIN TRANSACTION;'' w of
           (ok, w') \<Rightarrow> (go (if ok then Next_row j st (case j of Job_batch sql rows \<Rightarrow> rows | _ \<Rightarrow> [])
                            else Finalize st ERR_DB_QUERY_FAILED), w', g))
     | Next_row j st rows \<Rightarrow> (go (case rows of [] \<Rightarrow> Commit st | vals # rest \<Rightarrow> Bind j st 1 vals rest), w, g)
     | Bind j st i vs rows \<Rightarrow> (case vs of
           [] \<Rightarrow> (go (Step j st rows), w, g)
         | v # rest \<Rightarrow> (go (Bind j st (Suc i) rest rows), sqlite3_bind L st i v w, g))
     | Step j st rows \<Rightarrow> (case sqlite3_step L st w of (rc, w') \<Rightarrow> (go (after_step j st rows rc), w', g))
     | Extract j st \<Rightarrow> (t\<lparr>spc_of := Finalize st SUCCESS, sout_of := extracted L A j st w\<rparr>, w, g)
     | Reset j st rows \<Rightarrow> (go (Next_row j st rows), sqlite3_reset L st w, g)
     | Rollback st \<Rightarrow> (go (Finalize st ERR_DB_QUERY_FAILED), snd (sqlite3_exec L db ''ROLLBACK;'' w), g)
     | Commit st \<Rightarrow> (case sqlite3_exec L db ''COMMIT;'' w of
           (ok, w') \<Rightarrow> (go (Finalize st (if ok then SUCCESS else ERR_DB_QUERY_FAILED)), w', g))
     | Finalize st e \<Rightarrow> (go (Unlock e), sqlite3_finalize L st w, g)
     | Unlock e \<Rightarrow> (go (Return e), w, g)
     | Return e \<Rightarrow> (t, w, g))"

definition sql_phase :: "sql_thread \<Rightarrow> phase" where
  "sql_phase t = (case spc_of t of
     Check_params \<Rightarrow> Before | Check_open j \<Rightarrow> Before | Lock j \<Rightarrow> Waiting | Unlock e \<Rightarrow> Leaving | Return e \<Rightarrow> Past
   | _ \<Rightarrow> Inside)"

definition sql_threads ::
  "'w sqlite3 \<Rightarrow> airy \<Rightarrow> nat list \<Rightarrow> (sql_thread, 'w \<times> sql_registry) threads \<Rightarrow> (sql_thread, 'w \<times> sql_registry) threads" where
  "sql_threads L A sched z = locked_run (sql_stmt L A) sql_phase sched z"

definition sql_threads_start :: "'w \<times> sql_registry \<Rightarrow> sql_op list \<Rightarrow> (sql_thread, 'w \<times> sql_registry) threads" where
  "sql_threads_start s xs = (None, s, map sql_thread_start xs)"

section \<open>An operation alone\<close>

text \<open>A bound on the calls that an operation still makes; it depends on nothing but its arguments.\<close>

definition rows_left :: "sqval list list \<Rightarrow> nat" where
  "rows_left rows = (\<Sum>vs\<leftarrow>rows. length vs + 4) + 5"

fun job_left :: "sql_job \<Rightarrow> nat" where
  "job_left (Job_exec sql vals) = length vals + 12"
| "job_left (Job_one sql vals ty) = length vals + 12"
| "job_left (Job_batch sql rows) = rows_left rows + 2"

definition sql_left :: "sql_thread \<Rightarrow> nat" where
  "sql_left t = (case spc_of t of
     Check_params \<Rightarrow> (case job_of (sop_of t) of None \<Rightarrow> 1 | Some j \<Rightarrow> job_left j + 4)
   | Check_open j \<Rightarrow> job_left j + 3
   | Lock j \<Rightarrow> job_left j + 2
   | Prepare j \<Rightarrow> job_left j + 1
   | Begin_txn j st \<Rightarrow> job_left j
   | Next_row j st rows \<Rightarrow> rows_left rows
   | Bind j st i vs rows \<Rightarrow> length vs + 3 + rows_left rows
   | Step j st rows \<Rightarrow> 2 + rows_left rows
   | Extract j st \<Rightarrow> 4
   | Reset j st rows \<Rightarrow> 1 + rows_left rows
   | Rollback st \<Rightarrow> 3
   | Commit st \<Rightarrow> 3
   | Finalize st e \<Rightarrow> 2
   | Unlock e \<Rightarrow> 1
   | Return e \<Rightarrow> 0)"

lemma job_left_pos [simp]: "0 < job_left j"
  by (cases j) simp_all

lemma after_prepare_left: "sql_left (t\<lparr>spc_of := after_prepare j st\<rparr>) < job_left j + 1"
  by (cases j) (simp_all add: sql_left_def rows_left_def)

lemma after_step_left: "sql_left (t\<lparr>spc_of := after_step j st rows rc\<rparr>) < 2 + rows_left rows"
  by (cases j) (simp_all add: sql_left_def rows_left_def)

lemma sql_stmt_left:
  assumes "sql_phase t \<noteq> Past" and "sql_stmt L A t s = (t', s')"
  shows "sql_left t' < sql_left t"
proof (cases "spc_of t")
  case (Prepare j)
  then show ?thesis using assms(2) after_prepare_left [where t = t and j = j]
    by (auto simp: sql_stmt_def sql_left_def [of t] sql_left_def [of "t\<lparr>spc_of := Unlock e\<rparr>" for e] split: prod.splits option.splits)
next
  case (Step j st rows)
  then show ?thesis using assms(2) after_step_left [where t = t and j = j and st = st and rows = rows]
    by (auto simp: sql_stmt_def sql_left_def [of t] split: prod.splits)
next
  case (Begin_txn j st)
  then show ?thesis using assms(2)
    by (cases j) (auto simp: sql_stmt_def sql_left_def rows_left_def split: prod.splits)
next
  case (Next_row j st rows)
  then show ?thesis using assms(2) by (auto simp: sql_stmt_def sql_left_def rows_left_def split: list.splits prod.splits)
next
  case (Bind j st i vs rows)
  then show ?thesis using assms(2) by (auto simp: sql_stmt_def sql_left_def split: list.splits prod.splits)
qed (use assms in \<open>auto simp: sql_phase_def sql_stmt_def sql_left_def Let_def rows_left_def split: prod.splits option.splits\<close>)

text \<open>A thread that runs alone makes its calls until it has returned.\<close>

function sql_alone :: "'w sqlite3 \<Rightarrow> airy \<Rightarrow> sql_thread \<Rightarrow> 'w \<times> sql_registry \<Rightarrow> sql_thread \<times> 'w \<times> sql_registry" where
  "sql_alone L A t s =
     (if sql_phase t = Past then (t, s) else (case sql_stmt L A t s of (t', s') \<Rightarrow> sql_alone L A t' s'))"
  by pat_completeness auto
termination
proof (relation "measure (\<lambda>(L, A, t, s). sql_left t)")
  fix L :: "'a sqlite3" and A t t' and s s' :: "'a \<times> sql_registry"
  assume "sql_phase t \<noteq> Past" and "(t', s') = sql_stmt L A t s"
  then have "sql_left t' < sql_left t" by (intro sql_stmt_left [of t L A s t' s']) auto
  then show "((L, A, t', s'), L, A, t, s) \<in> measure (\<lambda>(L, A, t, s). sql_left t)" by simp
qed simp

declare sql_alone.simps [simp del]

lemma past_sql_thread: "sql_phase t = Past \<Longrightarrow> sql_stmt L A t s = (t, s) \<and> sql_alone L A t s = (t, s)"
  by (auto simp: sql_alone.simps [of L A t s] sql_phase_def sql_stmt_def split: sql_pc.splits prod.splits)

lemma sql_alone_stmt: "sql_stmt L A t s = (t', s') \<Longrightarrow> sql_alone L A t' s' = sql_alone L A t s"
  using past_sql_thread [of t L A s] sql_alone.simps [of L A t s] by (cases "sql_phase t = Past") auto

section \<open>The mutex serialises\<close>

text \<open>No operation changes the registry state: the connection and s_registry.initialized.\<close>

lemma sql_stmt_registry: "sql_stmt L A t s = (t', s') \<Longrightarrow> snd s' = snd s"
  by (cases "spc_of t") (auto simp: sql_stmt_def Let_def split: prod.splits option.splits list.splits)

lemma sql_alone_registry: "snd (snd (sql_alone L A t s)) = snd s"
proof (induction L A t s rule: sql_alone.induct)
  case (1 L A t s)
  obtain t' s' where st: "sql_stmt L A t s = (t', s')" by (cases "sql_stmt L A t s") auto
  show ?case
  proof (cases "sql_phase t = Past")
    case True
    then show ?thesis using past_sql_thread [of t L A s] by simp
  next
    case False
    have "snd (snd (sql_alone L A t' s')) = snd s'" by (rule "1.IH" [OF False st [symmetric]])
    then show ?thesis using sql_stmt_registry [OF st] sql_alone_stmt [OF st] by simp
  qed
qed

lemma after_prepare_inside: "sql_phase (t\<lparr>spc_of := after_prepare j st\<rparr>) = Inside"
  by (cases j) (simp_all add: sql_phase_def)

lemma after_step_inside: "sql_phase (t\<lparr>spc_of := after_step j st rows rc\<rparr>) = Inside"
  by (cases j) (simp_all add: sql_phase_def)

lemma sql_inside_stmt: "sql_phase t = Inside \<Longrightarrow> sql_stmt L A t s = (t', s') \<Longrightarrow> sql_phase t' \<in> {Inside, Leaving}"
proof (cases "spc_of t")
  case (Prepare j)
  then show "sql_stmt L A t s = (t', s') \<Longrightarrow> sql_phase t' \<in> {Inside, Leaving}" using after_prepare_inside [where t = t and j = j]
    by (auto simp: sql_stmt_def sql_phase_def [of "t\<lparr>spc_of := Unlock e\<rparr>" for e] split: prod.splits option.splits)
next
  case (Step j st rows)
  then show "sql_stmt L A t s = (t', s') \<Longrightarrow> sql_phase t' \<in> {Inside, Leaving}" using after_step_inside [where t = t and j = j and st = st and rows = rows]
    by (auto simp: sql_stmt_def split: prod.splits)
qed (auto simp: sql_phase_def sql_stmt_def Let_def split: prod.splits list.splits if_splits)

interpretation sql_locked: locked_calls "sql_stmt L A" sql_phase "sql_alone L A" snd "\<lambda>_. True"
proof unfold_locales
  fix t t' and s s' :: "'a \<times> sql_registry"
  assume st: "sql_stmt L A t s = (t', s')"
  obtain w g where s: "s = (w, g)" by (cases s)
  show "sql_alone L A t' s' = sql_alone L A t s" by (rule sql_alone_stmt [OF st])
  show "True \<and> snd s' = snd s" using sql_stmt_registry [OF st] by simp
  show "s' = s \<and> sql_phase t' \<in> {Before, Waiting, Past} \<and> (\<forall>s1. snd s1 = snd s \<longrightarrow> sql_stmt L A t s1 = (t', s1))"
    if "sql_phase t = Before"
    using that st by (cases "spc_of t") (auto simp: s sql_phase_def sql_stmt_def split: option.splits)
  show "s' = s \<and> sql_phase t' = Inside" if "sql_phase t = Waiting"
    using that st by (cases "spc_of t") (auto simp: s sql_phase_def sql_stmt_def)
  show "sql_phase t' \<in> {Inside, Leaving}" if "sql_phase t = Inside" by (rule sql_inside_stmt [OF that st])
  show "s' = s \<and> sql_phase t' = Past" if "sql_phase t = Leaving"
    using that st by (cases "spc_of t") (auto simp: s sql_phase_def sql_stmt_def)
qed (simp_all add: sql_alone_registry past_sql_thread)

interpretation sql_progress: locked_progress "sql_stmt L A" sql_phase "sql_alone L A" snd "\<lambda>_. True"
  sql_left "\<lambda>_. True" "\<lambda>_ _. True"
proof unfold_locales
  fix t t' and s s' :: "'a \<times> sql_registry"
  assume st: "sql_stmt L A t s = (t', s')"
  show "sql_left t' < sql_left t" if "sql_phase t \<in> {Before, Waiting}" using sql_stmt_left [OF _ st] that by auto
  show "sql_left t' < sql_left t \<and> True" if "sql_phase t = Inside" using sql_stmt_left [OF _ st] that by simp
  show "sql_left t' < sql_left t \<and> True" if "sql_phase t = Leaving" using sql_stmt_left [OF _ st] that by simp
qed simp

section \<open>An operation alone is the function of HS_Sqlite\<close>

fun sql_apply :: "'w sqlite3 \<Rightarrow> airy \<Rightarrow> sql_op \<Rightarrow> 'w \<times> sql_registry \<Rightarrow> (hs_error \<times> any_record option) \<times> 'w" where
  "sql_apply L A (Write_op c) s = (case sql_call L c s of (e, w') \<Rightarrow> ((e, None), w'))"
| "sql_apply L A (Get_op REC_AGENT k out) s =
     (case sql_get_agent L A k out s of (e, r, w') \<Rightarrow> ((e, map_option AgentRec r), w'))"
| "sql_apply L A (Get_op REC_SKILL k out) s =
     (case sql_get_skill L A k out s of (e, r, w') \<Rightarrow> ((e, map_option SkillRec r), w'))"
| "sql_apply L A (Get_op REC_SESSION k out) s =
     (case sql_get_session L A k out s of (e, r, w') \<Rightarrow> ((e, map_option SessionRec r), w'))"
| "sql_apply L A (Batch_agents rs n) s = (case sql_batch_insert_agents L rs n s of (e, w') \<Rightarrow> ((e, None), w'))"
| "sql_apply L A (Batch_skills rs n) s = (case sql_batch_insert_skills L rs n s of (e, w') \<Rightarrow> ((e, None), w'))"
| "sql_apply L A (Batch_sessions rs n) s = (case sql_batch_insert_sessions L rs n s of (e, w') \<Rightarrow> ((e, None), w'))"

lemma sql_alone_steps:
  "sql_alone L A \<lparr>sop_of = x, spc_of = Check_params, sout_of = out\<rparr> (w, g) =
     sql_alone L A \<lparr>sop_of = x, spc_of = (case job_of x of None \<Rightarrow> Return ERR_INVALID_PARAM | Some j \<Rightarrow> Check_open j), sout_of = out\<rparr> (w, g)"
  "sql_alone L A \<lparr>sop_of = x, spc_of = Check_open j, sout_of = out\<rparr> (w, g) =
     sql_alone L A \<lparr>sop_of = x, spc_of = if \<not> sql_initialized g \<or> reg_db g = None then Return ERR_NOT_INITIALIZED else Lock j,
       sout_of = out\<rparr> (w, g)"
  "sql_alone L A \<lparr>sop_of = x, spc_of = Lock j, sout_of = out\<rparr> (w, g) =
     sql_alone L A \<lparr>sop_of = x, spc_of = Prepare j, sout_of = out\<rparr> (w, g)"
  "sql_alone L A \<lparr>sop_of = x, spc_of = Prepare j, sout_of = out\<rparr> (w, g) =
     (case sqlite3_prepare L (the (reg_db g)) (job_sql j) w of
        (None, w') \<Rightarrow> sql_alone L A \<lparr>sop_of = x, spc_of = Unlock ERR_DB_QUERY_FAILED, sout_of = out\<rparr> (w', g)
      | (Some st, w') \<Rightarrow> sql_alone L A \<lparr>sop_of = x, spc_of = after_prepare j st, sout_of = out\<rparr> (w', g))"
  "sql_alone L A \<lparr>sop_of = x, spc_of = Begin_txn j st, sout_of = out\<rparr> (w, g) =
     (case sqlite3_exec L (the (reg_db g)) ''BEGIN TRANSACTION;'' w of
        (ok, w') \<Rightarrow> sql_alone L A \<lparr>sop_of = x, spc_of = if ok then Next_row j st (case j of Job_batch sql rows \<Rightarrow> rows | _ \<Rightarrow> [])
                            else Finalize st ERR_DB_QUERY_FAILED, sout_of = out\<rparr> (w', g))"
  "sql_alone L A \<lparr>sop_of = x, spc_of = Step j st rows, sout_of = out\<rparr> (w, g) =
     (case sqlite3_step L st w of (rc, w') \<Rightarrow> sql_alone L A \<lparr>sop_of = x, spc_of = after_step j st rows rc, sout_of = out\<rparr> (w', g))"
  "sql_alone L A \<lparr>sop_of = x, spc_of = Extract j st, sout_of = out\<rparr> (w, g) =
     sql_alone L A \<lparr>sop_of = x, spc_of = Finalize st SUCCESS, sout_of = extracted L A j st w\<rparr> (w, g)"
  "sql_alone L A \<lparr>sop_of = x, spc_of = Reset j st rows, sout_of = out\<rparr> (w, g) =
     sql_alone L A \<lparr>sop_of = x, spc_of = Next_row j st rows, sout_of = out\<rparr> (sqlite3_reset L st w, g)"
  "sql_alone L A \<lparr>sop_of = x, spc_of = Rollback st, sout_of = out\<rparr> (w, g) =
     sql_alone L A \<lparr>sop_of = x, spc_of = Finalize st ERR_DB_QUERY_FAILED, sout_of = out\<rparr>
       (snd (sqlite3_exec L (the (reg_db g)) ''ROLLBACK;'' w), g)"
  "sql_alone L A \<lparr>sop_of = x, spc_of = Commit st, sout_of = out\<rparr> (w, g) =
     (case sqlite3_exec L (the (reg_db g)) ''COMMIT;'' w of
        (ok, w') \<Rightarrow> sql_alone L A \<lparr>sop_of = x, spc_of = Finalize st (if ok then SUCCESS else ERR_DB_QUERY_FAILED), sout_of = out\<rparr> (w', g))"
  "sql_alone L A \<lparr>sop_of = x, spc_of = Finalize st e, sout_of = out\<rparr> (w, g) =
     (\<lparr>sop_of = x, spc_of = Return e, sout_of = out\<rparr>, sqlite3_finalize L st w, g)"
  "sql_alone L A \<lparr>sop_of = x, spc_of = Unlock e, sout_of = out\<rparr> (w, g) = (\<lparr>sop_of = x, spc_of = Return e, sout_of = out\<rparr>, w, g)"
  "sql_alone L A \<lparr>sop_of = x, spc_of = Return e, sout_of = out\<rparr> (w, g) = (\<lparr>sop_of = x, spc_of = Return e, sout_of = out\<rparr>, w, g)"
  by (subst sql_alone.simps, simp add: sql_phase_def sql_stmt_def past_sql_thread sql_alone.simps [of L A "\<lparr>sop_of = x, spc_of = Unlock e, sout_of = out\<rparr>"]
      split: prod.splits option.splits)+

lemma alone_bind:
  "sql_alone L A \<lparr>sop_of = x, spc_of = Bind j st i vs rows, sout_of = out\<rparr> (w, g) =
     sql_alone L A \<lparr>sop_of = x, spc_of = Step j st rows, sout_of = out\<rparr> (bind_from L st i vs w, g)"
  by (induction vs arbitrary: i w) (subst sql_alone.simps, simp add: sql_phase_def sql_stmt_def)+

text \<open>The loop of a batch.\<close>

lemma alone_next_row:
  "sql_alone L A \<lparr>sop_of = x, spc_of = Next_row j st rows, sout_of = out\<rparr> (w, g) =
     sql_alone L A \<lparr>sop_of = x, spc_of = (case rows of [] \<Rightarrow> Commit st | vals # rest \<Rightarrow> Bind j st 1 vals rest), sout_of = out\<rparr> (w, g)"
  by (subst sql_alone.simps) (simp add: sql_phase_def sql_stmt_def split: list.splits)

lemma alone_rows:
  assumes "j = Job_batch sql all"
  shows "sql_alone L A \<lparr>sop_of = x, spc_of = Next_row j st rows, sout_of = out\<rparr> (w, g) =
     (case batch_exec_loop L (the (reg_db g)) st rows w of
        (e, w') \<Rightarrow> sql_alone L A \<lparr>sop_of = x, spc_of = if e = SUCCESS then Commit st else Finalize st e, sout_of = out\<rparr> (w', g))"
proof (induction rows arbitrary: w)
  case Nil
  then show ?case by (simp add: alone_next_row)
next
  case (Cons vals rows)
  obtain rc w1 where "sqlite3_step L st (bind_from L st 1 vals w) = (rc, w1)" by fastforce
  then show ?case by (simp add: alone_next_row [where rows = "vals # rows"] alone_bind sql_alone_steps Cons.IH [unfolded assms] assms)
qed

text \<open>The three helpers.\<close>

lemma alone_exec:
  "sql_alone L A \<lparr>sop_of = x, spc_of = Check_open (Job_exec sql vals), sout_of = out\<rparr> (w, g) =
     (case sql_exec_locked L sql vals (w, g) of (e, w') \<Rightarrow> (\<lparr>sop_of = x, spc_of = Return e, sout_of = out\<rparr>, w', g))"
  by (simp add: sql_alone_steps alone_bind sql_exec_locked_def session_begin_def split: prod.splits option.splits)

lemma alone_one:
  "sql_alone L A \<lparr>sop_of = x, spc_of = Check_open (Job_one sql vals ty), sout_of = None\<rparr> (w, g) =
     (case registry_query_one L sql vals (read_current L A ty) (w, g) of
        (e, r, w') \<Rightarrow> (\<lparr>sop_of = x, spc_of = Return e, sout_of = r\<rparr>, w', g))"
  by (simp add: sql_alone_steps alone_bind registry_query_one_def session_begin_def split: prod.splits option.splits)

lemma alone_batch:
  "sql_alone L A \<lparr>sop_of = x, spc_of = Check_open (Job_batch sql rows), sout_of = out\<rparr> (w, g) =
     (case batch_exec_locked L sql rows (w, g) of (e, w') \<Rightarrow> (\<lparr>sop_of = x, spc_of = Return e, sout_of = out\<rparr>, w', g))"
  by (simp add: sql_alone_steps alone_rows [OF refl] batch_exec_locked_def session_begin_def Let_def split: prod.splits option.splits bool.splits)

lemma query_one_map:
  "registry_query_one L sql vals (\<lambda>st w. C (f st w)) s =
     (case registry_query_one L sql vals f s of (e, r, w') \<Rightarrow> (e, map_option C r, w'))"
  by (cases s) (auto simp: registry_query_one_def split: prod.splits sum.splits)

lemma read_current_types:
  "read_current L A REC_AGENT = (\<lambda>st w. AgentRec (extract_agent_row L A st w))"
  "read_current L A REC_SKILL = (\<lambda>st w. SkillRec (extract_skill_row L A st w))"
  "read_current L A REC_SESSION = (\<lambda>st w. SessionRec (extract_session_row L A st w))"
  by (simp_all add: read_current_def fun_eq_iff)

lemmas sql_op_defs = sql_add_agent_def sql_update_agent_def sql_delete_agent_def sql_add_skill_def sql_delete_skill_def
  sql_add_session_def sql_update_session_def sql_delete_session_def sql_get_agent_def sql_get_skill_def sql_get_session_def
  sql_batch_insert_agents_def sql_batch_insert_skills_def sql_batch_insert_sessions_def

lemmas job_defs = add_job_def delete_job_def batch_job_def

lemma alone_write:
  "sql_alone L A (sql_thread_start (Write_op c)) (w, g) =
     (case sql_call L c (w, g) of (e, w') \<Rightarrow> (\<lparr>sop_of = Write_op c, spc_of = Return e, sout_of = None\<rparr>, w', g))"
  by (cases "(L, c, (w, g))" rule: sql_call.cases)
    (auto simp: sql_thread_start_def sql_alone_steps(1,13) alone_exec job_defs sql_op_defs split: option.splits prod.splits)

lemma alone_get:
  "sql_alone L A (sql_thread_start (Get_op ty k out)) (w, g) =
     (case sql_apply L A (Get_op ty k out) (w, g) of
        ((e, r), w') \<Rightarrow> (\<lparr>sop_of = Get_op ty k out, spc_of = Return e, sout_of = r\<rparr>, w', g))"
  by (cases ty) (auto simp: sql_thread_start_def sql_alone_steps(1,13) alone_one sql_op_defs read_current_types query_one_map
      split: option.splits prod.splits)

lemma sql_alone_apply:
  "sql_alone L A (sql_thread_start x) (w, g) =
     (case sql_apply L A x (w, g) of ((e, out), w') \<Rightarrow> (\<lparr>sop_of = x, spc_of = Return e, sout_of = out\<rparr>, w', g))"
proof (cases x)
  case (Write_op c)
  then show ?thesis by (simp add: alone_write split: prod.splits)
next
  case (Get_op ty k out)
  then show ?thesis by (simp add: alone_get)
qed (auto simp: sql_thread_start_def sql_alone_steps(1,13) alone_batch job_defs sql_op_defs split: option.splits prod.splits)

section \<open>Several threads\<close>

definition sql_result :: "sql_thread \<Rightarrow> (hs_error \<times> any_record option) option" where
  "sql_result t = (case spc_of t of Return e \<Rightarrow> Some (e, sout_of t) | _ \<Rightarrow> None)"

lemma sql_result_past: "sql_phase t = Past \<longleftrightarrow> sql_result t \<noteq> None"
  by (cases "spc_of t") (simp_all add: sql_phase_def sql_result_def)

fun sql_applies ::
  "'w sqlite3 \<Rightarrow> airy \<Rightarrow> sql_op list \<Rightarrow> 'w \<times> sql_registry \<Rightarrow> (hs_error \<times> any_record option) list \<times> 'w" where
  "sql_applies L A [] (w, g) = ([], w)"
| "sql_applies L A (x # xs) (w, g) =
     (case sql_apply L A x (w, g) of (r, w1) \<Rightarrow> case sql_applies L A xs (w1, g) of (rs, w') \<Rightarrow> (r # rs, w'))"

lemma serial_sql:
  assumes "serial (sql_alone L A) order ts (w, g) = (fs, s')" and "distinct order"
    and "set order \<subseteq> {..<length ts}" and "\<forall>i\<in>set order. ts ! i = sql_thread_start (xs ! i)"
  shows "\<exists>rs w'. s' = (w', g) \<and> sql_applies L A (map (\<lambda>i. xs ! i) order) (w, g) = (rs, w')
    \<and> map (\<lambda>i. sql_result (fs ! i)) order = map Some rs"
  using assms
proof (induction order arbitrary: ts w)
  case Nil
  then show ?case by auto
next
  case (Cons i order)
  have i: "ts ! i = sql_thread_start (xs ! i)" "i < length ts" "i \<notin> set order" using Cons.prems by auto
  obtain e out w1 where one: "sql_apply L A (xs ! i) (w, g) = ((e, out), w1)" by (metis prod.exhaust)
  let ?ts = "ts[i := \<lparr>sop_of = xs ! i, spc_of = Return e, sout_of = out\<rparr>]"
  have rest: "serial (sql_alone L A) order ?ts (w1, g) = (fs, s')" using Cons.prems(1) i by (simp add: sql_alone_apply one)
  have "\<forall>j\<in>set order. ?ts ! j = sql_thread_start (xs ! j)" using Cons.prems(4) i by (auto simp: nth_list_update)
  then obtain rs w' where rs: "s' = (w', g)" "sql_applies L A (map (\<lambda>i. xs ! i) order) (w1, g) = (rs, w')"
      "map (\<lambda>i. sql_result (fs ! i)) order = map Some rs"
    using Cons.IH [OF rest] Cons.prems(2,3) by auto
  have "fs ! i = ?ts ! i" using serial_other [OF i(3), of "sql_alone L A" ?ts "(w1, g)"] rest by simp
  then show ?case using rs one i by (simp add: sql_result_def)
qed

text \<open>All operations of several threads, in some order that respects time.\<close>

lemma sql_threads_serialise:
  assumes "sql_threads L A sched1 (sql_threads_start (w0, g) xs) = (ow1, s1, ts1)"
    and "sql_threads L A sched2 (ow1, s1, ts1) = (ow, s, ts)" and "\<forall>t\<in>set ts. sql_result t \<noteq> None"
  shows "\<exists>first later rs w. distinct (first @ later) \<and> set (first @ later) = {..<length xs}
    \<and> (\<forall>i<length xs. sql_result (ts1 ! i) \<noteq> None \<longrightarrow> i \<in> set first)
    \<and> (\<forall>i<length xs. ts1 ! i = sql_thread_start (xs ! i) \<longrightarrow> i \<in> set later)
    \<and> s = (w, g) \<and> sql_applies L A (map (\<lambda>i. xs ! i) (first @ later)) (w0, g) = (rs, w)
    \<and> map (\<lambda>i. sql_result (ts ! i)) (first @ later) = map Some rs"
proof -
  have start: "sql_phase (sql_thread_start x) = Before" for x by (simp add: sql_thread_start_def sql_phase_def)
  then have calm: "\<forall>t\<in>set (map sql_thread_start xs). True \<and> sql_phase t \<in> {Before, Waiting}" by auto
  obtain first later where order: "distinct (first @ later)" "set (first @ later) = {..<length xs}"
      "\<forall>i<length xs. sql_phase (ts1 ! i) = Past \<longrightarrow> i \<in> set first"
      "\<forall>i<length xs. sql_phase (ts1 ! i) \<in> {Before, Waiting} \<longrightarrow> i \<in> set later"
      "serial (sql_alone L A) (first @ later) (map sql_thread_start xs) (w0, g) = (ts, s)"
    using sql_locked.run_is_serial [OF calm, of L A sched1 "(w0, g)" ow1 s1 ts1 sched2 ow s ts] assms
    by (auto simp: sql_threads_def sql_threads_start_def sql_result_past)
  have "\<exists>rs w'. s = (w', g) \<and> sql_applies L A (map (\<lambda>i. xs ! i) (first @ later)) (w0, g) = (rs, w')
      \<and> map (\<lambda>i. sql_result (ts ! i)) (first @ later) = map Some rs"
    using order(2) by (intro serial_sql [OF order(5,1)]) (auto simp del: set_append)
  moreover have "\<forall>i<length xs. sql_result (ts1 ! i) \<noteq> None \<longrightarrow> i \<in> set first"
    using order(3) by (simp add: sql_result_past)
  moreover have "\<forall>i<length xs. ts1 ! i = sql_thread_start (xs ! i) \<longrightarrow> i \<in> set later"
    using order(4) start by simp
  ultimately show ?thesis using order(1,2) by blast
qed

end
