(* ===== verification/HS_Sqlite_Shared.thy ===== *)
theory HS_Sqlite_Shared
  imports HS_Sqlite_Threads
begin

text \<open>
  Several threads share the SQLite backend, and what they can rely on: additions, updates, deletions,
  lookups and batch insertions of all threads together act on three lists of records, one after the
  other. The specification of the single operation is \<open>sql_spec\<close>; the operations run call by call
  (HS_Sqlite_Threads) implement it. The end is a database engine that meets all hypotheses, and a run
  of two threads over it.
\<close>

section \<open>The specification\<close>

text \<open>
  A batch is stored as a whole or not at all. \<open>usable\<close> says that the registry is open, \<open>ok\<close> that
  SQLite did not fail by itself. Unlike an addition, a batch may bring an empty id.
\<close>

definition batch_abs ::
  "('r \<Rightarrow> string) \<Rightarrow> bool \<Rightarrow> bool \<Rightarrow> 'r list option \<Rightarrow> nat \<Rightarrow> 'r list \<Rightarrow> hs_error \<times> 'r list" where
  "batch_abs key usable ok records n rs =
     (case records of
        None \<Rightarrow> (ERR_INVALID_PARAM, rs)
      | Some xs \<Rightarrow>
          if n = 0 then (ERR_INVALID_PARAM, rs)
          else if \<not> usable then (ERR_NOT_INITIALIZED, rs)
          else if \<not> ok \<or> \<not> distinct (map key (rs @ take n xs)) then (ERR_DB_QUERY_FAILED, rs)
          else (SUCCESS, rs @ take n xs))"

fun lists_get :: "rec_type \<Rightarrow> record_lists \<Rightarrow> string \<Rightarrow> any_record option" where
  "lists_get REC_AGENT (as, ks, ss) k = map_option AgentRec (table_map agent_id as k)"
| "lists_get REC_SKILL (as, ks, ss) k = map_option SkillRec (table_map skill_id ks k)"
| "lists_get REC_SESSION (as, ks, ss) k = map_option SessionRec (table_map session_id ss k)"

fun sql_spec :: "bool \<Rightarrow> bool \<Rightarrow> sql_op \<Rightarrow> record_lists \<Rightarrow> (hs_error \<times> any_record option) \<times> record_lists" where
  "sql_spec usable ok (Write_op c) l = (case lists_call usable ok c l of (e, l') \<Rightarrow> ((e, None), l'))"
| "sql_spec usable ok (Get_op ty k out) l =
     (case k of
        None \<Rightarrow> ((ERR_INVALID_PARAM, None), l)
      | Some i \<Rightarrow> if \<not> out then ((ERR_INVALID_PARAM, None), l)
                  else if \<not> usable then ((ERR_NOT_INITIALIZED, None), l)
                  else if \<not> ok then ((ERR_DB_QUERY_FAILED, None), l)
                  else (found (lists_get ty l i), l))"
| "sql_spec usable ok (Batch_agents rs n) (as, ks, ss) =
     (case batch_abs agent_id usable ok rs n as of (e, as') \<Rightarrow> ((e, None), (as', ks, ss)))"
| "sql_spec usable ok (Batch_skills rs n) (as, ks, ss) =
     (case batch_abs skill_id usable ok rs n ks of (e, ks') \<Rightarrow> ((e, None), (as, ks', ss)))"
| "sql_spec usable ok (Batch_sessions rs n) (as, ks, ss) =
     (case batch_abs session_id usable ok rs n ss of (e, ss') \<Rightarrow> ((e, None), (as, ks, ss')))"

fun sql_specs :: "bool \<Rightarrow> (sql_op \<times> bool) list \<Rightarrow> record_lists \<Rightarrow> (hs_error \<times> any_record option) list \<times> record_lists" where
  "sql_specs usable [] l = ([], l)"
| "sql_specs usable ((x, ok) # xs) l =
     (case sql_spec usable ok x l of (r, l1) \<Rightarrow> case sql_specs usable xs l1 of (rs, l') \<Rightarrow> (r # rs, l'))"

text \<open>Records that a C program can pass: each string fits its array.\<close>

fun call_fits :: "('r \<Rightarrow> bool) \<Rightarrow> 'r reg_call \<Rightarrow> bool" where
  "call_fits fits (RAdd r) = pred_option fits r"
| "call_fits fits (RUpdate r) = pred_option fits r"
| "call_fits fits (RDelete k) = True"

fun op_fits :: "sql_op \<Rightarrow> bool" where
  "op_fits (Write_op (Agent_op c)) = call_fits agent_fits c"
| "op_fits (Write_op (Add_skill r)) = pred_option skill_fits r"
| "op_fits (Write_op (Delete_skill k)) = True"
| "op_fits (Write_op (Session_op c)) = call_fits session_fits c"
| "op_fits (Get_op ty k out) = True"
| "op_fits (Batch_agents rs n) = pred_option (list_all agent_fits) rs"
| "op_fits (Batch_skills rs n) = pred_option (list_all skill_fits) rs"
| "op_fits (Batch_sessions rs n) = pred_option (list_all session_fits) rs"

fun is_batch :: "sql_op \<Rightarrow> bool" where
  "is_batch (Batch_agents rs n) = True"
| "is_batch (Batch_skills rs n) = True"
| "is_batch (Batch_sessions rs n) = True"
| "is_batch _ = False"

text \<open>No other process keeps the database busy: a COMMIT that fails has rolled the transaction back.\<close>

definition sqlite_commits :: "'w sqlite3 \<Rightarrow> ('w \<Rightarrow> sql_tables option) \<Rightarrow> bool" where
  "sqlite_commits L saved \<longleftrightarrow> (\<forall>db w. saved (snd (sqlite3_exec L db ''COMMIT;'' w)) = None)"

section \<open>One operation\<close>

subsection \<open>Batches\<close>

lemma batch_loop_code: "batch_exec_loop L db st recs w = (r, w') \<Longrightarrow> r = SUCCESS \<or> r = ERR_DB_QUERY_FAILED"
  by (induction recs arbitrary: w) (auto split: prod.splits if_splits)

lemma batch_code:
  assumes "batch_exec_locked L sql recs (w, g) = (r, w')"
  shows "r = SUCCESS \<and> sql_usable g \<or> r = sql_failure g"
proof -
  obtain res w1 where b: "session_begin L sql (w, g) = (res, w1)" by fastforce
  show ?thesis
  proof (cases res)
    case (Inl e)
    then show ?thesis using assms b session_begin_outcome(2) [OF b Inl] by (simp add: batch_exec_locked_def)
  next
    case (Inr st)
    have "sql_usable g" by (rule session_begin_outcome(1) [OF b Inr])
    then show ?thesis using assms b Inr
      by (auto simp: batch_exec_locked_def Let_def sql_failure_def dest!: batch_loop_code split: prod.splits bool.splits if_splits)
  qed
qed

text \<open>
  A commit that is not kept open leaves no transaction behind: either the batch is committed or
  nothing of it is.
\<close>

text \<open>Only a COMMIT can leave the transaction open.\<close>

lemma batch_left_open:
  assumes stm: "sqlite_statements L tabs saved stext sargs effect" and txn: "sqlite_txn L tabs saved stext sargs"
    and auto: "saved w = None" and run: "batch_exec_locked L sql recs (w, g) = (r, w')" and "sql \<in> insert_texts"
    and "\<forall>x\<in>set recs. length x = n" and left: "saved w' \<noteq> None"
  shows "\<exists>w3. saved w' = saved (snd (sqlite3_exec L (the (reg_db g)) ''COMMIT;'' w3))"
proof -
  obtain res w1 where b: "session_begin L sql (w, g) = (res, w1)" by fastforce
  note sb = session_begin_laws [OF stm b]
  show ?thesis
  proof (cases res)
    case (Inl e)
    then have "saved w' = None" using run b sb(2) auto by (simp add: batch_exec_locked_def)
    then show ?thesis using left by simp
  next
    case (Inr st)
    obtain ok w2 where e1: "sqlite3_exec L (the (reg_db g)) ''BEGIN TRANSACTION;'' w1 = (ok, w2)" by fastforce
    obtain r3 w3 where lp: "batch_exec_loop L (the (reg_db g)) st recs w2 = (r3, w3)" by fastforce
    obtain ok4 w4 where c: "sqlite3_exec L (the (reg_db g)) ''COMMIT;'' w3 = (ok4, w4)" by fastforce
    have w': "w' = sqlite3_finalize L st (if \<not> ok then w2 else if r3 = SUCCESS then w4 else w3)"
      using run b Inr e1 lp c by (auto simp: batch_exec_locked_def split: if_splits)
    have "ok" using left auto sb(2) begin_laws(5) [OF txn e1] by (cases ok) (auto simp: w' finalize_laws [OF stm])
    then have stw: "stext st w2 = sql" "saved w2 = Some (tabs w)" "bound_alike n (sargs st w2)"
      using begin_laws [OF txn e1] sb(1,2) sb(4) [OF Inr] by (auto simp: bound_alike_def)
    have "r3 = SUCCESS" using batch_loop_outcome [OF stm txn assms(5) lp stw(2,1) assms(6) stw(3)] left \<open>ok\<close>
      by (auto simp: w' finalize_laws [OF stm])
    then have "w' = sqlite3_finalize L st w4" using \<open>ok\<close> by (simp add: w')
    then show ?thesis by (intro exI [of _ w3]) (simp add: finalize_laws [OF stm] c)
  qed
qed

lemma batch_closed:
  assumes "sqlite_commits L saved" and "sqlite_statements L tabs saved stext sargs effect" and "sqlite_txn L tabs saved stext sargs"
    and "saved w = None" and "batch_exec_locked L sql recs (w, g) = (r, w')" and "sql \<in> insert_texts" and "\<forall>x\<in>set recs. length x = n"
  shows "saved w' = None" and "r \<noteq> SUCCESS \<Longrightarrow> tabs w' = tabs w"
    and "r = SUCCESS \<Longrightarrow> insert_rows (effect sql) recs (tabs w) = Some (tabs w')"
proof -
  note out = batch_exec_outcome [OF assms(2,3,6,7,4,5)]
  show closed: "saved w' = None"
    using batch_left_open [OF assms(2-7)] assms(1) unfolding sqlite_commits_def by metis
  show "r \<noteq> SUCCESS \<Longrightarrow> tabs w' = tabs w" and "r = SUCCESS \<Longrightarrow> insert_rows (effect sql) recs (tabs w) = Some (tabs w')"
    using out closed by auto
qed

context sql_domain
begin

lemma insert_records:
  assumes "table_after ''INSERT INTO '' sql = tb" and "\<And>r. bound_row (insert_columns sql) (row_args (bind r)) = row r"
  shows "holds_records tb key row rs t \<Longrightarrow> insert_rows (sql_insert sql) (map bind xs) t = Some t' \<Longrightarrow>
    holds_records tb key row (rs @ xs) t' \<and> (\<forall>x. x \<noteq> tb \<longrightarrow> t' x = t x)"
proof (induction xs arbitrary: rs t)
  case Nil
  then show ?case by simp
next
  case (Cons r xs)
  note ins = records_insert [OF Cons.prems(1) assms(1) assms(2), of r]
  have new: "key r \<notin> key ` set rs" using Cons.prems(2) ins(1) by (auto split: if_splits)
  let ?t = "t(tb := t tb @ [row r])"
  have "insert_rows (sql_insert sql) (map bind xs) ?t = Some t'" using Cons.prems(2) ins(1) new by simp
  from Cons.IH [OF ins(2) [OF new] this] show ?case by simp
qed

text \<open>A batch on a table of records, with the checks of its arguments.\<close>

lemma batch_does:
  assumes commits: "sqlite_commits L saved" and crud: "sqlite_crud L tabs saved stext sargs" and txn: "sqlite_txn L tabs saved stext sargs"
    and holds: "holds_records tb key row rs (tabs w)" and auto: "saved w = None"
    and sql: "sql \<in> insert_texts" "table_after ''INSERT INTO '' sql = tb"
      "\<And>r. bound_row (insert_columns sql) (row_args (bind r)) = row r" "\<And>r. length (bind r) = m"
  shows "\<exists>ok. sql_does tabs saved tb key row w
      (case records of
         None \<Rightarrow> (ERR_INVALID_PARAM, w)
       | Some xs \<Rightarrow> if n = 0 then (ERR_INVALID_PARAM, w) else batch_exec_locked L sql (map bind (take n xs)) (w, g))
      (batch_abs key (sql_usable g) ok records n rs)"
proof (cases "records = None \<or> n = 0")
  case True
  then show ?thesis using holds auto by (auto simp: sql_does_def batch_abs_def split: option.splits)
next
  case False
  then obtain xs where xs: "records = Some xs" "n \<noteq> 0" by auto
  obtain e w' where run: "batch_exec_locked L sql (map bind (take n xs)) (w, g) = (e, w')" by fastforce
  have len: "\<forall>x\<in>set (map bind (take n xs)). length x = m" using sql(4) by auto
  note out = batch_closed [OF commits crud_statements [OF crud] txn auto run sql(1) len] and code = batch_code [OF run]
  show ?thesis
  proof (cases "e = SUCCESS")
    case True
    note stored = insert_records [OF sql(2,3) holds out(3) [OF True]]
    then have "distinct (map key (rs @ take n xs))" by (simp add: holds_records_def)
    moreover have "sql_usable g" using code True by (auto simp: sql_failure_def split: if_splits)
    ultimately show ?thesis using run True stored out(1) xs by (intro exI [of _ True]) (auto simp: sql_does_def batch_abs_def)
  next
    case False
    then have "e = sql_failure g" using code by auto
    then show ?thesis using run False out(1,2) holds xs by (intro exI [of _ False]) (simp add: sql_does_def batch_abs_def sql_failure_def)
  qed
qed

end

lemma batch_rows_bound:
  "bound_row (insert_columns skill_batch_sql) (row_args (bind_skill_row k)) = skill_row k"
  "bound_row (insert_columns session_batch_sql) (row_args (bind_session_row r)) = session_row r"
  by (simp_all add: skill_row_def session_row_def bound_row_args skill_columns session_columns bind_skill_row_def bind_session_row_def)

lemma bind_lengths:
  "length (bind_agent_record a) = 10" "length (bind_skill_row k) = 6" "length (bind_session_row r) = 7"
  by (simp_all add: bind_agent_record_def bind_skill_row_def bind_session_row_def)

lemma batch_apply_spec:
  assumes commits: "sqlite_commits L saved" and crud: "sqlite_crud L tabs saved stext sargs" and txn: "sqlite_txn L tabs saved stext sargs"
    and holds: "holds_lists tabs saved l w" and x: "is_batch x"
  shows "\<exists>ok w'. sql_apply L A x (w, g) = (fst (sql_spec (sql_usable g) ok x l), w')
    \<and> holds_lists tabs saved (snd (sql_spec (sql_usable g) ok x l)) w'"
proof -
  obtain as ks ss where l: "l = (as, ks, ss)" by (cases l)
  have rec: "holds_records ''agents'' agent_id agent_row as (tabs w)" "holds_records ''skills'' skill_id skill_row ks (tabs w)"
      "holds_records ''sessions'' session_id session_row ss (tabs w)" and auto: "saved w = None"
    using holds by (simp_all add: l holds_lists_def)
  note does = sql_does_lists [OF holds [unfolded l]]
  note agents = agent_rows.batch_does [OF commits crud txn rec(1) auto write_texts(1) insert_tables(1) insert_rows_bound(1) bind_lengths(1)]
  note skills = skill_rows.batch_does [OF commits crud txn rec(2) auto write_texts(4) insert_tables(3) batch_rows_bound(1) bind_lengths(2)]
  note sessions = session_rows.batch_does [OF commits crud txn rec(3) auto write_texts(5) insert_tables(5) batch_rows_bound(2) bind_lengths(3)]
  show ?thesis
  proof (cases x)
    case (Batch_agents rs n)
    obtain e w' where run: "sql_batch_insert_agents L rs n (w, g) = (e, w')" by fastforce
    obtain ok where "sql_does tabs saved ''agents'' agent_id agent_row w (e, w') (batch_abs agent_id (sql_usable g) ok rs n as)"
      using agents [where records = rs and n = n and g = g] run unfolding sql_batch_insert_agents_def fst_conv by metis
    then show ?thesis using does(1) [of e w'] run by (intro exI [of _ ok]) (auto simp: Batch_agents l split: prod.splits)
  next
    case (Batch_skills rs n)
    obtain e w' where run: "sql_batch_insert_skills L rs n (w, g) = (e, w')" by fastforce
    obtain ok where "sql_does tabs saved ''skills'' skill_id skill_row w (e, w') (batch_abs skill_id (sql_usable g) ok rs n ks)"
      using skills [where records = rs and n = n and g = g] run unfolding sql_batch_insert_skills_def fst_conv by metis
    then show ?thesis using does(2) [of e w'] run by (intro exI [of _ ok]) (auto simp: Batch_skills l split: prod.splits)
  next
    case (Batch_sessions rs n)
    obtain e w' where run: "sql_batch_insert_sessions L rs n (w, g) = (e, w')" by fastforce
    obtain ok where "sql_does tabs saved ''sessions'' session_id session_row w (e, w') (batch_abs session_id (sql_usable g) ok rs n ss)"
      using sessions [where records = rs and n = n and g = g] run unfolding sql_batch_insert_sessions_def fst_conv by metis
    then show ?thesis using does(3) [of e w'] run by (intro exI [of _ ok]) (auto simp: Batch_sessions l split: prod.splits)
  qed (use x in simp_all)
qed

subsection \<open>Lookups\<close>

lemma table_map_in: "table_map key rs k = Some r \<Longrightarrow> r \<in> set rs"
  by (induction rs) (auto split: if_splits)

lemma query_one_code:
  assumes "registry_query_one L sql vals f (w, g) = (e, r, w')"
  shows "(e = SUCCESS \<or> e = ERR_NOT_FOUND) \<and> sql_usable g \<or> e = sql_failure g"
proof -
  obtain res w1 where b: "session_begin L sql (w, g) = (res, w1)" by fastforce
  show ?thesis
  proof (cases res)
    case (Inl d)
    then show ?thesis using assms b session_begin_outcome(2) [OF b Inl] by (simp add: registry_query_one_def)
  next
    case (Inr st)
    then show ?thesis using assms b session_begin_outcome(1) [OF b Inr]
      by (auto simp: registry_query_one_def sql_failure_def split: prod.splits if_splits)
  qed
qed

context sql_domain
begin

lemma query_one_found:
  assumes crud: "sqlite_crud L tabs saved stext sargs" and holds: "holds_records tb key row rs (tabs w)"
    and sql: "sql \<in> select_texts" "table_after '' FROM '' sql = tb"
    and reads: "\<And>st w2 r. r \<in> set rs \<Longrightarrow> on_row L st w2 (select_columns sql) (row r) \<Longrightarrow> extract st w2 = r"
    and run: "registry_query_one L sql (registry_bind_id k) extract (w, g) = (e, r, w')"
  shows "tabs w' = tabs w \<and> saved w' = saved w
    \<and> (\<exists>ok. (e, r) = (if \<not> sql_usable g then (ERR_NOT_INITIALIZED, None) else if \<not> ok then (ERR_DB_QUERY_FAILED, None)
                       else found (table_map key rs k))
          \<and> (sqlite_grants L tabs saved stext sargs \<longrightarrow> ok))"
proof -
  note out = query_one_outcome [OF crud sql(1) run] and code = query_one_code [OF run]
  have sel: "sql_select sql (row_args (registry_bind_id k)) (tabs w) = map_option row (table_map key rs k)"
    using select_record [OF holds sql(2), of k] by (simp add: registry_bind_id_def lookup_records [OF holds])
  have same: "extract st w2 = x" if "table_map key rs k = Some x" "on_row L st w2 (select_columns sql) (row x)" for st w2 x
    using reads [OF table_map_in [OF that(1)] that(2)] .
  consider "e = SUCCESS" "sql_usable g" | "e = ERR_NOT_FOUND" "sql_usable g" | "e = sql_failure g" using code by blast
  then have "\<exists>ok. (e, r) = (if \<not> sql_usable g then (ERR_NOT_INITIALIZED, None) else if \<not> ok then (ERR_DB_QUERY_FAILED, None)
                       else found (table_map key rs k))
          \<and> (sqlite_grants L tabs saved stext sargs \<longrightarrow> ok)"
  proof cases
    case 1
    then obtain x where "table_map key rs k = Some x" "r = Some x" using out(3) sel same by auto
    then show ?thesis using 1 by (intro exI [of _ True]) (simp add: found_def)
  next
    case 2
    then show ?thesis using out(4,5) sel by (intro exI [of _ True]) (simp add: found_def)
  next
    case 3
    then have "r = None" "sqlite_grants L tabs saved stext sargs \<longrightarrow> \<not> sql_usable g"
      using out(5,6) by (auto simp: sql_failure_def split: if_splits)
    then show ?thesis using 3 by (intro exI [of _ "\<not> sql_usable g"]) (auto simp: sql_failure_def)
  qed
  then show ?thesis using out(1,2) by blast
qed

end

lemma get_apply_spec:
  assumes crud: "sqlite_crud L tabs saved stext sargs" and A: "strncpy_ok A"
    and holds: "holds_lists tabs saved l w" and fit: "lists_fit l"
  shows "\<exists>ok w'. sql_apply L A (Get_op ty k out) (w, g) = (fst (sql_spec (sql_usable g) ok (Get_op ty k out) l), w')
    \<and> tabs w' = tabs w \<and> saved w' = saved w \<and> (sqlite_grants L tabs saved stext sargs \<longrightarrow> ok)"
proof (cases "k = None \<or> \<not> out")
  case True
  then show ?thesis by (cases ty) (auto simp: sql_get_agent_def sql_get_skill_def sql_get_session_def split: option.splits)
next
  case False
  then obtain i where k: "k = Some i" "out" by auto
  obtain as ks ss where l: "l = (as, ks, ss)" by (cases l)
  have rec: "holds_records ''agents'' agent_id agent_row as (tabs w)" "holds_records ''skills'' skill_id skill_row ks (tabs w)"
      "holds_records ''sessions'' session_id session_row ss (tabs w)"
    and fits: "list_all agent_fits as" "list_all skill_fits ks" "list_all session_fits ss"
    using holds fit by (simp_all add: l holds_lists_def lists_fit_def)
  have agent: "a \<in> set as \<Longrightarrow> on_row L st w2 (select_columns agent_select_sql) (agent_row a) \<Longrightarrow> extract_agent_row L A st w2 = a"
    and skill: "b \<in> set ks \<Longrightarrow> on_row L st w2 (select_columns skill_select_sql) (skill_row b) \<Longrightarrow> extract_skill_row L A st w2 = b"
    and session: "c \<in> set ss \<Longrightarrow> on_row L st w2 (select_columns session_select_sql) (session_row c) \<Longrightarrow>
      extract_session_row L A st w2 = c" for a b c st w2
    using fits agent_row_back [OF A, of a L st w2] skill_row_back [OF A, of b skill_insert_sql L st w2]
      session_row_back [OF A, of c session_insert_sql L st w2]
    by (auto simp: list_all_iff agent_row_def skill_row_def session_row_def agent_columns)
  have mapped: "found (map_option C x) = (fst (found x), map_option C (snd (found x)))" for C :: "'r \<Rightarrow> any_record" and x
    by (cases x) (simp_all add: found_def)
  show ?thesis
  proof (cases ty)
    case REC_AGENT
    obtain e r w' where run: "registry_query_one L agent_select_sql (registry_bind_id i) (extract_agent_row L A) (w, g) = (e, r, w')"
      by (metis prod_cases3)
    from agent_rows.query_one_found [OF crud rec(1) write_texts(11) select_tables(1) agent run] obtain ok where ok:
      "(e, r) = (if \<not> sql_usable g then (ERR_NOT_INITIALIZED, None) else if \<not> ok then (ERR_DB_QUERY_FAILED, None)
                       else found (table_map agent_id as i))" "sqlite_grants L tabs saved stext sargs \<longrightarrow> ok"
      "tabs w' = tabs w" "saved w' = saved w" by blast
    then show ?thesis using run k REC_AGENT ok(1) [symmetric]
      by (intro exI [of _ ok] exI [of _ w']) (auto simp: l sql_get_agent_def mapped split: if_splits)
  next
    case REC_SKILL
    obtain e r w' where run: "registry_query_one L skill_select_sql (registry_bind_id i) (extract_skill_row L A) (w, g) = (e, r, w')"
      by (metis prod_cases3)
    from skill_rows.query_one_found [OF crud rec(2) write_texts(12) select_tables(2) skill run] obtain ok where ok:
      "(e, r) = (if \<not> sql_usable g then (ERR_NOT_INITIALIZED, None) else if \<not> ok then (ERR_DB_QUERY_FAILED, None)
                       else found (table_map skill_id ks i))" "sqlite_grants L tabs saved stext sargs \<longrightarrow> ok"
      "tabs w' = tabs w" "saved w' = saved w" by blast
    then show ?thesis using run k REC_SKILL ok(1) [symmetric]
      by (intro exI [of _ ok] exI [of _ w']) (auto simp: l sql_get_skill_def mapped split: if_splits)
  next
    case REC_SESSION
    obtain e r w' where run: "registry_query_one L session_select_sql (registry_bind_id i) (extract_session_row L A) (w, g) = (e, r, w')"
      by (metis prod_cases3)
    from session_rows.query_one_found [OF crud rec(3) write_texts(13) select_tables(3) session run] obtain ok where ok:
      "(e, r) = (if \<not> sql_usable g then (ERR_NOT_INITIALIZED, None) else if \<not> ok then (ERR_DB_QUERY_FAILED, None)
                       else found (table_map session_id ss i))" "sqlite_grants L tabs saved stext sargs \<longrightarrow> ok"
      "tabs w' = tabs w" "saved w' = saved w" by blast
    then show ?thesis using run k REC_SESSION ok(1) [symmetric]
      by (intro exI [of _ ok] exI [of _ w']) (auto simp: l sql_get_session_def mapped split: if_splits)
  qed
qed

subsection \<open>Records keep fitting\<close>

lemma sql_abs_fits:
  assumes "list_all fits rs" and "call_fits fits c" and "\<And>x r. fits r \<Longrightarrow> fits (keep x r)"
  shows "list_all fits (snd (sql_abs key keep usable ok c rs))"
  using assms by (cases "(key, keep, usable, ok, c, rs)" rule: sql_abs.cases) (auto simp: list_all_iff)

lemma batch_abs_fits:
  "list_all fits rs \<Longrightarrow> pred_option (list_all fits) xs \<Longrightarrow> list_all fits (snd (batch_abs key usable ok xs n rs))"
  by (auto simp: batch_abs_def list_all_iff dest: in_set_takeD split: option.splits)

lemma keep_fits: "agent_fits a \<Longrightarrow> agent_fits (keep_agent x a)" "session_fits s \<Longrightarrow> session_fits (keep_session y s)"
  by (simp_all add: agent_fits_def keep_agent_def session_fits_def keep_session_def)

lemma sql_spec_fits:
  assumes "lists_fit l" and "op_fits x"
  shows "lists_fit (snd (sql_spec usable ok x l))"
proof -
  obtain as ks ss where l: "l = (as, ks, ss)" by (cases l)
  have f: "list_all agent_fits as" "list_all skill_fits ks" "list_all session_fits ss" using assms(1) by (simp_all add: l lists_fit_def)
  show ?thesis
  proof (cases x)
    case (Write_op c)
    have "call_fits agent_fits c \<Longrightarrow> list_all agent_fits (snd (sql_abs agent_id keep_agent usable ok c as))" for c
      by (rule sql_abs_fits [OF f(1) _ keep_fits(1)])
    moreover have "call_fits skill_fits c \<Longrightarrow> list_all skill_fits (snd (sql_abs skill_id (\<lambda>x r. r) usable ok c ks))" for c
      by (rule sql_abs_fits [OF f(2)])
    moreover have "call_fits session_fits c \<Longrightarrow> list_all session_fits (snd (sql_abs session_id keep_session usable ok c ss))" for c
      by (rule sql_abs_fits [OF f(3) _ keep_fits(2)])
    moreover have "call_fits skill_fits (RAdd r) = pred_option skill_fits r" "call_fits skill_fits (RDelete k)" for r k by simp_all
    ultimately show ?thesis using assms(2) f
      by (cases c) (auto simp: Write_op l lists_fit_def case_prod_beta simp del: sql_abs.simps call_fits.simps)
  next
    case (Get_op ty k out)
    then show ?thesis using assms(1) by (auto split: option.splits)
  next
    case (Batch_agents rs n)
    then show ?thesis using assms(2) f batch_abs_fits [OF f(1), of rs agent_id usable ok n]
      by (auto simp: l lists_fit_def split: prod.splits)
  next
    case (Batch_skills rs n)
    then show ?thesis using assms(2) f batch_abs_fits [OF f(2), of rs skill_id usable ok n]
      by (auto simp: l lists_fit_def split: prod.splits)
  next
    case (Batch_sessions rs n)
    then show ?thesis using assms(2) f batch_abs_fits [OF f(3), of rs session_id usable ok n]
      by (auto simp: l lists_fit_def split: prod.splits)
  qed
qed

lemma sql_apply_spec:
  assumes "sqlite_commits L saved" and crud: "sqlite_crud L tabs saved stext sargs" and "sqlite_txn L tabs saved stext sargs"
    and "strncpy_ok A" and holds: "holds_lists tabs saved l w" and fit: "lists_fit l" and x: "op_fits x"
  shows "\<exists>ok w'. sql_apply L A x (w, g) = (fst (sql_spec (sql_usable g) ok x l), w')
    \<and> holds_lists tabs saved (snd (sql_spec (sql_usable g) ok x l)) w'
    \<and> (sqlite_grants L tabs saved stext sargs \<longrightarrow> \<not> is_batch x \<longrightarrow> ok)"
proof (cases x)
  case (Write_op c)
  obtain ok w' where "sql_call L c (w, g) = (fst (lists_call (sql_usable g) ok c l), w')"
      "holds_lists tabs saved (snd (lists_call (sql_usable g) ok c l)) w'" "sqlite_grants L tabs saved stext sargs \<longrightarrow> ok"
    using sql_call_lists [OF crud holds, of c g] by blast
  then show ?thesis
    by (intro exI [of _ ok] exI [of _ w']) (simp add: Write_op case_prod_beta del: sql_call.simps lists_call.simps)
next
  case (Get_op ty k out)
  have "snd (sql_spec (sql_usable g) ok (Get_op ty k out) l) = l" for ok by (auto split: option.splits)
  moreover have "holds_lists tabs saved l w' = holds_lists tabs saved l w" if "tabs w' = tabs w" "saved w' = saved w" for w'
    using that by (cases l) (simp add: holds_lists_def)
  ultimately show ?thesis using get_apply_spec [OF crud assms(4) holds fit, of ty k out g] holds unfolding Get_op by metis
qed (use batch_apply_spec [where x = x and g = g and A = A, OF assms(1-3) holds] in \<open>simp_all del: sql_spec.simps sql_apply.simps\<close>)

text \<open>All operations of a serial order.\<close>

lemma sql_applies_specs:
  assumes "sqlite_commits L saved" and "sqlite_crud L tabs saved stext sargs" and "sqlite_txn L tabs saved stext sargs" and "strncpy_ok A"
  shows "holds_lists tabs saved l w \<Longrightarrow> lists_fit l \<Longrightarrow> \<forall>x\<in>set xs. op_fits x \<Longrightarrow> sql_applies L A xs (w, g) = (rs, w') \<Longrightarrow>
    \<exists>oks l'. length oks = length xs \<and> sql_specs (sql_usable g) (zip xs oks) l = (rs, l') \<and> holds_lists tabs saved l' w'
      \<and> (sqlite_grants L tabs saved stext sargs \<longrightarrow> (\<forall>(x, ok)\<in>set (zip xs oks). is_batch x \<or> ok))"
proof (induction xs arbitrary: l w rs)
  case Nil
  then show ?case by simp
next
  case (Cons x xs)
  obtain ok w1 where one: "sql_apply L A x (w, g) = (fst (sql_spec (sql_usable g) ok x l), w1)"
      "holds_lists tabs saved (snd (sql_spec (sql_usable g) ok x l)) w1"
      "sqlite_grants L tabs saved stext sargs \<longrightarrow> \<not> is_batch x \<longrightarrow> ok"
    using sql_apply_spec [OF assms Cons.prems(1,2), of x g] Cons.prems(3) by auto
  obtain rs1 where rest: "sql_applies L A xs (w1, g) = (rs1, w')" "rs = fst (sql_spec (sql_usable g) ok x l) # rs1"
    using Cons.prems(4) one(1) by (auto split: prod.splits)
  have "lists_fit (snd (sql_spec (sql_usable g) ok x l))" by (rule sql_spec_fits [OF Cons.prems(2)]) (use Cons.prems(3) in simp)
  from Cons.IH [OF one(2) this _ rest(1)] Cons.prems(3) obtain oks l' where IH: "length oks = length xs"
      "sql_specs (sql_usable g) (zip xs oks) (snd (sql_spec (sql_usable g) ok x l)) = (rs1, l')" "holds_lists tabs saved l' w'"
      "sqlite_grants L tabs saved stext sargs \<longrightarrow> (\<forall>(x, ok)\<in>set (zip xs oks). is_batch x \<or> ok)" by auto
  have "sql_specs (sql_usable g) (zip (x # xs) (ok # oks)) l = (rs, l')"
    by (simp add: case_prod_beta IH(2) rest(2) del: sql_spec.simps)
  moreover have "length (ok # oks) = length (x # xs)" by (simp add: IH(1))
  moreover have "sqlite_grants L tabs saved stext sargs \<longrightarrow> (\<forall>(x, ok)\<in>set (zip (x # xs) (ok # oks)). is_batch x \<or> ok)"
    using IH(4) one(3) by auto
  ultimately show ?case using IH(3) by blast
qed

section \<open>Several threads\<close>


text \<open>
  All operations end: no schedule blocks them for good, and rounds that give every thread a turn bring
  them to their end after as many rounds as the operations have calls.
\<close>

lemma sql_threads_finish:
  assumes "(\<Sum>x\<leftarrow>xs. sql_left (sql_thread_start x)) \<le> length rounds" and "\<forall>r\<in>set rounds. {..<length xs} \<subseteq> set r"
  shows "\<forall>t\<in>set (snd (snd (sql_threads L A (concat rounds) (sql_threads_start s xs)))). sql_result t \<noteq> None"
proof -
  have fit: "sql_progress.fit (sql_threads_start s xs)"
    unfolding sql_threads_start_def
    by (rule sql_progress.fit_start) (auto simp: sql_thread_start_def sql_phase_def)
  have total: "sql_progress.total (sql_threads_start s xs) \<le> length rounds"
    using assms(1) by (simp add: sql_threads_start_def sql_progress.total_def o_def)
  have turns: "\<forall>r\<in>set rounds. {..<length (snd (snd (sql_threads_start s xs)))} \<subseteq> set r"
    using assms(2) by (simp add: sql_threads_start_def)
  show ?thesis
    using sql_progress.fair_rounds_end [OF fit total turns] unfolding sql_threads_def sql_result_past .
qed

section \<open>An engine with transactions\<close>

text \<open>
  A database of one connection with any number of statements and one transaction, that never fails by
  itself: the statements run as in the small engine of HS_Sqlite_Query.
\<close>

record multi_db =
  m_tabs :: sql_tables
  m_saved :: "sql_tables option"
  m_next :: nat
  m_stmt :: "nat \<Rightarrow> mini_db"

definition multi_step :: "nat \<Rightarrow> multi_db \<Rightarrow> sqrc \<times> multi_db" where
  "multi_step st w =
     (case mini_step st ((m_stmt w st)\<lparr>mini_tabs := m_tabs w\<rparr>) of
        (rc, m) \<Rightarrow> (rc, w\<lparr>m_tabs := mini_tabs m, m_stmt := (m_stmt w)(st := m)\<rparr>))"

definition multi_exec :: "nat \<Rightarrow> string \<Rightarrow> multi_db \<Rightarrow> bool \<times> multi_db" where
  "multi_exec db sql w =
     (if sql = ''BEGIN TRANSACTION;''
      then (if m_saved w = None then (True, w\<lparr>m_saved := Some (m_tabs w)\<rparr>) else (False, w))
      else if sql = ''COMMIT;'' then (m_saved w \<noteq> None, w\<lparr>m_saved := None\<rparr>)
      else if sql = ''ROLLBACK;''
      then (m_saved w \<noteq> None, w\<lparr>m_tabs := (case m_saved w of None \<Rightarrow> m_tabs w | Some t \<Rightarrow> t), m_saved := None\<rparr>)
      else (True, w))"

definition fresh_stmt :: "string \<Rightarrow> mini_db" where
  "fresh_stmt sql = \<lparr>mini_tabs = (\<lambda>_. []), mini_text = sql, mini_args = Map.empty, mini_row = None, mini_rows = None\<rparr>"

definition multi_lib :: "multi_db sqlite3" where
  "multi_lib = \<lparr>sqlite3_open = (\<lambda>_ w. (True, Some 1, w)), sqlite3_close = (\<lambda>_ w. w), sqlite3_exec = multi_exec,
     sqlite3_prepare = (\<lambda>_ sql w. (Some (m_next w),
       w\<lparr>m_next := Suc (m_next w), m_stmt := (m_stmt w)(m_next w := fresh_stmt sql)\<rparr>)),
     sqlite3_bind = (\<lambda>st i v w. w\<lparr>m_stmt := (m_stmt w)(st := sqlite3_bind mini_lib st i v (m_stmt w st))\<rparr>),
     sqlite3_step = multi_step, sqlite3_reset = (\<lambda>_ w. w), sqlite3_finalize = (\<lambda>_ w. w),
     sqlite3_column_text = (\<lambda>st i w. sqlite3_column_text mini_lib st i (m_stmt w st)),
     sqlite3_column_int64 = (\<lambda>st i w. sqlite3_column_int64 mini_lib st i (m_stmt w st)), make_dir = (\<lambda>_ w. w)\<rparr>"

definition m_text :: "nat \<Rightarrow> multi_db \<Rightarrow> string" where "m_text st w = mini_text (m_stmt w st)"

definition m_args :: "nat \<Rightarrow> multi_db \<Rightarrow> nat \<Rightarrow> sqval option" where "m_args st w = mini_args (m_stmt w st)"

definition m_rows :: "nat \<Rightarrow> multi_db \<Rightarrow> sql_row list option" where "m_rows st w = mini_rows (m_stmt w st)"

lemmas multi_defs = m_text_def m_args_def m_rows_def

lemma multi_on_row:
  "on_row multi_lib st w cols row \<longleftrightarrow> on_row mini_lib st (m_stmt w st) cols row"
  by (simp add: on_row_def holds_value_def multi_lib_def split: option.splits sqval.splits)

lemma multi_lib_step: "sqlite3_step multi_lib = multi_step"
  by (simp add: multi_lib_def)

lemma multi_steps:
  "m_text st w \<in> insert_texts \<union> update_texts \<union> delete_texts \<Longrightarrow>
    multi_step st w = (case write_effect (m_text st w) (m_args st w) (m_tabs w) of
        None \<Rightarrow> (SQLITE_ERROR, w\<lparr>m_stmt := (m_stmt w)(st := (m_stmt w st)\<lparr>mini_tabs := m_tabs w\<rparr>)\<rparr>)
      | Some t \<Rightarrow> (SQLITE_DONE, w\<lparr>m_tabs := t, m_stmt := (m_stmt w)(st := (m_stmt w st)\<lparr>mini_tabs := t\<rparr>)\<rparr>))"
  "m_text st w \<in> select_texts \<Longrightarrow>
    multi_step st w = (case sql_select (m_text st w) (m_args st w) (m_tabs w) of
        None \<Rightarrow> (SQLITE_DONE, w\<lparr>m_stmt := (m_stmt w)(st := (m_stmt w st)\<lparr>mini_tabs := m_tabs w\<rparr>)\<rparr>)
      | Some row \<Rightarrow> (SQLITE_ROW, w\<lparr>m_stmt := (m_stmt w)(st := (m_stmt w st)\<lparr>mini_tabs := m_tabs w, mini_row := Some row\<rparr>)\<rparr>))"
  by (simp_all add: multi_step_def mini_steps multi_defs split: option.splits)

lemma multi_views:
  "mini_text (m_stmt w st) = m_text st w" "mini_args (m_stmt w st) = m_args st w" "mini_rows (m_stmt w st) = m_rows st w"
  "m_text st (w\<lparr>m_stmt := f\<rparr>) = mini_text (f st)" "m_args st (w\<lparr>m_stmt := f\<rparr>) = mini_args (f st)"
  "m_text st (w\<lparr>m_next := n, m_stmt := f\<rparr>) = mini_text (f st)" "m_args st (w\<lparr>m_next := n, m_stmt := f\<rparr>) = mini_args (f st)"
  "m_text st (w\<lparr>m_tabs := t\<rparr>) = m_text st w" "m_args st (w\<lparr>m_tabs := t\<rparr>) = m_args st w"
  "m_text st (w\<lparr>m_saved := v\<rparr>) = m_text st w" "m_args st (w\<lparr>m_saved := v\<rparr>) = m_args st w"
  by (simp_all add: multi_defs)

lemma multi_statements: "sqlite_statements multi_lib m_tabs m_saved m_text m_args sql_insert"
  unfolding sqlite_statements_def multi_lib_step
  by (auto simp: multi_lib_def mini_lib_def fresh_stmt_def multi_steps(1) write_effects(1) kept_or_rolled_back_def Let_def
      multi_views split: option.splits)

lemma multi_crud: "sqlite_crud multi_lib m_tabs m_saved m_text m_args"
  unfolding sqlite_crud_def multi_lib_step
proof (intro conjI allI impI multi_statements)
  fix st w rc w'
  assume run: "multi_step st w = (rc, w')"
  show "rc \<noteq> SQLITE_ROW" if "m_text st w \<in> insert_texts \<union> update_texts \<union> delete_texts"
    using run that by (auto simp: multi_steps(1) split: option.splits)
  show "if rc = SQLITE_DONE then write_effect (m_text st w) (m_args st w) (m_tabs w) = Some (m_tabs w') \<and> m_saved w' = m_saved w
      else kept_or_rolled_back m_tabs m_saved w w'" if "m_text st w \<in> insert_texts \<union> update_texts \<union> delete_texts"
    using run that by (auto simp: multi_steps(1) kept_or_rolled_back_def split: option.splits)
  assume sel: "m_text st w \<in> select_texts"
  show "m_tabs w' = m_tabs w" "m_saved w' = m_saved w" using run sel by (auto simp: multi_steps(2) split: option.splits)
  show "sql_select (m_text st w) (m_args st w) (m_tabs w) = None" if "rc = SQLITE_DONE"
    using run sel that by (auto simp: multi_steps(2) split: option.splits)
  show "\<exists>row. sql_select (m_text st w) (m_args st w) (m_tabs w) = Some row
      \<and> on_row multi_lib st w' (select_columns (m_text st w)) row" if "rc = SQLITE_ROW"
    using run sel that by (auto simp: multi_steps(2) multi_on_row multi_views intro!: mini_on_row split: option.splits)
qed

lemma multi_txn: "sqlite_txn multi_lib m_tabs m_saved m_text m_args"
  unfolding sqlite_txn_def
  by (auto simp: multi_lib_def multi_exec_def multi_views kept_or_rolled_back_def split: if_splits option.splits)

lemma multi_commits: "sqlite_commits multi_lib m_saved"
  by (simp add: sqlite_commits_def multi_lib_def multi_exec_def)

lemma multi_grants: "sqlite_grants multi_lib m_tabs m_saved m_text m_args"
  unfolding sqlite_grants_def multi_lib_step
  by (auto simp: multi_steps multi_lib_def split: option.splits)

section \<open>A run of two threads\<close>

text \<open>One thread adds a session, another looks it up: it finds the session or not, as the schedule has it.\<close>

definition multi_db0 :: multi_db where
  "multi_db0 = \<lparr>m_tabs = (\<lambda>_. []), m_saved = None, m_next = 1, m_stmt = (\<lambda>_. fresh_stmt [])\<rparr>"

definition shared_ops :: "sql_op list" where
  "shared_ops = [Write_op (Session_op (RAdd (Some (demo_session ''s1'')))), Get_op REC_SESSION (Some ''s1'') True]"

definition shared_threads :: "sql_thread list" where
  "shared_threads = snd (snd (sql_threads multi_lib demo_airy (concat (replicate 50 [0, 1])) (sql_threads_start (multi_db0, mini_reg) shared_ops)))"

lemma multi_db0_lists: "holds_lists m_tabs m_saved ([], [], []) multi_db0"
  by (simp add: holds_lists_def holds_records_def multi_db0_def)

lemma shared_finish:
  "list_all (\<lambda>t. sql_result t \<noteq> None)
     (snd (snd (sql_threads multi_lib demo_airy (concat (replicate 50 [0, 1])) (sql_threads_start (multi_db0, mini_reg) shared_ops))))"
  unfolding list_all_iff
  by (rule sql_threads_finish) (auto simp: shared_ops_def sql_thread_start_def sql_left_def job_defs bind_lengths registry_bind_id_def demo_session_def)

lemma shared_threads_length: "length shared_threads = 2"
  by (simp only: shared_threads_def sql_threads_def sql_progress.run_length) (simp add: sql_threads_start_def shared_ops_def)

lemma shared_fit: "list_all op_fits shared_ops"
  by (simp add: shared_ops_def demo_session_def session_fits_def)

lemma shared_specs:
  "sql_specs True [(shared_ops ! 0, True), (shared_ops ! 1, True)] ([], [], [])
     = ([(SUCCESS, None), (SUCCESS, Some (SessionRec (demo_session ''s1'')))], ([], [], [demo_session ''s1'']))"
  "sql_specs True [(shared_ops ! 1, True), (shared_ops ! 0, True)] ([], [], [])
     = ([(ERR_NOT_FOUND, None), (SUCCESS, None)], ([], [], [demo_session ''s1'']))"
  by (simp_all add: shared_ops_def demo_session_def found_def)


end
