(* ===== verification/HS_Registry_Threads.thy ===== *)
theory HS_Registry_Threads
  imports HS_Registry
begin

text \<open>
  src/heapstore_registry.c under several threads. heapstore_registry.h marks the operations
  @threadsafe yes, and the in-memory backend takes no mutex. The operations run here statement by
  statement on one domain, in any interleaving. Alone, an operation is the function of HS_Registry;
  lookups among themselves are as good as alone; two additions may lose a record or store an id twice,
  and a deletion may free what a lookup is about to copy.
\<close>

section \<open>The operations, statement by statement\<close>

datatype 'r domain_op = Reg_call "'r reg_call" | Reg_get "string option" bool

text \<open>
  The next statement. A node is private until it is published, so its two fields are kept in the
  control point: \<open>Publish a q\<close> is about to make the node \<open>a\<close> with next field \<open>q\<close> the head. \<open>Scan prev\<close> is the
  loop of reg_delete with \<open>pp\<close> at the next field of \<open>prev\<close>, or at the head. \<open>Crash\<close> has used freed memory.
\<close>

datatype reg_pc =
    Enter
  | Find "nat option"
  | Alloc_node
  | Alloc_data nat
  | Read_head nat
  | Publish nat "nat option"
  | Copy nat
  | Scan "nat option"
  | Unlink "nat option" nat
  | Free_node nat
  | Read_count
  | Write_count size_t
  | Stop hs_error
  | Crash

record 'r reg_thread =
  rop_of :: "'r domain_op"
  rpc_of :: reg_pc
  rout_of :: "'r option"

definition reg_thread_start :: "'r domain_op \<Rightarrow> 'r reg_thread" where
  "reg_thread_start x = \<lparr>rop_of = x, rpc_of = Enter, rout_of = None\<rparr>"

text \<open>The checks of the arguments and of s_registry.initialized, up to the first use of the list.\<close>

definition enter_record :: "('r \<Rightarrow> string) \<Rightarrow> bool \<Rightarrow> 'r option \<Rightarrow> nat option \<Rightarrow> reg_pc" where
  "enter_record key initialized rec head =
     (case rec of
        None \<Rightarrow> Stop ERR_INVALID_PARAM
      | Some r \<Rightarrow> if key r = [] then Stop ERR_INVALID_PARAM
                  else if \<not> initialized then Stop ERR_NOT_INITIALIZED else Find head)"

fun enter :: "('r \<Rightarrow> string) \<Rightarrow> bool \<Rightarrow> 'r domain_op \<Rightarrow> nat option \<Rightarrow> reg_pc" where
  "enter key initialized (Reg_call (RAdd rec)) head = enter_record key initialized rec head"
| "enter key initialized (Reg_call (RUpdate rec)) head = enter_record key initialized rec head"
| "enter key initialized (Reg_call (RDelete rid)) head =
     (if rid = None then Stop ERR_INVALID_PARAM else if \<not> initialized then Stop ERR_NOT_INITIALIZED else Scan None)"
| "enter key initialized (Reg_get rid out) head =
     (if rid = None \<or> \<not> out then Stop ERR_INVALID_PARAM else if \<not> initialized then Stop ERR_NOT_INITIALIZED else Find head)"

fun wanted_id :: "('r \<Rightarrow> string) \<Rightarrow> 'r domain_op \<Rightarrow> string" where
  "wanted_id key (Reg_call (RAdd rec)) = (case rec of None \<Rightarrow> [] | Some r \<Rightarrow> key r)"
| "wanted_id key (Reg_call (RUpdate rec)) = (case rec of None \<Rightarrow> [] | Some r \<Rightarrow> key r)"
| "wanted_id key (Reg_call (RDelete rid)) = (case rid of None \<Rightarrow> [] | Some k \<Rightarrow> k)"
| "wanted_id key (Reg_get rid out) = (case rid of None \<Rightarrow> [] | Some k \<Rightarrow> k)"

text \<open>What follows the result of find_node_by_id.\<close>

fun after_find :: "'r domain_op \<Rightarrow> nat option \<Rightarrow> reg_pc" where
  "after_find (Reg_call (RAdd rec)) None = Alloc_node"
| "after_find (Reg_call (RAdd rec)) (Some a) = Stop ERR_ALREADY_INITIALIZED"
| "after_find x None = Stop ERR_NOT_FOUND"
| "after_find x (Some a) = Copy a"

text \<open>The pointer that \<open>pp\<close> points to; None when it is in freed memory.\<close>

definition pointed :: "'r reg_domain \<Rightarrow> nat option \<Rightarrow> nat option option" where
  "pointed d prev = (case prev of None \<Rightarrow> Some (dhead d) | Some p \<Rightarrow> map_option nnext (dheap d p))"

definition redirect :: "'r reg_domain \<Rightarrow> nat option \<Rightarrow> nat option \<Rightarrow> 'r reg_domain option" where
  "redirect d prev q =
     (case prev of
        None \<Rightarrow> Some (d\<lparr>dhead := q\<rparr>)
      | Some p \<Rightarrow> map_option (\<lambda>m. d\<lparr>dheap := (dheap d)(p \<mapsto> m\<lparr>nnext := q\<rparr>)\<rparr>) (dheap d p))"

definition reg_step ::
  "('r \<Rightarrow> string) \<Rightarrow> bool \<Rightarrow> 'r reg_thread \<times> allocator \<times> 'r reg_domain \<Rightarrow> 'r reg_thread \<times> allocator \<times> 'r reg_domain" where
  "reg_step key initialized = (\<lambda>(t, al, d). let go = (\<lambda>pc. t\<lparr>rpc_of := pc\<rparr>); x = rop_of t in
     case rpc_of t of
       Enter \<Rightarrow> (go (enter key initialized x (dhead d)), al, d)
     | Find node \<Rightarrow> (go (case node of
           None \<Rightarrow> after_find x None
         | Some a \<Rightarrow> (case dheap d a of
               None \<Rightarrow> Crash
             | Some n \<Rightarrow> (case ndata n of
                   None \<Rightarrow> Find (nnext n)
                 | Some r \<Rightarrow> if key r = wanted_id key x then after_find x (Some a) else Find (nnext n)))), al, d)
     | Alloc_node \<Rightarrow> (case airy_alloc al of
           (None, al') \<Rightarrow> (go (Stop ERR_OUT_OF_MEMORY), al', d) | (Some a, al') \<Rightarrow> (go (Alloc_data a), al', d))
     | Alloc_data a \<Rightarrow> (case airy_alloc al of
           (None, al') \<Rightarrow> (go (Stop ERR_OUT_OF_MEMORY), al', d) | (Some _, al') \<Rightarrow> (go (Read_head a), al', d))
     | Read_head a \<Rightarrow> (go (Publish a (dhead d)), al, d)
     | Publish a q \<Rightarrow> (case x of
           Reg_call (RAdd rec) \<Rightarrow>
             (go Read_count, al, d\<lparr>dheap := (dheap d)(a \<mapsto> \<lparr>ndata = rec, nnext = q\<rparr>), dhead := Some a\<rparr>)
         | _ \<Rightarrow> (go Crash, al, d))
     | Copy a \<Rightarrow> (case dheap d a of
           None \<Rightarrow> (go Crash, al, d)
         | Some n \<Rightarrow> (case ndata n of
               None \<Rightarrow> (go Crash, al, d)
             | Some r \<Rightarrow> (case x of
                   Reg_call (RUpdate rec) \<Rightarrow> (go (Stop SUCCESS), al, d\<lparr>dheap := (dheap d)(a \<mapsto> n\<lparr>ndata := rec\<rparr>)\<rparr>)
                 | _ \<Rightarrow> (t\<lparr>rpc_of := Stop SUCCESS, rout_of := Some r\<rparr>, al, d))))
     | Scan prev \<Rightarrow> (go (case pointed d prev of
           None \<Rightarrow> Crash
         | Some None \<Rightarrow> Stop ERR_NOT_FOUND
         | Some (Some a) \<Rightarrow> (case Option.bind (dheap d a) ndata of
               None \<Rightarrow> Crash
             | Some r \<Rightarrow> if key r = wanted_id key x then Unlink prev a else Scan (Some a))), al, d)
     | Unlink prev a \<Rightarrow> (case Option.bind (dheap d a) (\<lambda>n. redirect d prev (nnext n)) of
           None \<Rightarrow> (go Crash, al, d)
         | Some d' \<Rightarrow> (go (Free_node a), al, d'))
     | Free_node a \<Rightarrow>
         if dheap d a = None then (go Crash, al, d) else (go Read_count, al, d\<lparr>dheap := (dheap d)(a := None)\<rparr>)
     | Read_count \<Rightarrow> (go (Write_count (dcount d)), al, d)
     | Write_count c \<Rightarrow>
         (go (Stop SUCCESS), al, d\<lparr>dcount := (case x of Reg_call (RDelete rid) \<Rightarrow> c - 1 | _ \<Rightarrow> c + 1)\<rparr>)
     | _ \<Rightarrow> (t, al, d))"

definition reg_steps ::
  "('r \<Rightarrow> string) \<Rightarrow> bool \<Rightarrow> nat \<Rightarrow> 'r reg_thread \<times> allocator \<times> 'r reg_domain \<Rightarrow> 'r reg_thread \<times> allocator \<times> 'r reg_domain" where
  "reg_steps key initialized n z = (reg_step key initialized ^^ n) z"

text \<open>Several threads; there is no mutex, so a schedule may switch after every statement.\<close>

definition race_step ::
  "('r \<Rightarrow> string) \<Rightarrow> bool \<Rightarrow> nat \<Rightarrow> 'r reg_thread list \<times> allocator \<times> 'r reg_domain \<Rightarrow> 'r reg_thread list \<times> allocator \<times> 'r reg_domain" where
  "race_step key initialized i = (\<lambda>(ts, s).
     if i < length ts then (case reg_step key initialized (ts ! i, s) of (t, s') \<Rightarrow> (ts[i := t], s')) else (ts, s))"

definition race_run ::
  "('r \<Rightarrow> string) \<Rightarrow> bool \<Rightarrow> nat list \<Rightarrow> 'r reg_thread list \<times> allocator \<times> 'r reg_domain \<Rightarrow> 'r reg_thread list \<times> allocator \<times> 'r reg_domain" where
  "race_run key initialized sched z = fold (race_step key initialized) sched z"

section \<open>Runs of one thread\<close>

text \<open>\<open>leads z z'\<close>: the thread gets from \<open>z\<close> to \<open>z'\<close> when it runs alone.\<close>

definition leads ::
  "('r \<Rightarrow> string) \<Rightarrow> bool \<Rightarrow> 'r reg_thread \<times> allocator \<times> 'r reg_domain \<Rightarrow> 'r reg_thread \<times> allocator \<times> 'r reg_domain \<Rightarrow> bool" where
  "leads key initialized z z' \<longleftrightarrow> (\<exists>n. reg_steps key initialized n z = z')"

lemma leads_refl: "leads key ini z z"
  unfolding leads_def by (rule exI [of _ 0]) (simp add: reg_steps_def)

lemma leads_step: "leads key ini (reg_step key ini z) z' \<Longrightarrow> leads key ini z z'"
  unfolding leads_def reg_steps_def by (auto simp: funpow_swap1 intro: exI [of _ "Suc n" for n])

lemma leads_trans:
  assumes "leads key ini z z1" and "leads key ini z1 z2"
  shows "leads key ini z z2"
proof -
  obtain n m where "reg_steps key ini n z = z1" "reg_steps key ini m z1 = z2" using assms unfolding leads_def by blast
  then have "reg_steps key ini (m + n) z = z2" by (simp add: reg_steps_def funpow_add)
  then show ?thesis unfolding leads_def by blast
qed

text \<open>The step at each control point.\<close>

lemma reg_step_at:
  "reg_step key ini (\<lparr>rop_of = x, rpc_of = Enter, rout_of = out\<rparr>, al, d)
     = (\<lparr>rop_of = x, rpc_of = enter key ini x (dhead d), rout_of = out\<rparr>, al, d)"
  "reg_step key ini (\<lparr>rop_of = x, rpc_of = Alloc_node, rout_of = out\<rparr>, al, d) = (case airy_alloc al of
       (None, al') \<Rightarrow> (\<lparr>rop_of = x, rpc_of = Stop ERR_OUT_OF_MEMORY, rout_of = out\<rparr>, al', d)
     | (Some a, al') \<Rightarrow> (\<lparr>rop_of = x, rpc_of = Alloc_data a, rout_of = out\<rparr>, al', d))"
  "reg_step key ini (\<lparr>rop_of = x, rpc_of = Alloc_data a, rout_of = out\<rparr>, al, d) = (case airy_alloc al of
       (None, al') \<Rightarrow> (\<lparr>rop_of = x, rpc_of = Stop ERR_OUT_OF_MEMORY, rout_of = out\<rparr>, al', d)
     | (Some b, al') \<Rightarrow> (\<lparr>rop_of = x, rpc_of = Read_head a, rout_of = out\<rparr>, al', d))"
  "reg_step key ini (\<lparr>rop_of = x, rpc_of = Read_head a, rout_of = out\<rparr>, al, d)
     = (\<lparr>rop_of = x, rpc_of = Publish a (dhead d), rout_of = out\<rparr>, al, d)"
  "reg_step key ini (\<lparr>rop_of = Reg_call (RAdd rec), rpc_of = Publish a q, rout_of = out\<rparr>, al, d)
     = (\<lparr>rop_of = Reg_call (RAdd rec), rpc_of = Read_count, rout_of = out\<rparr>, al,
        d\<lparr>dheap := (dheap d)(a \<mapsto> \<lparr>ndata = rec, nnext = q\<rparr>), dhead := Some a\<rparr>)"
  "reg_step key ini (\<lparr>rop_of = x, rpc_of = Unlink prev a, rout_of = out\<rparr>, al, d)
     = (case Option.bind (dheap d a) (\<lambda>n. redirect d prev (nnext n)) of
          None \<Rightarrow> (\<lparr>rop_of = x, rpc_of = Crash, rout_of = out\<rparr>, al, d)
        | Some d' \<Rightarrow> (\<lparr>rop_of = x, rpc_of = Free_node a, rout_of = out\<rparr>, al, d'))"
  "reg_step key ini (\<lparr>rop_of = x, rpc_of = Free_node a, rout_of = out\<rparr>, al, d)
     = (if dheap d a = None then (\<lparr>rop_of = x, rpc_of = Crash, rout_of = out\<rparr>, al, d)
        else (\<lparr>rop_of = x, rpc_of = Read_count, rout_of = out\<rparr>, al, d\<lparr>dheap := (dheap d)(a := None)\<rparr>))"
  "reg_step key ini (\<lparr>rop_of = x, rpc_of = Read_count, rout_of = out\<rparr>, al, d)
     = (\<lparr>rop_of = x, rpc_of = Write_count (dcount d), rout_of = out\<rparr>, al, d)"
  "reg_step key ini (\<lparr>rop_of = x, rpc_of = Write_count c, rout_of = out\<rparr>, al, d)
     = (\<lparr>rop_of = x, rpc_of = Stop SUCCESS, rout_of = out\<rparr>, al,
        d\<lparr>dcount := (case x of Reg_call (RDelete rid) \<Rightarrow> c - 1 | _ \<Rightarrow> c + 1)\<rparr>)"
  by (simp_all add: reg_step_def split: option.splits prod.splits)

lemma leads_next: "reg_step key ini z = z1 \<Longrightarrow> leads key ini z1 z' \<Longrightarrow> leads key ini z z'"
  using leads_step by blast

text \<open>find_node_by_id\<close>

lemma leads_find:
  "find_node_by_id h node k key = Some res \<Longrightarrow> dheap d = h \<Longrightarrow> k = wanted_id key x \<Longrightarrow>
    leads key ini (\<lparr>rop_of = x, rpc_of = Find node, rout_of = out\<rparr>, al, d)
      (\<lparr>rop_of = x, rpc_of = after_find x res, rout_of = out\<rparr>, al, d)"
proof (induction rule: find_node_by_id.raw_induct [rotated, consumes 1, case_names body])
  case (body find h node k key res)
  show ?case
    by (rule leads_step)
      (use body in \<open>auto simp: reg_step_def intro: leads_refl split: option.splits if_splits\<close>)
qed

text \<open>The loop of reg_delete.\<close>

lemma leads_delete:
  "reg_delete_loop key k d prev cur = Some res \<Longrightarrow> pointed d prev = Some cur \<Longrightarrow> k = wanted_id key x \<Longrightarrow> x = Reg_call (RDelete rid) \<Longrightarrow>
    leads key ini (\<lparr>rop_of = x, rpc_of = Scan prev, rout_of = out\<rparr>, al, d)
      (\<lparr>rop_of = x, rpc_of = Stop (if res = None then ERR_NOT_FOUND else SUCCESS), rout_of = out\<rparr>, al,
        case res of None \<Rightarrow> d | Some d' \<Rightarrow> d')"
proof (induction rule: reg_delete_loop.raw_induct [rotated, consumes 1, case_names body])
  case (body loop key k d prev cur res)
  show ?case
  proof (cases cur)
    case None
    show ?thesis by (rule leads_step) (use body(2-3) None in \<open>auto simp: reg_step_def leads_refl\<close>)
  next
    case (Some a)
    then obtain n r where n: "dheap d a = Some n" "ndata n = Some r" using body(2) by (auto split: option.splits)
    show ?thesis
    proof (cases "key r = k")
      case True
      let ?at = "\<lambda>pc. \<lparr>rop_of = x, rpc_of = pc, rout_of = out\<rparr>"
      obtain d1 where d1: "redirect d prev (nnext n) = Some d1" "dheap d1 a \<noteq> None"
          "res = Some (d1\<lparr>dheap := (dheap d1)(a := None), dcount := dcount d1 - 1\<rparr>)"
        using body(2) Some n True by (cases prev) (auto simp: redirect_def split: option.splits)
      have "reg_step key ini (?at (Scan prev), al, d) = (?at (Unlink prev a), al, d)"
        using body(3,4) Some n True by (simp add: reg_step_def)
      moreover have "reg_step key ini (?at (Unlink prev a), al, d) = (?at (Free_node a), al, d1)"
        using n d1(1) by (simp add: reg_step_at)
      moreover have "leads key ini (?at (Free_node a), al, d1) (?at (Stop SUCCESS), al,
          d1\<lparr>dheap := (dheap d1)(a := None), dcount := dcount d1 - 1\<rparr>)"
        by (rule leads_step, simp only: reg_step_at d1(2) if_False, rule leads_step, simp only: reg_step_at, rule leads_step)
          (simp add: reg_step_at body(5) leads_refl)
      ultimately show ?thesis using d1(3) by (simp add: leads_next)
    next
      case False
      then have "loop key k d (Some a) (nnext n) = Some res" using body(2) Some n by simp
      moreover have "pointed d (Some a) = Some (nnext n)" using n by (simp add: pointed_def)
      ultimately have "leads key ini (\<lparr>rop_of = x, rpc_of = Scan (Some a), rout_of = out\<rparr>, al, d)
          (\<lparr>rop_of = x, rpc_of = Stop (if res = None then ERR_NOT_FOUND else SUCCESS), rout_of = out\<rparr>, al,
            case res of None \<Rightarrow> d | Some d' \<Rightarrow> d')"
        using body(1,4,5) by blast
      then show ?thesis by (rule leads_next [rotated]) (use body(3,4) Some n False in \<open>simp add: reg_step_def\<close>)
    qed
  qed
qed

section \<open>An operation alone\<close>

text \<open>reg_add after the search, and its parts: up to the reading of the head, and from the publication on.\<close>

lemma leads_allocated:
  assumes "airy_alloc al = (Some a, al1)" and "airy_alloc al1 = (Some b, al2)"
  shows "leads key ini (\<lparr>rop_of = x, rpc_of = Alloc_node, rout_of = out\<rparr>, al, d)
    (\<lparr>rop_of = x, rpc_of = Publish a (dhead d), rout_of = out\<rparr>, al2, d)"
  by (rule leads_step, simp add: reg_step_at assms(1), rule leads_step, simp add: reg_step_at assms(2),
      rule leads_step) (simp add: reg_step_at leads_refl)

lemma leads_published:
  "leads key ini (\<lparr>rop_of = Reg_call (RAdd rec), rpc_of = Publish a q, rout_of = out\<rparr>, al, d)
    (\<lparr>rop_of = Reg_call (RAdd rec), rpc_of = Stop SUCCESS, rout_of = out\<rparr>, al,
      d\<lparr>dheap := (dheap d)(a \<mapsto> \<lparr>ndata = rec, nnext = q\<rparr>), dhead := Some a, dcount := dcount d + 1\<rparr>)"
  by (rule leads_step, simp only: reg_step_at, rule leads_step, simp only: reg_step_at, rule leads_step)
    (simp add: reg_step_at leads_refl)

lemma leads_add_rest:
  "leads key ini (\<lparr>rop_of = Reg_call (RAdd rec), rpc_of = Alloc_node, rout_of = out\<rparr>, al, d)
    (case airy_alloc al of
       (None, al1) \<Rightarrow> (\<lparr>rop_of = Reg_call (RAdd rec), rpc_of = Stop ERR_OUT_OF_MEMORY, rout_of = out\<rparr>, al1, d)
     | (Some a, al1) \<Rightarrow> (case airy_alloc al1 of
           (None, al2) \<Rightarrow> (\<lparr>rop_of = Reg_call (RAdd rec), rpc_of = Stop ERR_OUT_OF_MEMORY, rout_of = out\<rparr>, al2, d)
         | (Some b, al2) \<Rightarrow> (\<lparr>rop_of = Reg_call (RAdd rec), rpc_of = Stop SUCCESS, rout_of = out\<rparr>, al2,
             d\<lparr>dheap := (dheap d)(a \<mapsto> \<lparr>ndata = rec, nnext = dhead d\<rparr>), dhead := Some a, dcount := dcount d + 1\<rparr>)))"
proof -
  obtain o1 al1 where a1: "airy_alloc al = (o1, al1)" by fastforce
  obtain o2 al2 where a2: "airy_alloc al1 = (o2, al2)" by fastforce
  show ?thesis
  proof (cases o1)
    case None
    show ?thesis by (rule leads_step) (simp add: reg_step_at a1 None leads_refl)
  next
    case one: (Some a)
    show ?thesis
    proof (cases o2)
      case None
      show ?thesis by (rule leads_step, simp add: reg_step_at a1 one, rule leads_step) (simp add: reg_step_at a2 None leads_refl)
    next
      case (Some b)
      show ?thesis
        using leads_trans [OF leads_allocated leads_published] a1 a2 one Some by fastforce
    qed
  qed
qed

text \<open>Up to the result of the checks, and of the search.\<close>

lemma leads_checked:
  assumes "enter key ini x (dhead d) = Stop e"
  shows "leads key ini (reg_thread_start x, al, d) (\<lparr>rop_of = x, rpc_of = Stop e, rout_of = None\<rparr>, al, d)"
  unfolding reg_thread_start_def by (rule leads_next [OF reg_step_at(1)]) (simp add: assms leads_refl)

lemma leads_found:
  assumes "enter key ini x (dhead d) = Find (dhead d)"
    and "find_node_by_id (dheap d) (dhead d) (wanted_id key x) key = Some res"
  shows "leads key ini (reg_thread_start x, al, d) (\<lparr>rop_of = x, rpc_of = after_find x res, rout_of = None\<rparr>, al, d)"
  unfolding reg_thread_start_def
  by (rule leads_next [OF reg_step_at(1)]) (simp add: assms(1) leads_find [OF assms(2) refl refl])

lemma leads_copied:
  assumes "dheap d a = Some n" and "ndata n = Some r"
  shows "leads key ini (\<lparr>rop_of = Reg_call (RUpdate rec), rpc_of = Copy a, rout_of = out\<rparr>, al, d)
      (\<lparr>rop_of = Reg_call (RUpdate rec), rpc_of = Stop SUCCESS, rout_of = out\<rparr>, al, d\<lparr>dheap := (dheap d)(a \<mapsto> n\<lparr>ndata := rec\<rparr>)\<rparr>)"
    and "leads key ini (\<lparr>rop_of = Reg_get rid o2, rpc_of = Copy a, rout_of = out\<rparr>, al, d)
      (\<lparr>rop_of = Reg_get rid o2, rpc_of = Stop SUCCESS, rout_of = Some r\<rparr>, al, d)"
  by (rule leads_step, simp add: reg_step_def assms leads_refl)+

text \<open>Whenever the function of HS_Registry has a result, the statements of a thread alone arrive at it.\<close>

lemma solo_add:
  assumes "reg_add key ini rec (al, d) = Some (e, al', d')"
  shows "leads key ini (reg_thread_start (Reg_call (RAdd rec)), al, d)
    (\<lparr>rop_of = Reg_call (RAdd rec), rpc_of = Stop e, rout_of = None\<rparr>, al', d')"
proof (cases "rec = None \<or> (\<exists>r. rec = Some r \<and> (key r = [] \<or> \<not> ini))")
  case True
  then have "enter key ini (Reg_call (RAdd rec)) (dhead d) = Stop e \<and> al' = al \<and> d' = d"
    using assms by (auto simp: reg_add_def enter_record_def split: if_splits)
  then show ?thesis by (simp add: leads_checked)
next
  case False
  then obtain r where r: "rec = Some r" "key r \<noteq> []" ini by auto
  obtain res where res: "find_node_by_id (dheap d) (dhead d) (key r) key = Some res"
    using assms r by (auto simp: reg_add_def split: option.splits)
  have found: "leads key ini (reg_thread_start (Reg_call (RAdd rec)), al, d)
      (\<lparr>rop_of = Reg_call (RAdd rec), rpc_of = after_find (Reg_call (RAdd rec)) res, rout_of = None\<rparr>, al, d)"
    by (rule leads_found) (use r res in \<open>simp_all add: enter_record_def\<close>)
  show ?thesis
  proof (cases res)
    case None
    have "leads key ini (\<lparr>rop_of = Reg_call (RAdd rec), rpc_of = Alloc_node, rout_of = None\<rparr>, al, d)
        (\<lparr>rop_of = Reg_call (RAdd rec), rpc_of = Stop e, rout_of = None\<rparr>, al', d')"
      using leads_add_rest [where key = key and ini = ini and rec = rec and al = al and d = d and out = None] assms r res None
      by (auto simp: reg_add_def split: prod.splits option.splits)
    then show ?thesis using found None by (auto intro: leads_trans)
  next
    case (Some a)
    then show ?thesis using found assms r res by (simp add: reg_add_def)
  qed
qed

lemma solo_update:
  assumes "reg_update key ini rec d = Some (e, d')"
  shows "leads key ini (reg_thread_start (Reg_call (RUpdate rec)), al, d)
    (\<lparr>rop_of = Reg_call (RUpdate rec), rpc_of = Stop e, rout_of = None\<rparr>, al, d')"
proof (cases "rec = None \<or> (\<exists>r. rec = Some r \<and> (key r = [] \<or> \<not> ini))")
  case True
  then have "enter key ini (Reg_call (RUpdate rec)) (dhead d) = Stop e \<and> d' = d"
    using assms by (auto simp: reg_update_def enter_record_def split: if_splits)
  then show ?thesis by (simp add: leads_checked)
next
  case False
  then obtain r where r: "rec = Some r" "key r \<noteq> []" ini by auto
  obtain res where res: "find_node_by_id (dheap d) (dhead d) (key r) key = Some res"
    using assms r by (auto simp: reg_update_def split: option.splits)
  have found: "leads key ini (reg_thread_start (Reg_call (RUpdate rec)), al, d)
      (\<lparr>rop_of = Reg_call (RUpdate rec), rpc_of = after_find (Reg_call (RUpdate rec)) res, rout_of = None\<rparr>, al, d)"
    by (rule leads_found) (use r res in \<open>simp_all add: enter_record_def\<close>)
  show ?thesis
  proof (cases res)
    case None
    then show ?thesis using found assms r res by (simp add: reg_update_def)
  next
    case (Some a)
    then obtain n s where n: "dheap d a = Some n" "ndata n = Some s" "e = SUCCESS" "d' = d\<lparr>dheap := (dheap d)(a \<mapsto> n\<lparr>ndata := rec\<rparr>)\<rparr>"
      using assms r res by (auto simp: reg_update_def split: option.splits)
    then show ?thesis using leads_trans [OF found] leads_copied(1) [OF n(1,2)] Some by simp
  qed
qed

lemma solo_get:
  fixes key :: "'r \<Rightarrow> string"
  assumes "reg_get key ini rid out d = Some (e, r)"
  shows "leads key ini (reg_thread_start (Reg_get rid out), al, d) (\<lparr>rop_of = Reg_get rid out, rpc_of = Stop e, rout_of = r\<rparr>, al, d)"
proof (cases "rid = None \<or> \<not> out \<or> \<not> ini")
  case True
  then have "enter key ini (Reg_get rid out) (dhead d) = Stop e \<and> r = None"
    using assms by (auto simp: reg_get_def split: option.splits if_splits)
  then show ?thesis by (simp add: leads_checked)
next
  case False
  then obtain k where k: "rid = Some k" out ini by auto
  obtain res where res: "find_node_by_id (dheap d) (dhead d) k key = Some res"
    using assms k by (auto simp: reg_get_def split: option.splits)
  have found: "leads key ini (reg_thread_start (Reg_get rid out), al, d)
      (\<lparr>rop_of = Reg_get rid out, rpc_of = after_find (Reg_get rid out :: 'r domain_op) res, rout_of = None\<rparr>, al, d)"
    by (rule leads_found) (use k res in simp_all)
  show ?thesis
  proof (cases res)
    case None
    then show ?thesis using found assms k res by (simp add: reg_get_def)
  next
    case (Some a)
    then obtain n s where n: "dheap d a = Some n" "ndata n = Some s" "e = SUCCESS" "r = Some s"
      using assms k res by (fastforce simp: reg_get_def split: option.splits)
    then show ?thesis using leads_trans [OF found] leads_copied(2) [OF n(1,2)] Some by simp
  qed
qed

lemma solo_delete:
  assumes "reg_delete key ini rid d = Some (e, d')"
  shows "leads key ini (reg_thread_start (Reg_call (RDelete rid)), al, d)
    (\<lparr>rop_of = Reg_call (RDelete rid), rpc_of = Stop e, rout_of = None\<rparr>, al, d')"
proof (cases "rid = None \<or> \<not> ini")
  case True
  then have "enter key ini (Reg_call (RDelete rid)) (dhead d) = Stop e \<and> d' = d"
    using assms by (auto simp: reg_delete_def split: option.splits)
  then show ?thesis by (simp add: leads_checked)
next
  case False
  then obtain k res where k: "rid = Some k" ini "reg_delete_loop key k d None (dhead d) = Some res"
    using assms by (auto simp: reg_delete_def split: option.splits)
  have "reg_step key ini (reg_thread_start (Reg_call (RDelete rid)), al, d)
      = (\<lparr>rop_of = Reg_call (RDelete rid), rpc_of = Scan None, rout_of = None\<rparr>, al, d)"
    using k by (simp add: reg_thread_start_def reg_step_at)
  from leads_next [OF this leads_delete [OF k(3)]] show ?thesis
    using assms k by (cases res) (auto simp: reg_delete_def pointed_def)
qed

lemma solo_call:
  assumes "reg_exec key ini c (al, d) = Some (e, al', d')"
  shows "leads key ini (reg_thread_start (Reg_call c), al, d) (\<lparr>rop_of = Reg_call c, rpc_of = Stop e, rout_of = None\<rparr>, al', d')"
  using assms solo_add solo_update [of key ini _ d e d' al] solo_delete [of key ini _ d e d' al] by (cases c) auto

section \<open>Lookups among themselves\<close>

text \<open>Where a lookup is, its result is still that of reg_get on the unchanged list.\<close>

definition get_ok :: "('r \<Rightarrow> string) \<Rightarrow> bool \<Rightarrow> 'r reg_domain \<Rightarrow> 'r reg_thread \<Rightarrow> bool" where
  "get_ok key ini d t \<longleftrightarrow>
     (case rop_of t of
        Reg_get rid out \<Rightarrow>
          (case rpc_of t of
             Enter \<Rightarrow> rout_of t = None
           | Find node \<Rightarrow> rout_of t = None \<and> out \<and> ini
               \<and> (\<exists>k. rid = Some k \<and> find_node_by_id (dheap d) node k key = find_node_by_id (dheap d) (dhead d) k key)
           | Copy a \<Rightarrow> out \<and> ini \<and> (\<exists>k. rid = Some k \<and> find_node_by_id (dheap d) (dhead d) k key = Some (Some a))
           | Stop e \<Rightarrow> reg_get key ini rid out d = Some (e, rout_of t)
           | Crash \<Rightarrow> reg_get key ini rid out d = None
           | _ \<Rightarrow> False)
      | _ \<Rightarrow> False)"

lemma get_ok_step:
  assumes "get_ok key ini d t" and "reg_step key ini (t, al, d) = (t', s')"
  shows "s' = (al, d) \<and> get_ok key ini d t' \<and> rop_of t' = rop_of t"
proof -
  obtain rid out where x: "rop_of t = Reg_get rid out" using assms(1) by (auto simp: get_ok_def split: domain_op.splits)
  show ?thesis
  proof (cases "rpc_of t")
    case Enter
    then show ?thesis using assms x by (auto simp: get_ok_def reg_step_def reg_get_def split: option.splits)
  next
    case (Find node)
    then obtain k where k: "rid = Some k" out ini "rout_of t = None"
        "find_node_by_id (dheap d) node k key = find_node_by_id (dheap d) (dhead d) k key"
      using assms(1) x by (auto simp: get_ok_def)
    have "find_node_by_id (dheap d) (dhead d) k key = (case node of None \<Rightarrow> Some None | Some a \<Rightarrow> (case dheap d a of
        None \<Rightarrow> None
      | Some n \<Rightarrow> (case ndata n of
            Some r \<Rightarrow> if key r = k then Some (Some a) else find_node_by_id (dheap d) (nnext n) k key
          | None \<Rightarrow> find_node_by_id (dheap d) (nnext n) k key)))"
      unfolding k(5) [symmetric] by (rule find_node_by_id.simps)
    then show ?thesis using assms(2) x Find k(1-4)
      by (auto simp: get_ok_def reg_step_def reg_get_def split: option.splits if_splits)
  next
    case (Copy a)
    then show ?thesis using assms x by (auto simp: get_ok_def reg_step_def reg_get_def split: option.splits)
  qed (use assms x in \<open>auto simp: get_ok_def reg_step_def\<close>)
qed

lemma gets_run:
  "\<forall>t\<in>set ts. get_ok key ini d t \<Longrightarrow> race_run key ini sched (ts, al, d) = (ts', s') \<Longrightarrow>
    s' = (al, d) \<and> (\<forall>t\<in>set ts'. get_ok key ini d t) \<and> map rop_of ts' = map rop_of ts"
proof (induction sched arbitrary: ts)
  case Nil
  then show ?case by (simp add: race_run_def)
next
  case (Cons i sched)
  show ?case
  proof (cases "i < length ts")
    case True
    obtain t s1 where st: "reg_step key ini (ts ! i, al, d) = (t, s1)" by (metis prod.exhaust)
    note one = get_ok_step [OF _ st]
    have "get_ok key ini d (ts ! i)" using Cons.prems(1) True by simp
    note one = one [OF this]
    have "race_run key ini sched (ts[i := t], al, d) = (ts', s')"
      using Cons.prems(2) True st one by (simp add: race_run_def race_step_def)
    moreover have "\<forall>u\<in>set (ts[i := t]). get_ok key ini d u" using Cons.prems(1) one set_update_subset_insert [of ts i t] by blast
    ultimately have "s' = (al, d) \<and> (\<forall>t\<in>set ts'. get_ok key ini d t) \<and> map rop_of ts' = map rop_of (ts[i := t])" using Cons.IH by blast
    moreover have "map rop_of (ts[i := t]) = map rop_of ts" using one True by (simp add: map_update list_update_same_conv)
    ultimately show ?thesis by simp
  next
    case False
    then show ?thesis using Cons by (simp add: race_run_def race_step_def)
  qed
qed

text \<open>
  C10. Any number of lookups in any interleaving: they change nothing, none uses freed memory, and each that
  has returned returned what reg_get gives.
\<close>

theorem concurrent_gets_exact:
  assumes "dom_rep key al d rs" and "race_run key ini sched (map (\<lambda>(k, out). reg_thread_start (Reg_get k out)) ks, al, d) = (ts, s)"
  shows "s = (al, d) \<and> (\<forall>t\<in>set ts. rpc_of t \<noteq> Crash)
    \<and> (\<forall>i<length ks. \<forall>e. rpc_of (ts ! i) = Stop e \<longrightarrow> reg_get key ini (fst (ks ! i)) (snd (ks ! i)) d = Some (e, rout_of (ts ! i)))"
proof -
  have "\<forall>t\<in>set (map (\<lambda>(k, out). reg_thread_start (Reg_get k out)) ks). get_ok key ini d t"
    by (auto simp: get_ok_def reg_thread_start_def)
  from gets_run [OF this assms(2)] have run: "s = (al, d)" "\<forall>t\<in>set ts. get_ok key ini d t"
    "map rop_of ts = map (\<lambda>(k, out). Reg_get k out) ks"
    by (auto simp: reg_thread_start_def case_prod_beta o_def)
  have total: "reg_get key ini k out d \<noteq> None" for k out
  proof (cases "k = None \<or> \<not> out \<or> \<not> ini")
    case True
    then show ?thesis by (auto simp: reg_get_def split: option.splits)
  next
    case False
    then show ?thesis using reg_get_rep [OF assms(1), of "the k"] by auto
  qed
  have "rpc_of t \<noteq> Crash" if here: "t \<in> set ts" for t
  proof
    assume "rpc_of t = Crash"
    moreover have "get_ok key ini d t" using run(2) here by blast
    ultimately show False using total by (cases "rop_of t") (simp_all add: get_ok_def)
  qed
  moreover have "reg_get key ini (fst (ks ! i)) (snd (ks ! i)) d = Some (e, rout_of (ts ! i))"
    if "i < length ks" "rpc_of (ts ! i) = Stop e" for i e
  proof -
    have "length ts = length ks" using arg_cong [OF run(3), of length] by simp
    then have "get_ok key ini d (ts ! i)" "rop_of (ts ! i) = Reg_get (fst (ks ! i)) (snd (ks ! i))"
      using run(2) that(1) nth_map [of i ts rop_of] unfolding run(3) by (auto simp: case_prod_beta)
    then show ?thesis using that(2) by (simp add: get_ok_def)
  qed
  ultimately show ?thesis using run(1) by blast
qed

section \<open>Races\<close>

definition may_reach ::
  "('r \<Rightarrow> string) \<Rightarrow> bool \<Rightarrow> 'r reg_thread list \<times> allocator \<times> 'r reg_domain \<Rightarrow> 'r reg_thread list \<times> allocator \<times> 'r reg_domain \<Rightarrow> bool" where
  "may_reach key ini z z' \<longleftrightarrow> (\<exists>sched. race_run key ini sched z = z')"

lemma may_reach_trans: "may_reach key ini z z1 \<Longrightarrow> may_reach key ini z1 z2 \<Longrightarrow> may_reach key ini z z2"
  unfolding may_reach_def race_run_def by (metis comp_apply fold_append)

lemma solo_steps:
  "i < length ts \<Longrightarrow> race_run key ini (replicate n i) (ts, s) = (ts[i := fst (reg_steps key ini n (ts ! i, s))], snd (reg_steps key ini n (ts ! i, s)))"
proof (induction n arbitrary: ts s)
  case (Suc n)
  obtain t s1 where st: "reg_step key ini (ts ! i, s) = (t, s1)" by (metis prod.exhaust)
  have "race_run key ini (replicate (Suc n) i) (ts, s) = race_run key ini (replicate n i) (ts[i := t], s1)"
    using Suc.prems st by (simp add: race_run_def race_step_def)
  then show ?case using Suc.IH [of "ts[i := t]" s1] Suc.prems st by (simp add: reg_steps_def funpow_swap1)
qed (simp add: race_run_def reg_steps_def)

lemma solo_reaches:
  assumes "leads key ini (ts ! i, s) (t', s')" and "i < length ts"
  shows "may_reach key ini (ts, s) (ts[i := t'], s')"
proof -
  obtain n where "reg_steps key ini n (ts ! i, s) = (t', s')" using assms(1) by (auto simp: leads_def)
  then show ?thesis unfolding may_reach_def using solo_steps [OF assms(2), of key ini n s] by auto
qed

lemma first_of_two: "leads key ini (t, s) (t', s') \<Longrightarrow> may_reach key ini ([t, u], s) ([t', u], s')"
  using solo_reaches [of key ini "[t, u]" 0 s t' s'] by simp

lemma second_of_two: "leads key ini (u, s) (u', s') \<Longrightarrow> may_reach key ini ([t, u], s) ([t, u'], s')"
  using solo_reaches [of key ini "[t, u]" 1 s u' s'] by simp

lemma add_to_alloc:
  assumes "dom_rep key al d rs" and "key r \<notin> key ` set rs" and "key r \<noteq> []"
  shows "leads key True (reg_thread_start (Reg_call (RAdd (Some r))), al2, d)
    (\<lparr>rop_of = Reg_call (RAdd (Some r)), rpc_of = Alloc_node, rout_of = None\<rparr>, al2, d)"
  using leads_found [where x = "Reg_call (RAdd (Some r))" and res = None and key = key and ini = True and d = d and al = al2]
    dom_rep_find_missing [OF assms(1,2)] assms(3) by (simp add: enter_record_def)

lemma add_to_publish:
  assumes "dom_rep key al d rs" and "key r \<notin> key ` set rs" and "key r \<noteq> []" and "memory_granted al2"
  shows "leads key True (reg_thread_start (Reg_call (RAdd (Some r))), al2, d)
    (\<lparr>rop_of = Reg_call (RAdd (Some r)), rpc_of = Publish (tick al2) (dhead d), rout_of = None\<rparr>, al2\<lparr>tick := tick al2 + 2\<rparr>, d)"
proof -
  have "airy_alloc al2 = (Some (tick al2), al2\<lparr>tick := tick al2 + 1\<rparr>)"
    and "airy_alloc (al2\<lparr>tick := tick al2 + 1\<rparr>) = (Some (tick al2 + 1), al2\<lparr>tick := tick al2 + 2\<rparr>)"
    using assms(4) by (simp_all add: airy_alloc_def memory_granted_def)
  from leads_trans [OF add_to_alloc [OF assms(1-3)] leads_allocated [OF this]] show ?thesis .
qed

text \<open>
  C11. Two additions of different records: both read the head before either writes it. Both report SUCCESS
  and the counter grows by two, but the list has only one of the records; the other cannot be found.
\<close>

theorem racing_adds_lose_record:
  assumes rep: "dom_rep key al d rs" and new: "key r1 \<notin> key ` set rs" "key r2 \<notin> key ` set rs" "key r1 \<noteq> key r2"
    and ids: "key r1 \<noteq> []" "key r2 \<noteq> []" and mem: "memory_granted al" "memory_granted (al\<lparr>tick := tick al + 2\<rparr>)"
  shows "\<exists>al' d' t1 t2 xs. may_reach key True (map (\<lambda>r. reg_thread_start (Reg_call (RAdd (Some r)))) [r1, r2], al, d) ([t1, t2], al', d')
    \<and> rpc_of t1 = Stop SUCCESS \<and> rpc_of t2 = Stop SUCCESS
    \<and> lseg (dheap d') (dhead d') xs \<and> map snd xs = r2 # rs \<and> dcount d' = of_nat (length rs + 2)
    \<and> reg_get key True (Some (key r1)) True d' = Some (ERR_NOT_FOUND, None)"
proof -
  obtain xs where xs: "dom_shape key al d xs" and rs: "rs = map snd xs" using rep by (auto simp: dom_rep_def)
  let ?start = "\<lambda>r. reg_thread_start (Reg_call (RAdd (Some r)))"
  let ?at = "\<lambda>r pc. \<lparr>rop_of = Reg_call (RAdd (Some r)), rpc_of = pc, rout_of = None\<rparr>"
  let ?a = "tick al" and ?b = "tick al + 2" and ?q = "dhead d"
  let ?al1 = "al\<lparr>tick := tick al + 2\<rparr>" and ?al2 = "al\<lparr>tick := tick al + 4\<rparr>"
  let ?d1 = "d\<lparr>dheap := (dheap d)(?a \<mapsto> \<lparr>ndata = Some r1, nnext = ?q\<rparr>), dhead := Some ?a, dcount := dcount d + 1\<rparr>"
  let ?d2 = "?d1\<lparr>dheap := (dheap ?d1)(?b \<mapsto> \<lparr>ndata = Some r2, nnext = ?q\<rparr>), dhead := Some ?b, dcount := dcount ?d1 + 1\<rparr>"
  have "may_reach key True ([?start r1, ?start r2], al, d) ([?at r1 (Publish ?a ?q), ?start r2], ?al1, d)"
    by (rule first_of_two [OF add_to_publish [OF rep new(1) ids(1) mem(1)]])
  moreover have "may_reach key True ([?at r1 (Publish ?a ?q), ?start r2], ?al1, d) ([?at r1 (Publish ?a ?q), ?at r2 (Publish ?b ?q)], ?al2, d)"
    using second_of_two [OF add_to_publish [OF rep new(2) ids(2) mem(2)]] by (simp add: eval_nat_numeral)
  moreover have "may_reach key True ([?at r1 (Publish ?a ?q), ?at r2 (Publish ?b ?q)], ?al2, d)
      ([?at r1 (Stop SUCCESS), ?at r2 (Publish ?b ?q)], ?al2, ?d1)"
    by (rule first_of_two [OF leads_published])
  moreover have "may_reach key True ([?at r1 (Stop SUCCESS), ?at r2 (Publish ?b ?q)], ?al2, ?d1)
      ([?at r1 (Stop SUCCESS), ?at r2 (Stop SUCCESS)], ?al2, ?d2)"
    by (rule second_of_two [OF leads_published])
  ultimately have run: "may_reach key True ([?start r1, ?start r2], al, d) ([?at r1 (Stop SUCCESS), ?at r2 (Stop SUCCESS)], ?al2, ?d2)"
    by (blast intro: may_reach_trans)
  have fresh: "?a \<notin> fst ` set xs" "?b \<notin> fst ` set xs" using xs by (auto simp: dom_shape_def)
  have list: "lseg (dheap ?d2) (dhead ?d2) ((?b, r2) # xs)" using xs fresh by (simp add: dom_shape_def lseg_frame)
  have "find_node_by_id (dheap ?d2) (dhead ?d2) (key r1) key = Some None"
    using find_node_lseg [OF list, of "key r1" key] find_None_key [of key "key r1" xs] new by (auto simp: rs image_comp)
  then have "reg_get key True (Some (key r1)) True ?d2 = Some (ERR_NOT_FOUND, None)" by (simp add: reg_get_def)
  moreover have "dcount ?d2 = of_nat (length rs + 2)" using xs by (simp add: dom_shape_def rs)
  ultimately show ?thesis using run list
    by (intro exI [of _ ?al2] exI [of _ ?d2] exI [of _ "?at r1 (Stop SUCCESS)"] exI [of _ "?at r2 (Stop SUCCESS)"]
        exI [of _ "(?b, r2) # xs"]) (simp add: rs)
qed

text \<open>
  Two additions under one id: both search before either publishes. Both report SUCCESS, where one of the
  two must be refused in any order; the list has the id twice.
\<close>

theorem racing_adds_store_id_twice:
  assumes rep: "dom_rep key al d rs" and new: "key r1 \<notin> key ` set rs" "key r1 = key r2"
    and ids: "key r1 \<noteq> []" and mem: "memory_granted al" "memory_granted (al\<lparr>tick := tick al + 2\<rparr>)"
  shows "\<exists>al' d' t1 t2 xs. may_reach key True (map (\<lambda>r. reg_thread_start (Reg_call (RAdd (Some r)))) [r1, r2], al, d) ([t1, t2], al', d')
    \<and> rpc_of t1 = Stop SUCCESS \<and> rpc_of t2 = Stop SUCCESS
    \<and> lseg (dheap d') (dhead d') xs \<and> map snd xs = r2 # r1 # rs"
proof -
  obtain xs where xs: "dom_shape key al d xs" and rs: "rs = map snd xs" using rep by (auto simp: dom_rep_def)
  let ?start = "\<lambda>r. reg_thread_start (Reg_call (RAdd (Some r)))"
  let ?at = "\<lambda>r pc. \<lparr>rop_of = Reg_call (RAdd (Some r)), rpc_of = pc, rout_of = None\<rparr>"
  let ?a = "tick al" and ?b = "tick al + 2"
  let ?al1 = "al\<lparr>tick := tick al + 2\<rparr>" and ?al2 = "al\<lparr>tick := tick al + 4\<rparr>"
  let ?d1 = "d\<lparr>dheap := (dheap d)(?a \<mapsto> \<lparr>ndata = Some r1, nnext = dhead d\<rparr>), dhead := Some ?a, dcount := dcount d + 1\<rparr>"
  let ?d2 = "?d1\<lparr>dheap := (dheap ?d1)(?b \<mapsto> \<lparr>ndata = Some r2, nnext = dhead ?d1\<rparr>), dhead := Some ?b, dcount := dcount ?d1 + 1\<rparr>"
  have alloc: "airy_alloc al = (Some ?a, al\<lparr>tick := tick al + 1\<rparr>)" "airy_alloc (al\<lparr>tick := tick al + 1\<rparr>) = (Some (?a + 1), ?al1)"
      "airy_alloc ?al1 = (Some ?b, al\<lparr>tick := tick al + 3\<rparr>)" "airy_alloc (al\<lparr>tick := tick al + 3\<rparr>) = (Some (?b + 1), ?al2)"
    using mem by (simp_all add: airy_alloc_def memory_granted_def eval_nat_numeral)
  have "may_reach key True ([?start r1, ?start r2], al, d) ([?at r1 Alloc_node, ?start r2], al, d)"
    by (rule first_of_two [OF add_to_alloc [OF rep new(1) ids]])
  moreover have "may_reach key True ([?at r1 Alloc_node, ?start r2], al, d) ([?at r1 Alloc_node, ?at r2 Alloc_node], al, d)"
    by (rule second_of_two [OF add_to_alloc [OF rep]]) (use new ids in simp_all)
  moreover have "may_reach key True ([?at r1 Alloc_node, ?at r2 Alloc_node], al, d) ([?at r1 (Stop SUCCESS), ?at r2 Alloc_node], ?al1, ?d1)"
    by (rule first_of_two [OF leads_trans [OF leads_allocated [OF alloc(1,2)] leads_published]])
  moreover have "may_reach key True ([?at r1 (Stop SUCCESS), ?at r2 Alloc_node], ?al1, ?d1) ([?at r1 (Stop SUCCESS), ?at r2 (Stop SUCCESS)], ?al2, ?d2)"
    by (rule second_of_two [OF leads_trans [OF leads_allocated [OF alloc(3,4)] leads_published]])
  ultimately have run: "may_reach key True ([?start r1, ?start r2], al, d) ([?at r1 (Stop SUCCESS), ?at r2 (Stop SUCCESS)], ?al2, ?d2)"
    by (blast intro: may_reach_trans)
  have fresh: "?a \<notin> fst ` set xs" "?b \<notin> fst ` set xs" using xs by (auto simp: dom_shape_def)
  have list: "lseg (dheap ?d2) (dhead ?d2) ((?b, r2) # (?a, r1) # xs)" using xs fresh by (simp add: dom_shape_def lseg_frame)
  show ?thesis using run list
    by (intro exI [of _ ?al2] exI [of _ ?d2] exI [of _ "?at r1 (Stop SUCCESS)"] exI [of _ "?at r2 (Stop SUCCESS)"]
        exI [of _ "(?b, r2) # (?a, r1) # xs"]) (simp add: rs)
qed

text \<open>A lookup and a deletion of one id: the record is freed between the search and the copy.\<close>

theorem get_races_delete:
  assumes rep: "dom_rep key al d rs" and "k \<in> key ` set rs"
  shows "\<exists>al' d' t1 t2. may_reach key True ([reg_thread_start (Reg_get (Some k) True), reg_thread_start (Reg_call (RDelete (Some k)))], al, d)
      ([t1, t2], al', d') \<and> rpc_of t1 = Crash \<and> rpc_of t2 = Stop SUCCESS"
proof -
  obtain xs where xs: "dom_shape key al d xs" and rs: "rs = map snd xs" using rep by (auto simp: dom_rep_def)
  then have "find (\<lambda>(a, r). key r = k) xs \<noteq> None" using find_None_key [of key k xs] assms(2) by (simp add: image_comp)
  then obtain a r where hit: "find (\<lambda>(a, r). key r = k) xs = Some (a, r)" by auto
  then obtain us ws where split: "key r = k" "xs = us @ (a, r) # ws" "k \<notin> key ` snd ` set us" using find_Some_split by fast
  have "lseg (dheap d) (dhead d) (us @ (a, r) # ws)" using xs by (simp only: dom_shape_def split(2))
  from reg_delete_loop_found [where us = "[]" and vs = us, OF _ this _ split(1,3)] this obtain d' where
    del: "reg_delete_loop key k d None (dhead d) = Some (Some d')" "dom (dheap d') = dom (dheap d) - {a}"
    by (auto simp: prev_of_def)
  let ?get = "Reg_get (Some k) True" and ?del = "Reg_call (RDelete (Some k))"
  let ?t1 = "\<lambda>pc. \<lparr>rop_of = ?get, rpc_of = pc, rout_of = None\<rparr>" and ?t2 = "\<lparr>rop_of = ?del, rpc_of = Stop SUCCESS, rout_of = None\<rparr>"
  have "leads key True (reg_thread_start ?get, al, d) (?t1 (Copy a), al, d)"
    using leads_found [where x = ?get and key = key and ini = True and d = d and al = al and res = "Some a"]
      dom_shape_find [OF xs, of k] hit by simp
  then have "may_reach key True ([reg_thread_start ?get, reg_thread_start ?del], al, d) ([?t1 (Copy a), reg_thread_start ?del], al, d)"
    by (rule first_of_two)
  moreover have "leads key True (reg_thread_start ?del, al, d) (?t2, al, d')"
    by (rule solo_delete) (simp add: reg_delete_def del(1))
  then have "may_reach key True ([?t1 (Copy a), reg_thread_start ?del], al, d) ([?t1 (Copy a), ?t2], al, d')"
    by (rule second_of_two)
  moreover have "dheap d' a = None" using del(2) by auto
  then have "leads key True (?t1 (Copy a), al, d') (?t1 Crash, al, d')"
    by (intro leads_next [OF _ leads_refl]) (simp add: reg_step_def)
  then have "may_reach key True ([?t1 (Copy a), ?t2], al, d') ([?t1 Crash, ?t2], al, d')" by (rule first_of_two)
  ultimately have "may_reach key True ([reg_thread_start ?get, reg_thread_start ?del], al, d) ([?t1 Crash, ?t2], al, d')"
    by (blast intro: may_reach_trans)
  then show ?thesis by (intro exI [of _ al] exI [of _ d'] exI [of _ "?t1 Crash"] exI [of _ ?t2]) simp
qed

section \<open>Examples\<close>

theorem concurrent_gets_exact_witness:
  "\<exists>ts. race_run session_id True [0, 1, 0, 1, 1, 0, 1]
      (map (\<lambda>(k, out). reg_thread_start (Reg_get k out)) [(Some ''s1'', True), (Some ''s2'', True)], demo_alloc\<lparr>tick := 2\<rparr>, demo_domain)
      = (ts, demo_alloc\<lparr>tick := 2\<rparr>, demo_domain)
    \<and> map rpc_of ts = [Stop SUCCESS, Stop ERR_NOT_FOUND]
    \<and> reg_get session_id True (Some ''s1'') True demo_domain = Some (SUCCESS, rout_of (ts ! 0))
    \<and> reg_get session_id True (Some ''s2'') True demo_domain = Some (ERR_NOT_FOUND, rout_of (ts ! 1))"
proof -
  let ?ks = "[(Some ''s1'', True), (Some ''s2'', True)]"
  obtain ts where run: "race_run session_id True [0, 1, 0, 1, 1, 0, 1]
      (map (\<lambda>(k, out). reg_thread_start (Reg_get k out)) ?ks, demo_alloc\<lparr>tick := 2\<rparr>, demo_domain)
      = (ts, demo_alloc\<lparr>tick := 2\<rparr>, demo_domain)" "map rpc_of ts = [Stop SUCCESS, Stop ERR_NOT_FOUND]"
    by (simp add: race_run_def race_step_def reg_step_def reg_thread_start_def demo_domain_def demo_session_def)
  from run(2) obtain t u where ts: "ts = [t, u]" "rpc_of t = Stop SUCCESS" "rpc_of u = Stop ERR_NOT_FOUND" by auto
  have exact: "\<forall>i<length ?ks. \<forall>e. rpc_of (ts ! i) = Stop e \<longrightarrow>
      reg_get session_id True (fst (?ks ! i)) (snd (?ks ! i)) demo_domain = Some (e, rout_of (ts ! i))"
    using concurrent_gets_exact [OF demo_domain_rep run(1)] by blast
  have "reg_get session_id True (Some ''s1'') True demo_domain = Some (SUCCESS, rout_of (ts ! 0))"
    using exact [THEN spec, of 0] ts by simp
  moreover have "reg_get session_id True (Some ''s2'') True demo_domain = Some (ERR_NOT_FOUND, rout_of (ts ! 1))"
    using exact [THEN spec, of 1] ts by simp
  ultimately show ?thesis using run by (intro exI [of _ ts] conjI)
qed

theorem racing_adds_lose_record_witness:
  "\<exists>al' d' t1 t2 xs. may_reach session_id True
      (map (\<lambda>r. reg_thread_start (Reg_call (RAdd (Some r)))) [demo_session ''s1'', demo_session ''s2''], demo_alloc, empty_domain)
      ([t1, t2], al', d')
    \<and> rpc_of t1 = Stop SUCCESS \<and> rpc_of t2 = Stop SUCCESS
    \<and> lseg (dheap d') (dhead d') xs \<and> map snd xs = [demo_session ''s2''] \<and> dcount d' = 2
    \<and> reg_get session_id True (Some ''s1'') True d' = Some (ERR_NOT_FOUND, None)"
proof -
  have id: "session_id (demo_session k) = k" for k by (simp add: demo_session_def)
  have mem: "memory_granted demo_alloc" "memory_granted (demo_alloc\<lparr>tick := tick demo_alloc + 2\<rparr>)"
    by (simp_all add: memory_granted_def demo_alloc_def)
  have two: "of_nat (length [] + 2) = (2::size_t)" by simp
  show ?thesis
    by (rule racing_adds_lose_record [OF dom_rep_empty [of session_id demo_alloc], of "demo_session ''s1''" "demo_session ''s2''",
          unfolded id two, OF _ _ _ _ _ mem]) simp_all
qed

end
